(* ===== verification/Adw_Prelude.thy ===== *)
theory Adw_Prelude
  imports Main "HOL-Library.Word" "HOL-Library.Sublist" "HOL-Library.Monad_Syntax"
    "HOL-Library.Code_Target_Nat"
begin

section \<open>Shared types, byte operations and lemmas\<close>

text \<open>
  What every component shares: the machine integer types, byte strings, checked indexing and
  slicing, the searches of Rust's slice iterators, and big- and little-endian field encodings.

  A Rust \<open>[u8]\<close>, \<open>Vec<u8>\<close> and \<open>String\<close> is a list of bytes (a \<open>String\<close> is the list of its UTF-8
  bytes). A \<open>usize\<close> that only counts bytes of a buffer is a \<open>nat\<close>. An index or a slice that the
  code takes without a check of its own, and that would panic out of range, is an \<open>option\<close> here
  (\<open>index\<close>, \<open>slice\<close>): the outer \<open>None\<close> of a function in this style is a panic of the code, and a
  lemma that the result is \<open>Some\<close> says that the code never panics.
\<close>

type_synonym u8 = "8 word"
type_synonym u16 = "16 word"
type_synonym u32 = "32 word"
type_synonym u64 = "64 word"
type_synonym i32 = "32 word" \<comment> \<open>read by \<open>sint\<close>\<close>
type_synonym bytes = "8 word list"

named_theorems adw_len \<open>lengths of encoded fields\<close>
named_theorems adw_enc \<open>decoding of encoded fields\<close>

definition asc :: "string \<Rightarrow> bytes" where
  \<comment> \<open>a Rust byte-string literal\<close>
  "asc s = map of_char s"

definition CRLF :: bytes where
  "CRLF = [13, 10]"

definition usize_max :: nat where
  \<comment> \<open>\<open>usize::MAX\<close> on the 64-bit ABIs\<close>
  "usize_max = 2 ^ 64 - 1"

lemma asc_Nil [simp]: "asc [] = []"
  by (simp add: asc_def)

lemma asc_Cons [simp]: "asc (c # s) = of_char c # asc s"
  by (simp add: asc_def)

lemma length_asc [simp]: "length (asc s) = length s"
  by (simp add: asc_def)

subsection \<open>Checked indexing\<close>

definition index :: "'a list \<Rightarrow> nat \<Rightarrow> 'a option" where
  "index xs i = (if i < length xs then Some (xs ! i) else None)"

definition slice :: "'a list \<Rightarrow> nat \<Rightarrow> nat \<Rightarrow> 'a list option" where
  \<comment> \<open>\<open>&xs[a..e]\<close>\<close>
  "slice xs a e = (if a \<le> e \<and> e \<le> length xs then Some (take (e - a) (drop a xs)) else None)"

definition store_at :: "'a list \<Rightarrow> nat \<Rightarrow> 'a \<Rightarrow> 'a list option" where
  \<comment> \<open>\<open>xs[i] = v\<close>\<close>
  "store_at xs i v = (if i < length xs then Some (xs[i := v]) else None)"

lemma store_at_Some [simp]: "i < length xs \<Longrightarrow> store_at xs i v = Some (xs[i := v])"
  by (simp add: store_at_def)

lemma index_Some [simp]: "i < length xs \<Longrightarrow> index xs i = Some (xs ! i)"
  by (simp add: index_def)

lemma index_None [simp]: "length xs \<le> i \<Longrightarrow> index xs i = None"
  by (simp add: index_def)

lemma index_eq_Some_iff: "index xs i = Some x \<longleftrightarrow> i < length xs \<and> xs ! i = x"
  by (auto simp: index_def)

lemma index_append_left: "index xs i = Some x \<Longrightarrow> index (xs @ ys) i = Some x"
  by (auto simp: index_def nth_append split: if_splits)

lemma slice_Some [simp]:
  "a \<le> e \<Longrightarrow> e \<le> length xs \<Longrightarrow> slice xs a e = Some (take (e - a) (drop a xs))"
  by (simp add: slice_def)

lemma slice_eq_Some_iff:
  "slice xs a e = Some ys \<longleftrightarrow> a \<le> e \<and> e \<le> length xs \<and> ys = take (e - a) (drop a xs)"
  by (auto simp: slice_def)

lemma slice_mid: "length pre = a \<Longrightarrow> e = a + length m \<Longrightarrow> slice (pre @ m @ post) a e = Some m"
  by (simp add: slice_def)

lemma slice_length: "slice xs a e = Some ys \<Longrightarrow> length ys = e - a"
  by (auto simp: slice_eq_Some_iff)

subsection \<open>Searching\<close>

fun position :: "('a \<Rightarrow> bool) \<Rightarrow> 'a list \<Rightarrow> nat option" where
  \<comment> \<open>\<open>iter().position(p)\<close>\<close>
  "position P [] = None"
| "position P (x # xs) = (if P x then Some 0 else map_option Suc (position P xs))"

fun find_sub :: "'a list \<Rightarrow> 'a list \<Rightarrow> nat option" where
  \<comment> \<open>\<open>windows(pat.len()).position(|w| w == pat)\<close> for a non-empty \<open>pat\<close>\<close>
  "find_sub pat [] = None"
| "find_sub pat (x # xs) =
     (if prefix pat (x # xs) then Some 0 else map_option Suc (find_sub pat xs))"

lemma position_Some_iff:
  "position P xs = Some i \<longleftrightarrow> i < length xs \<and> P (xs ! i) \<and> (\<forall>j<i. \<not> P (xs ! j))"
proof (induction xs arbitrary: i)
  case Nil
  then show ?case by simp
next
  case (Cons x xs)
  show ?case
    by (cases i) (auto simp: Cons.IH less_Suc_eq_0_disj)
qed

lemma position_None_iff: "position P xs = None \<longleftrightarrow> (\<forall>x\<in>set xs. \<not> P x)"
  by (induction xs) auto

lemma position_append_Some: "position P xs = Some i \<Longrightarrow> position P (xs @ ys) = Some i"
  by (induction xs arbitrary: i) (auto split: if_splits)

lemma position_append_None:
  "position P xs = None \<Longrightarrow> position P (xs @ ys) = map_option ((+) (length xs)) (position P ys)"
proof (induction xs)
  case Nil
  then show ?case by (cases "position P ys") auto
next
  case (Cons x xs)
  then show ?case by (cases "position P ys") (auto split: if_splits)
qed

lemma find_sub_SomeD:
  "find_sub pat xs = Some i \<Longrightarrow> prefix pat (drop i xs) \<and> (\<forall>j<i. \<not> prefix pat (drop j xs))"
proof (induction xs arbitrary: i)
  case Nil
  then show ?case by simp
next
  case (Cons x xs)
  show ?case
  proof (cases "prefix pat (x # xs)")
    case True
    with Cons.prems show ?thesis by auto
  next
    case False
    with Cons.prems obtain k where "find_sub pat xs = Some k" "i = Suc k" by auto
    with Cons.IH[of k] False show ?thesis
      by (auto simp: less_Suc_eq_0_disj)
  qed
qed

lemma find_sub_bound: "find_sub pat xs = Some i \<Longrightarrow> i + length pat \<le> length xs"
  by (induction xs arbitrary: i) (auto split: if_splits dest!: prefix_length_le)

lemma prefix_appendD_short: "prefix pat (xs @ ys) \<Longrightarrow> length pat \<le> length xs \<Longrightarrow> prefix pat xs"
  by (metis prefix_length_prefix prefixI)

lemma find_sub_append_Some:
  "find_sub pat xs = Some i \<Longrightarrow> find_sub pat (xs @ ys) = Some i"
proof (induction xs arbitrary: i)
  case Nil
  then show ?case by simp
next
  case (Cons x xs)
  show ?case
  proof (cases "prefix pat (x # xs)")
    case True
    then have "prefix pat (x # xs @ ys)" using prefix_prefix[of pat "x # xs" ys] by simp
    with True Cons.prems show ?thesis by simp
  next
    case False
    with Cons.prems obtain k where k: "find_sub pat xs = Some k" "i = Suc k" by auto
    then have "length pat \<le> length (x # xs)" using find_sub_bound[OF k(1)] by simp
    with False have "\<not> prefix pat ((x # xs) @ ys)" using prefix_appendD_short by blast
    with False k Cons.IH show ?thesis by simp
  qed
qed

lemma find_sub_None_take:
  "find_sub pat (xs @ ys) = None \<Longrightarrow> find_sub pat xs = None"
  using find_sub_append_Some by (metis not_Some_eq)

text \<open>A hit in an extended buffer that is not in the old one ends past the old end.\<close>

lemma find_sub_append_late:
  assumes "find_sub pat xs = None" and "find_sub pat (xs @ ys) = Some i" and "pat \<noteq> []"
  shows "length xs < i + length pat"
  using assms
proof (induction xs arbitrary: i)
  case Nil
  then show ?case by (cases pat) auto
next
  case (Cons x xs)
  show ?case
  proof (cases i)
    case 0
    with Cons.prems have "prefix pat (x # xs @ ys)"
      by (auto split: if_splits)
    moreover from Cons.prems(1) have "\<not> prefix pat (x # xs)" by (auto split: if_splits)
    ultimately have "length (x # xs) < length pat"
      using prefix_length_prefix[of pat "(x # xs) @ ys" "x # xs"] by fastforce
    with 0 show ?thesis by simp
  next
    case (Suc k)
    with Cons.prems have "find_sub pat xs = None" "find_sub pat (xs @ ys) = Some k"
      by (auto split: if_splits)
    with Cons.IH Cons.prems(3) Suc show ?thesis by auto
  qed
qed

subsection \<open>Big- and little-endian fields\<close>

definition be16n :: "u8 \<Rightarrow> u8 \<Rightarrow> nat" where
  \<comment> \<open>\<open>((hi as usize) << 8) | lo as usize\<close>\<close>
  "be16n hi lo = unat hi * 256 + unat lo"

definition be16w :: "u8 \<Rightarrow> u8 \<Rightarrow> u16" where
  \<comment> \<open>\<open>((hi as u16) << 8) | (lo as u16)\<close>, \<open>u16::from_be_bytes\<close>\<close>
  "be16w hi lo = word_of_nat (be16n hi lo)"

definition be16 :: "u16 \<Rightarrow> bytes" where
  \<comment> \<open>\<open>u16::to_be_bytes\<close>\<close>
  "be16 w = [word_of_nat (unat w div 256), word_of_nat (unat w)]"

definition be32 :: "u32 \<Rightarrow> bytes" where
  "be32 w = [word_of_nat (unat w div 2 ^ 24), word_of_nat (unat w div 2 ^ 16),
             word_of_nat (unat w div 2 ^ 8), word_of_nat (unat w)]"

fun le_bytes :: "nat \<Rightarrow> nat \<Rightarrow> bytes" where
  \<comment> \<open>the \<open>n\<close> low bytes of a number, least significant first: \<open>to_le_bytes\<close>\<close>
  "le_bytes 0 v = []"
| "le_bytes (Suc n) v = word_of_nat v # le_bytes n (v div 256)"

fun le_val :: "bytes \<Rightarrow> nat" where
  "le_val [] = 0"
| "le_val (b # bs) = unat b + 256 * le_val bs"

lemma unat_u8_less [simp]: "unat (b :: u8) < 256"
  using unsigned_less[of b] by simp

lemma unat_u8_le: "unat (b :: u8) \<le> 255"
  using unat_u8_less[of b] by linarith

lemma unat_u16_less: "unat (w :: u16) < 65536"
  using unsigned_less[of w] by simp

lemma unat_u32_less: "unat (w :: u32) < 2 ^ 32"
  using unsigned_less[of w] by simp

lemma unat_u64_less: "unat (w :: u64) < 2 ^ 64"
  using unsigned_less[of w] by simp

lemma unat_word_of_nat_u8: "unat (word_of_nat n :: u8) = n mod 256"
  by (simp add: unat_of_nat take_bit_eq_mod)

lemma unat_word_of_nat_u16: "unat (word_of_nat n :: u16) = n mod 65536"
  by (simp add: unat_of_nat take_bit_eq_mod)

lemma unat_word_of_nat_u32: "unat (word_of_nat n :: u32) = n mod 2 ^ 32"
  by (simp add: unat_of_nat take_bit_eq_mod)

lemma unat_word_of_nat_u64: "unat (word_of_nat n :: u64) = n mod 2 ^ 64"
  by (simp add: unat_of_nat take_bit_eq_mod)

lemmas unat_word_of_nat =
  unat_word_of_nat_u8 unat_word_of_nat_u16 unat_word_of_nat_u32 unat_word_of_nat_u64

lemma be16n_less [simp]: "be16n hi lo < 65536"
  using unat_u8_less[of hi] unat_u8_less[of lo] unfolding be16n_def by linarith

lemma unat_be16w [simp]: "unat (be16w hi lo) = be16n hi lo"
  unfolding be16w_def unat_word_of_nat by simp

lemma length_be16 [simp, adw_len]: "length (be16 w) = 2"
  by (simp add: be16_def)

lemma length_be32 [simp, adw_len]: "length (be32 w) = 4"
  by (simp add: be32_def)

lemma be16w_be16 [adw_enc]:
  "be16w (word_of_nat (unat w div 256)) (word_of_nat (unat w)) = w"
proof (rule word_unat_eq_iff[THEN iffD2])
  have "unat w div 256 mod 256 = unat w div 256"
    using unat_u16_less[of w] by simp
  then show "unat (be16w (word_of_nat (unat w div 256)) (word_of_nat (unat w))) = unat w"
    unfolding unat_be16w be16n_def unat_word_of_nat_u8 by simp
qed

lemma be16w_be16_ucast [simp]: "be16w (word_of_nat (unat w div 256)) (ucast w) = w"
  using be16w_be16[of w] by simp

lemma be16_be16w: "be16 (be16w hi lo) = [hi, lo]"
proof -
  have "(unat hi * 256 + unat lo) div 256 = unat hi"
    using unat_u8_less[of lo] by simp
  moreover have "unat (word_of_nat (be16n hi lo) :: u8) = unat lo"
    unfolding unat_word_of_nat_u8 be16n_def by simp
  ultimately show ?thesis
    unfolding be16_def unat_be16w by (simp add: be16n_def word_unat_eq_iff)
qed

lemma length_le_bytes [simp, adw_len]: "length (le_bytes n v) = n"
  by (induction n arbitrary: v) auto

lemma le_val_le_bytes [adw_enc]: "le_val (le_bytes n v) = v mod 256 ^ n"
proof (induction n arbitrary: v)
  case 0
  then show ?case by simp
next
  case (Suc n)
  have "v mod (256 * 256 ^ n) = 256 * (v div 256 mod 256 ^ n) + v mod 256"
    by (simp add: mod_mult2_eq)
  with Suc show ?case by (simp add: unat_word_of_nat_u8)
qed

text \<open>The shift-and-or form in which the code writes the 16-bit reads.\<close>

lemma be16w_shift_or:
  "be16w hi lo = or (push_bit 8 (ucast hi)) (ucast lo)"
proof -
  have small: "\<not> bit lo n" if "8 \<le> n" for n
    using that bit_imp_le_length[of lo n] by auto
  have "and (push_bit 8 (ucast hi :: u16)) (ucast lo) = 0"
    by (rule bit_eqI) (auto simp: bit_simps small)
  then have "or (push_bit 8 (ucast hi)) (ucast lo) = push_bit 8 (ucast hi :: u16) + ucast lo"
    by (simp add: disjunctive_add_eq_or)
  also have "\<dots> = word_of_nat (unat hi * 256 + unat lo)"
    by (simp add: push_bit_eq_mult)
  finally show ?thesis by (simp add: be16w_def be16n_def)
qed

lemma be16_shift: "[ucast (drop_bit 8 f), ucast (and f 0xFF)] = be16 f"
proof -
  have "unat (ucast (drop_bit 8 f) :: u8) = unat f div 256"
    using unat_u16_less[of f]
    by (simp add: unsigned_ucast_eq take_bit_eq_mod unsigned_drop_bit_eq drop_bit_eq_div unat_div)
  then have a: "(ucast (drop_bit 8 f) :: u8) = word_of_nat (unat f div 256)"
    by (metis of_nat_unat ucast_id)
  have b: "(ucast (and f 0xFF) :: u8) = ucast f"
  proof -
    have "(0xFF :: u16) = mask 8" by (simp add: mask_eq_exp_minus_1)
    then have "and f 0xFF = take_bit 8 f" by (simp add: take_bit_eq_mask)
    then show ?thesis by (auto intro!: bit_word_eqI simp: bit_simps)
  qed
  show ?thesis unfolding be16_def a b by simp
qed

end
