(* ===== verification/Rust_Text.thy ===== *)
theory Rust_Text
  imports Adw_Prelude
begin

section \<open>The parts of Rust's string library the sources use\<close>

text \<open>
  Byte-level models of the standard-library functions that the wire-format code relies on:
  ASCII case folding, UTF-8 validation (\<open>str::from_utf8\<close>) and lossy decoding
  (\<open>String::from_utf8_lossy\<close>, one replacement character per maximal invalid subpart), trimming of
  Unicode white space, splitting, and the integer parsers and printers. A \<open>str\<close> is its UTF-8
  bytes; splitting or trimming at an ASCII or a whole encoded character acts on the bytes alone.
\<close>

subsection \<open>ASCII case\<close>

definition lower_u8 :: "u8 \<Rightarrow> u8" where
  \<comment> \<open>\<open>u8::to_ascii_lowercase\<close>\<close>
  "lower_u8 c = (if 65 \<le> c \<and> c \<le> 90 then c + 32 else c)"

definition to_lower :: "bytes \<Rightarrow> bytes" where
  "to_lower s = map lower_u8 s"

definition eq_ignore_case :: "bytes \<Rightarrow> bytes \<Rightarrow> bool" where
  "eq_ignore_case a b \<longleftrightarrow> to_lower a = to_lower b"

lemma lower_u8_idem [simp]: "lower_u8 (lower_u8 c) = lower_u8 c"
  by (auto simp: lower_u8_def word_le_nat_alt unat_word_ariths)

lemma length_to_lower [simp]: "length (to_lower s) = length s"
  by (simp add: to_lower_def)

lemma to_lower_idem [simp]: "to_lower (to_lower s) = to_lower s"
  by (simp add: to_lower_def)

lemma to_lower_append: "to_lower (a @ b) = to_lower a @ to_lower b"
  by (simp add: to_lower_def)

lemma to_lower_Nil [simp]: "to_lower [] = []"
  by (simp add: to_lower_def)

lemma to_lower_eq_Nil [simp]: "to_lower s = [] \<longleftrightarrow> s = []"
  by (simp add: to_lower_def)

subsection \<open>UTF-8\<close>

definition is_cont :: "u8 \<Rightarrow> bool" where
  "is_cont c \<longleftrightarrow> 128 \<le> c \<and> c \<le> 191"

fun byte_or_0 :: "bytes \<Rightarrow> nat \<Rightarrow> u8" where
  "byte_or_0 s i = (if i < length s then s ! i else 0)"

definition utf8_second_ok :: "u8 \<Rightarrow> u8 \<Rightarrow> bool" where
  \<comment> \<open>the range of the second byte after a three- or four-byte lead\<close>
  "utf8_second_ok b c \<longleftrightarrow>
     (if b = 0xE0 then 0xA0 \<le> c \<and> c \<le> 0xBF
      else if b = 0xED then 0x80 \<le> c \<and> c \<le> 0x9F
      else if b = 0xF0 then 0x90 \<le> c \<and> c \<le> 0xBF
      else if b = 0xF4 then 0x80 \<le> c \<and> c \<le> 0x8F
      else is_cont c)"

definition utf8_step :: "bytes \<Rightarrow> bool \<times> nat" where
  \<comment> \<open>the first character or maximal invalid subpart: whether it is valid, and its length\<close>
  "utf8_step s =
     (let b = byte_or_0 s 0; c1 = byte_or_0 s 1; c2 = byte_or_0 s 2; c3 = byte_or_0 s 3
      in if b < 0x80 then (True, 1)
         else if 0xC2 \<le> b \<and> b \<le> 0xDF then if is_cont c1 then (True, 2) else (False, 1)
         else if 0xE0 \<le> b \<and> b \<le> 0xEF then
           if \<not> utf8_second_ok b c1 then (False, 1)
           else if is_cont c2 then (True, 3) else (False, 2)
         else if 0xF0 \<le> b \<and> b \<le> 0xF4 then
           if \<not> utf8_second_ok b c1 then (False, 1)
           else if \<not> is_cont c2 then (False, 2)
           else if is_cont c3 then (True, 4) else (False, 3)
         else (False, 1))"

lemma utf8_step_pos: "utf8_step s = (ok, n) \<Longrightarrow> 0 < n"
  by (auto simp: utf8_step_def Let_def split: if_splits)

function utf8_valid :: "bytes \<Rightarrow> bool" where
  \<comment> \<open>\<open>str::from_utf8(s).is_ok()\<close>\<close>
  "utf8_valid s =
     (if s = [] then True
      else case utf8_step s of (ok, n) \<Rightarrow> if ok then utf8_valid (drop n s) else False)"
  by pat_completeness auto
termination
proof (relation "measure length", goal_cases)
  case (2 s p n)
  then show ?case using utf8_step_pos[of s p n] by simp
qed auto

function utf8_lossy :: "bytes \<Rightarrow> bytes" where
  \<comment> \<open>\<open>String::from_utf8_lossy\<close>; U+FFFD is EF BF BD\<close>
  "utf8_lossy s =
     (if s = [] then []
      else case utf8_step s of (ok, n) \<Rightarrow>
        (if ok then take n s else [0xEF, 0xBF, 0xBD]) @ utf8_lossy (drop n s))"
  by pat_completeness auto
termination
proof (relation "measure length", goal_cases)
  case (2 s p n)
  then show ?case using utf8_step_pos[of s p n] by simp
qed auto

declare utf8_valid.simps [simp del] utf8_lossy.simps [simp del]

lemma utf8_valid_Nil [simp]: "utf8_valid []"
  by (simp add: utf8_valid.simps)

lemma utf8_step_ascii: "c < 128 \<Longrightarrow> utf8_step (c # s) = (True, 1)"
  unfolding utf8_step_def Let_def by (subst if_P) simp_all

lemma utf8_valid_ascii: "\<forall>c\<in>set s. c < 128 \<Longrightarrow> utf8_valid s"
proof (induction s)
  case Nil
  show ?case by (rule utf8_valid_Nil)
next
  case (Cons c s)
  then show ?case by (subst utf8_valid.simps) (simp add: utf8_step_ascii)
qed

lemma utf8_lossy_valid: "utf8_valid s \<Longrightarrow> utf8_lossy s = s"
proof (induction s rule: utf8_lossy.induct)
  case (1 s)
  show ?case
  proof (cases "s = []")
    case True
    then show ?thesis by (simp add: utf8_lossy.simps)
  next
    case False
    obtain ok n where st: "utf8_step s = (ok, n)" by force
    with "1.prems" False have "ok" "utf8_valid (drop n s)"
      by (auto simp: utf8_valid.simps[of s] split: if_splits)
    with "1.IH"[OF False st[symmetric]] st False show ?thesis
      by (simp add: utf8_lossy.simps[of s])
  qed
qed

subsection \<open>White space\<close>

definition ws_seqs :: "bytes list" where
  \<comment> \<open>the UTF-8 encodings of the characters with the White-Space property\<close>
  "ws_seqs =
     [[9], [10], [11], [12], [13], [32], [0xC2, 0x85], [0xC2, 0xA0], [0xE1, 0x9A, 0x80],
      [0xE2, 0x80, 0x80], [0xE2, 0x80, 0x81], [0xE2, 0x80, 0x82], [0xE2, 0x80, 0x83],
      [0xE2, 0x80, 0x84], [0xE2, 0x80, 0x85], [0xE2, 0x80, 0x86], [0xE2, 0x80, 0x87],
      [0xE2, 0x80, 0x88], [0xE2, 0x80, 0x89], [0xE2, 0x80, 0x8A], [0xE2, 0x80, 0xA8],
      [0xE2, 0x80, 0xA9], [0xE2, 0x80, 0xAF], [0xE2, 0x81, 0x9F], [0xE3, 0x80, 0x80]]"

definition ws_head :: "bytes \<Rightarrow> bytes option" where
  "ws_head s = find (\<lambda>w. prefix w s) ws_seqs"

definition ws_last :: "bytes \<Rightarrow> bytes option" where
  "ws_last s = find (\<lambda>w. suffix w s) ws_seqs"

lemma ws_seqs_nonempty: "w \<in> set ws_seqs \<Longrightarrow> w \<noteq> []"
  by (auto simp: ws_seqs_def)

lemma ws_headD: "ws_head s = Some w \<Longrightarrow> prefix w s \<and> w \<noteq> []"
  by (auto simp: ws_head_def find_Some_iff dest: ws_seqs_nonempty nth_mem)

lemma ws_lastD: "ws_last s = Some w \<Longrightarrow> suffix w s \<and> w \<noteq> []"
  by (auto simp: ws_last_def find_Some_iff dest: ws_seqs_nonempty nth_mem)

function trim_start :: "bytes \<Rightarrow> bytes" where
  "trim_start s = (case ws_head s of None \<Rightarrow> s | Some w \<Rightarrow> trim_start (drop (length w) s))"
  by pat_completeness auto
termination
proof (relation "measure length", goal_cases)
  case (2 s w)
  then show ?case using ws_headD[of s w] by (cases w) (auto dest!: prefix_length_le)
qed auto

function trim_end :: "bytes \<Rightarrow> bytes" where
  "trim_end s = (case ws_last s of None \<Rightarrow> s | Some w \<Rightarrow> trim_end (take (length s - length w) s))"
  by pat_completeness auto
termination
proof (relation "measure length", goal_cases)
  case (2 s w)
  then show ?case using ws_lastD[of s w] by (cases w) (auto dest!: suffix_length_le)
qed auto

declare trim_start.simps [simp del] trim_end.simps [simp del]

definition trim :: "bytes \<Rightarrow> bytes" where
  "trim s = trim_end (trim_start s)"

lemma length_trim_start: "length (trim_start s) \<le> length s"
proof (induction s rule: trim_start.induct)
  case (1 s)
  show ?case
  proof (cases "ws_head s")
    case None
    then show ?thesis by (simp add: trim_start.simps[of s])
  next
    case (Some w)
    with 1 show ?thesis by (fastforce simp: trim_start.simps[of s])
  qed
qed

definition is_ascii_whitespace :: "u8 \<Rightarrow> bool" where
  "is_ascii_whitespace c \<longleftrightarrow> c = 32 \<or> c = 9 \<or> c = 10 \<or> c = 12 \<or> c = 13"

fun until_ws :: "bytes \<Rightarrow> bytes" where
  "until_ws [] = []"
| "until_ws (c # s) = (if ws_head (c # s) = None then c # until_ws s else [])"

lemma length_until_ws: "length (until_ws s) \<le> length s"
  by (induction s) auto

lemma ws_head_trim_start: "ws_head (trim_start s) = None"
proof (induction s rule: trim_start.induct)
  case (1 s)
  then show ?case by (cases "ws_head s") (auto simp: trim_start.simps[of s])
qed

function split_ws :: "bytes \<Rightarrow> bytes list" where
  \<comment> \<open>\<open>str::split_whitespace\<close>\<close>
  "split_ws s =
     (let t = trim_start s
      in if t = [] then [] else until_ws t # split_ws (drop (length (until_ws t)) t))"
  by pat_completeness auto
termination
proof (relation "measure length", goal_cases)
  case (2 s t)
  then obtain c r where t: "t = c # r" by (meson neq_Nil_conv)
  moreover have "ws_head t = None" using 2(1) ws_head_trim_start by simp
  ultimately have "0 < length (until_ws t)" by simp
  moreover have "length t \<le> length s" using 2(1) length_trim_start by simp
  moreover have "0 < length t" using t by simp
  ultimately have "length t - length (until_ws t) < length s" by linarith
  then show ?case by simp
qed auto

declare split_ws.simps [simp del]

subsection \<open>Splitting\<close>

fun split_on :: "'a \<Rightarrow> 'a list \<Rightarrow> 'a list list" where
  \<comment> \<open>\<open>split(c)\<close>: always at least one piece\<close>
  "split_on c [] = [[]]"
| "split_on c (x # xs) =
     (if x = c then [] # split_on c xs
      else case split_on c xs of [] \<Rightarrow> [[x]] | p # ps \<Rightarrow> (x # p) # ps)"

fun split_once :: "'a \<Rightarrow> 'a list \<Rightarrow> ('a list \<times> 'a list) option" where
  "split_once c [] = None"
| "split_once c (x # xs) =
     (if x = c then Some ([], xs)
      else map_option (\<lambda>(a, b). (x # a, b)) (split_once c xs))"

fun splitn :: "nat \<Rightarrow> 'a \<Rightarrow> 'a list \<Rightarrow> 'a list list" where
  \<comment> \<open>\<open>splitn(n, c)\<close>: at most \<open>n\<close> pieces\<close>
  "splitn 0 c s = []"
| "splitn (Suc 0) c s = [s]"
| "splitn (Suc (Suc n)) c s =
     (case split_once c s of None \<Rightarrow> [s] | Some (a, b) \<Rightarrow> a # splitn (Suc n) c b)"

lemma split_on_nonempty [simp]: "split_on c s \<noteq> []"
  by (induction s) (auto split: list.splits)

lemma split_on_free: "c \<notin> set s \<Longrightarrow> split_on c s = [s]"
  by (induction s) auto

lemma split_on_sep: "c \<notin> set a \<Longrightarrow> split_on c (a @ c # s) = a # split_on c s"
  by (induction a) auto

fun join_with :: "'a \<Rightarrow> 'a list list \<Rightarrow> 'a list" where
  \<comment> \<open>\<open>labels.join(".")\<close> for a one-character separator\<close>
  "join_with c [] = []"
| "join_with c [x] = x"
| "join_with c (x # y # ys) = x @ c # join_with c (y # ys)"

lemma join_split_on [simp]: "join_with c (split_on c s) = s"
proof (induction s)
  case Nil
  then show ?case by simp
next
  case (Cons x s)
  have "join_with c ((x # p) # ps) = x # join_with c (p # ps)" for p ps
    by (cases ps) auto
  with Cons show ?case by (cases "split_on c s") auto
qed

lemma split_on_append_sep: "split_on c (a @ c # b) = split_on c a @ split_on c b"
  by (induction a) (auto simp: append_eq_Cons_conv split: list.splits)

lemma split_on_inj: "split_on c a = split_on c b \<longleftrightarrow> a = b"
  by (metis join_split_on)

lemma join_with_append:
  "xs \<noteq> [] \<Longrightarrow> ys \<noteq> [] \<Longrightarrow> join_with c (xs @ ys) = join_with c xs @ c # join_with c ys"
proof (induction xs)
  case Nil
  then show ?case by simp
next
  case (Cons x xs)
  then show ?case by (cases xs; cases ys) auto
qed

text \<open>A host is another one or ends in a dot and the other one exactly when its labels end in
  the other's labels.\<close>

lemma suffix_labels_iff:
  "suffix (split_on c h) (split_on c s) \<longleftrightarrow> s = h \<or> suffix (c # h) s"
proof
  assume "suffix (split_on c h) (split_on c s)"
  then obtain xs where xs: "split_on c s = xs @ split_on c h" by (auto simp: suffix_def)
  show "s = h \<or> suffix (c # h) s"
  proof (cases "xs = []")
    case True
    with xs show ?thesis by (simp add: split_on_inj)
  next
    case False
    have "s = join_with c (xs @ split_on c h)" using xs join_split_on by metis
    also have "\<dots> = join_with c xs @ c # h" using False by (simp add: join_with_append)
    finally show ?thesis by (simp add: suffix_def)
  qed
next
  assume "s = h \<or> suffix (c # h) s"
  then show "suffix (split_on c h) (split_on c s)"
    by (auto simp: suffix_def split_on_append_sep)
qed

lemma split_once_SomeD: "split_once c s = Some (a, b) \<Longrightarrow> s = a @ c # b \<and> c \<notin> set a"
  by (induction s arbitrary: a) (auto split: if_splits)

lemma split_once_sep: "c \<notin> set a \<Longrightarrow> split_once c (a @ c # b) = Some (a, b)"
  by (induction a) auto

lemma split_once_None_iff: "split_once c s = None \<longleftrightarrow> c \<notin> set s"
  by (induction s) auto

subsection \<open>Numbers as text\<close>

definition digit_val :: "nat \<Rightarrow> u8 \<Rightarrow> nat option" where
  \<comment> \<open>\<open>char::to_digit(radix)\<close>\<close>
  "digit_val base c =
     (let d = (if 48 \<le> c \<and> c \<le> 57 then Some (unat c - 48)
               else if 97 \<le> c \<and> c \<le> 122 then Some (unat c - 87)
               else if 65 \<le> c \<and> c \<le> 90 then Some (unat c - 55) else None)
      in case d of None \<Rightarrow> None | Some v \<Rightarrow> if v < base then Some v else None)"

fun digits_acc :: "nat \<Rightarrow> nat \<Rightarrow> nat \<Rightarrow> bytes \<Rightarrow> nat option" where
  "digits_acc base mx acc [] = Some acc"
| "digits_acc base mx acc (c # cs) =
     (case digit_val base c of
        None \<Rightarrow> None
      | Some d \<Rightarrow> if acc * base + d > mx then None else digits_acc base mx (acc * base + d) cs)"

definition parse_radix :: "nat \<Rightarrow> nat \<Rightarrow> bytes \<Rightarrow> nat option" where
  \<comment> \<open>\<open>from_str_radix\<close> of an unsigned type with maximum \<open>mx\<close>: an optional \<open>+\<close>, then digits\<close>
  "parse_radix base mx s =
     (case s of
        [] \<Rightarrow> None
      | c # cs \<Rightarrow>
          if cs = [] \<and> (c = 43 \<or> c = 45) then None
          else if c = 43 then digits_acc base mx 0 cs
          else digits_acc base mx 0 s)"

definition digit_char :: "nat \<Rightarrow> u8" where
  "digit_char d = (if d < 10 then word_of_nat (48 + d) else word_of_nat (87 + d))"

function to_radix :: "nat \<Rightarrow> nat \<Rightarrow> bytes" where
  \<comment> \<open>\<open>format!("{}")\<close> and \<open>format!("{:x}")\<close> of an unsigned number\<close>
  "to_radix base n =
     (if base < 2 \<or> n < base then [digit_char n]
      else to_radix base (n div base) @ [digit_char (n mod base)])"
  by pat_completeness auto
termination
  by (relation "measure snd") auto

declare to_radix.simps [simp del]

definition dec_str :: "nat \<Rightarrow> bytes" where
  "dec_str n = to_radix 10 n"

definition hex_str :: "nat \<Rightarrow> bytes" where
  "hex_str n = to_radix 16 n"

lemma digit_val_digit_char:
  assumes "d < base" and "base \<le> 16"
  shows "digit_val base (digit_char d) = Some d"
proof (cases "d < 10")
  case True
  then have "unat (digit_char d) = 48 + d"
    by (simp only: digit_char_def if_True unat_word_of_nat_u8) simp
  with True assms(1) show ?thesis
    by (simp add: digit_val_def word_le_nat_alt)
next
  case False
  with assms have "unat (digit_char d) = 87 + d"
    by (simp only: digit_char_def if_False unat_word_of_nat_u8) simp
  with False assms show ?thesis
    by (simp add: digit_val_def word_le_nat_alt)
qed

lemma digits_acc_append:
  "digits_acc base mx acc (s @ t) =
     (case digits_acc base mx acc s of None \<Rightarrow> None | Some v \<Rightarrow> digits_acc base mx v t)"
  by (induction s arbitrary: acc) (auto split: option.splits)

lemma digits_acc_to_radix:
  assumes "2 \<le> base" and "base \<le> 16" and "n \<le> mx"
  shows "digits_acc base mx 0 (to_radix base n) = Some n"
  using assms(3)
proof (induction n rule: less_induct)
  case (less n)
  show ?case
  proof (cases "n < base")
    case True
    with less.prems assms(2) show ?thesis
      by (simp add: to_radix.simps digit_val_digit_char)
  next
    case False
    have "n div base < n" using False assms(1) by simp
    moreover from this have "n div base \<le> mx" using less.prems by simp
    ultimately have "digits_acc base mx 0 (to_radix base (n div base)) = Some (n div base)"
      using less.IH by blast
    moreover have "n div base * base + n mod base = n" by simp
    moreover have "n mod base < base" using assms(1) by simp
    ultimately show ?thesis using False assms less.prems
      by (simp add: to_radix.simps[of base n] digits_acc_append digit_val_digit_char)
  qed
qed

lemma to_radix_hd: "\<exists>d r. to_radix base n = digit_char d # r \<and> (2 \<le> base \<longrightarrow> d < base)"
proof (induction n rule: less_induct)
  case (less n)
  show ?case
  proof (cases "base < 2 \<or> n < base")
    case True
    then show ?thesis by (auto simp: to_radix.simps[of base n])
  next
    case False
    then have "n div base < n" by simp
    from less.IH[OF this] False show ?thesis by (auto simp: to_radix.simps[of base n])
  qed
qed

lemma digit_char_not_sign: "d < 16 \<Longrightarrow> digit_char d \<noteq> 43 \<and> digit_char d \<noteq> 45"
proof -
  assume "d < 16"
  then have "unat (digit_char d) = 48 + d \<or> unat (digit_char d) = 87 + d"
    unfolding digit_char_def by (simp only: unat_word_of_nat_u8 split: if_splits) auto
  then show ?thesis by auto
qed

lemma parse_to_radix:
  assumes "2 \<le> base" and "base \<le> 16" and "n \<le> mx"
  shows "parse_radix base mx (to_radix base n) = Some n"
proof -
  obtain d r where r: "to_radix base n = digit_char d # r" and "d < base"
    using to_radix_hd[of base n] assms(1) by auto
  then have "digit_char d \<noteq> 43 \<and> digit_char d \<noteq> 45"
    using digit_char_not_sign assms(2) by simp
  then show ?thesis
    using digits_acc_to_radix[OF assms] r by (simp add: parse_radix_def)
qed

lemma parse_dec_str: "n \<le> mx \<Longrightarrow> parse_radix 10 mx (dec_str n) = Some n"
  by (simp add: dec_str_def parse_to_radix)

lemma digits_acc_le: "digits_acc base mx acc s = Some v \<Longrightarrow> acc \<le> mx \<Longrightarrow> v \<le> mx"
  by (induction s arbitrary: acc) (auto split: option.splits if_splits)

lemma parse_radix_le: "parse_radix base mx s = Some v \<Longrightarrow> v \<le> mx"
  using digits_acc_le[of base mx 0]
  by (fastforce simp: parse_radix_def simp del: digits_acc.simps split: list.splits if_splits)

subsection \<open>Printable text\<close>

definition printable :: "bytes \<Rightarrow> bool" where
  "printable s \<longleftrightarrow> list_all (\<lambda>b. 33 \<le> b \<and> b \<le> 126) s"

lemma ws_seqs_ends: "w \<in> set ws_seqs \<Longrightarrow> \<not> (33 \<le> hd w \<and> hd w \<le> 126) \<and> \<not> (33 \<le> last w \<and> last w \<le> 126)"
  by (auto simp: ws_seqs_def)

lemma find_SomeD': "find P xs = Some x \<Longrightarrow> x \<in> set xs \<and> P x"
  by (induction xs) (auto split: if_splits)

lemma ws_head_printable: "printable s \<Longrightarrow> ws_head s = None"
proof (rule ccontr)
  assume p: "printable s" and "ws_head s \<noteq> None"
  then obtain w where "ws_head s = Some w" by auto
  then have w: "w \<in> set ws_seqs" "prefix w s" "w \<noteq> []"
    using find_SomeD'[of _ ws_seqs w] ws_headD[of s w] by (simp_all add: ws_head_def)
  then have "hd w \<in> set s" by (auto simp: prefix_def)
  with p w(1) ws_seqs_ends show False by (auto simp: printable_def list_all_iff)
qed

lemma ws_last_printable: "printable s \<Longrightarrow> ws_last s = None"
proof (rule ccontr)
  assume p: "printable s" and "ws_last s \<noteq> None"
  then obtain w where "ws_last s = Some w" by auto
  then have w: "w \<in> set ws_seqs" "suffix w s" "w \<noteq> []"
    using find_SomeD'[of _ ws_seqs w] ws_lastD[of s w] by (simp_all add: ws_last_def)
  then have "last w \<in> set s" by (auto simp: suffix_def)
  with p w(1) ws_seqs_ends show False by (auto simp: printable_def list_all_iff)
qed

lemma trim_printable: "printable s \<Longrightarrow> trim s = s"
  by (simp add: trim_def trim_start.simps[of s] trim_end.simps[of s] ws_head_printable ws_last_printable)

lemma digit_char_printable: "d < 16 \<Longrightarrow> 48 \<le> digit_char d \<and> digit_char d \<le> 102 \<and> digit_char d \<noteq> 59"
proof -
  assume d: "d < 16"
  then have "unat (digit_char d) = 48 + d \<and> d < 10 \<or> unat (digit_char d) = 87 + d \<and> 10 \<le> d"
    unfolding digit_char_def by (simp only: unat_word_of_nat_u8 split: if_splits) auto
  with d show ?thesis by (auto simp: word_le_nat_alt word_unat_eq_iff)
qed

lemma to_radix_chars:
  "2 \<le> base \<Longrightarrow> base \<le> 16 \<Longrightarrow> list_all (\<lambda>b. 48 \<le> b \<and> b \<le> 102 \<and> b \<noteq> 59) (to_radix base n)"
proof (induction n rule: less_induct)
  case (less n)
  have "n mod base < 16" "n < base \<Longrightarrow> n < 16"
    using less.prems by (auto intro: less_le_trans[OF pos_mod_bound] less_le_trans[OF mod_less_divisor])
  with less show ?case
    by (subst to_radix.simps) (auto simp: digit_char_printable)
qed

lemma to_radix_printable: "2 \<le> base \<Longrightarrow> base \<le> 16 \<Longrightarrow> printable (to_radix base n)"
  using to_radix_chars[of base n] by (auto simp: printable_def list_all_iff word_le_nat_alt)

lemma printable_ascii: "printable s \<Longrightarrow> utf8_valid s"
  by (rule utf8_valid_ascii) (auto simp: printable_def list_all_iff word_le_nat_alt word_less_nat_alt)

end
