(* ===== verification/Net_Types.thy ===== *)
theory Net_Types
  imports Adw_Prelude "HOL-Library.AList"
begin

section \<open>Addresses and hash maps\<close>

text \<open>
  The address types of \<open>std::net\<close> as the sources use them, and the model of \<open>HashMap\<close>: an
  association list with distinct keys, read by \<open>map_of\<close> and written by \<open>AList.update\<close> and
  \<open>AList.delete\<close>. The iteration order of a \<open>HashMap\<close> is unspecified; where the code iterates, the
  properties hold for any order of the list.
\<close>

datatype ip_addr = V4 u8 u8 u8 u8 | V6 bytes

fun wf_ip :: "ip_addr \<Rightarrow> bool" where
  \<comment> \<open>an \<open>Ipv6Addr\<close> has sixteen octets\<close>
  "wf_ip (V4 a b c d) = True"
| "wf_ip (V6 os) = (length os = 16)"

fun octets :: "ip_addr \<Rightarrow> bytes" where
  "octets (V4 a b c d) = [a, b, c, d]"
| "octets (V6 os) = os"

fun is_ipv4 :: "ip_addr \<Rightarrow> bool" where
  "is_ipv4 (V4 a b c d) = True"
| "is_ipv4 (V6 os) = False"

definition is_unspecified :: "ip_addr \<Rightarrow> bool" where
  "is_unspecified ip \<longleftrightarrow> (\<forall>b\<in>set (octets ip). b = 0)"

datatype sock_addr = SockAddr (sa_ip: ip_addr) (sa_port: u16)

definition wf_sock :: "sock_addr \<Rightarrow> bool" where
  "wf_sock a \<longleftrightarrow> wf_ip (sa_ip a)"

type_synonym ('k, 'v) hash_map = "('k \<times> 'v) list"

definition hm_inv :: "('k, 'v) hash_map \<Rightarrow> bool" where
  "hm_inv m \<longleftrightarrow> distinct (map fst m)"

lemma hm_inv_Nil [simp]: "hm_inv []"
  by (simp add: hm_inv_def)

lemma hm_inv_update [simp]: "hm_inv m \<Longrightarrow> hm_inv (AList.update k v m)"
  by (simp add: hm_inv_def distinct_update)

lemma hm_inv_delete [simp]: "hm_inv m \<Longrightarrow> hm_inv (AList.delete k m)"
  by (simp add: hm_inv_def distinct_delete)

lemma hm_inv_filter [simp]: "hm_inv m \<Longrightarrow> hm_inv (filter P m)"
  by (simp add: hm_inv_def distinct_map_filter)

lemma map_of_update [simp]: "map_of (AList.update k v m) = (map_of m)(k \<mapsto> v)"
  by (simp add: update_conv')

lemma map_of_delete [simp]: "map_of (AList.delete k m) = (map_of m)(k := None)"
  by (simp add: delete_conv')

lemma length_delete_le: "length (AList.delete k m) \<le> length m"
  by (simp add: AList.delete_eq)

lemma length_update:
  "length (AList.update k v m) = (if k \<in> fst ` set m then length m else Suc (length m))"
  by (induction m) auto

lemma length_delete:
  "hm_inv m \<Longrightarrow> k \<in> fst ` set m \<Longrightarrow> Suc (length (AList.delete k m)) = length m"
proof (induction m)
  case Nil
  then show ?case by simp
next
  case (Cons p m)
  show ?case
  proof (cases "fst p = k")
    case True
    with Cons.prems have "k \<notin> fst ` set m" by (auto simp: hm_inv_def)
    then have "AList.delete k m = m" by (simp add: delete_idem)
    with True show ?thesis by (cases p) simp
  next
    case False
    with Cons show ?thesis by (cases p) (auto simp: hm_inv_def)
  qed
qed

end
