(* ===== verification/Flow_Table.thy ===== *)
theory Flow_Table
  imports Net_Types "HOL-Library.Multiset"
begin

section \<open>The LRU flow table\<close>

text \<open>
  \<open>rust/netstack/src/flow_table.rs\<close>: a capacity-bounded map keyed by the connection 5-tuple, with
  a logical clock; the datapath caches firewall verdicts in it. The clock \<open>tick\<close> is a \<open>u64\<close> bumped
  once per lookup or insertion and a \<open>nat\<close> here. The locale \<open>lru_cache\<close> is what the datapath relies
  on: the table behaves as a list in order of last use.
\<close>

record flow_key =
  fk_proto :: u8
  fk_src :: ip_addr
  fk_src_port :: u16
  fk_dst :: ip_addr
  fk_dst_port :: u16

definition flow_key_new :: "u8 \<Rightarrow> ip_addr \<Rightarrow> u16 \<Rightarrow> ip_addr \<Rightarrow> u16 \<Rightarrow> flow_key" where
  "flow_key_new proto src src_port dst dst_port =
     \<lparr>fk_proto = proto, fk_src = src, fk_src_port = src_port, fk_dst = dst, fk_dst_port = dst_port\<rparr>"

record 'v ft_entry =
  ft_value :: 'v
  ft_last_used :: nat

record ('k, 'v) flow_table =
  ft_map :: "('k, 'v ft_entry) hash_map"
  ft_capacity :: nat
  ft_tick :: nat

definition ft_new :: "nat \<Rightarrow> ('k, 'v) flow_table" where
  "ft_new capacity = \<lparr>ft_map = [], ft_capacity = max capacity 1, ft_tick = 0\<rparr>"

definition ft_len :: "('k, 'v) flow_table \<Rightarrow> nat" where
  "ft_len t = length (ft_map t)"

definition ft_is_empty :: "('k, 'v) flow_table \<Rightarrow> bool" where
  "ft_is_empty t = (ft_map t = [])"

definition next_tick :: "('k, 'v) flow_table \<Rightarrow> nat \<times> ('k, 'v) flow_table" where
  "next_tick t = (let t' = t\<lparr>ft_tick := ft_tick t + 1\<rparr> in (ft_tick t', t'))"

definition ft_get :: "'k \<Rightarrow> ('k, 'v) flow_table \<Rightarrow> 'v option \<times> ('k, 'v) flow_table" where
  "ft_get key t =
     (let (now, t') = next_tick t
      in case map_of (ft_map t') key of
           None \<Rightarrow> (None, t')
         | Some e \<Rightarrow>
             (Some (ft_value e),
              t'\<lparr>ft_map := AList.update key (e\<lparr>ft_last_used := now\<rparr>) (ft_map t')\<rparr>))"

definition ft_contains :: "'k \<Rightarrow> ('k, 'v) flow_table \<Rightarrow> bool" where
  "ft_contains key t = (map_of (ft_map t) key \<noteq> None)"

fun min_by_key :: "('a \<Rightarrow> nat) \<Rightarrow> 'a list \<Rightarrow> 'a option" where
  \<comment> \<open>\<open>Iterator::min_by_key\<close>: the first element with the least key\<close>
  "min_by_key f [] = None"
| "min_by_key f (x # xs) =
     (case min_by_key f xs of None \<Rightarrow> Some x | Some y \<Rightarrow> if f y < f x then Some y else Some x)"

definition evict_lru :: "('k, 'v) flow_table \<Rightarrow> ('k, 'v) flow_table" where
  "evict_lru t =
     (case min_by_key (\<lambda>(_, e). ft_last_used e) (ft_map t) of
        None \<Rightarrow> t
      | Some (key, _) \<Rightarrow> t\<lparr>ft_map := AList.delete key (ft_map t)\<rparr>)"

definition ft_insert :: "'k \<Rightarrow> 'v \<Rightarrow> ('k, 'v) flow_table \<Rightarrow> ('k, 'v) flow_table" where
  "ft_insert key v t =
     (let (now, t1) = next_tick t;
          t2 = (if \<not> ft_contains key t1 \<and> ft_len t1 \<ge> ft_capacity t1 then evict_lru t1 else t1)
      in t2\<lparr>ft_map := AList.update key \<lparr>ft_value = v, ft_last_used = now\<rparr> (ft_map t2)\<rparr>)"

definition ft_remove :: "'k \<Rightarrow> ('k, 'v) flow_table \<Rightarrow> 'v option \<times> ('k, 'v) flow_table" where
  "ft_remove key t =
     (map_option ft_value (map_of (ft_map t) key), t\<lparr>ft_map := AList.delete key (ft_map t)\<rparr>)"

definition ft_retain ::
  "('k \<Rightarrow> 'v \<Rightarrow> bool) \<Rightarrow> ('k, 'v) flow_table \<Rightarrow> ('k, 'v) flow_table" where
  "ft_retain keep t = t\<lparr>ft_map := filter (\<lambda>(k, e). keep k (ft_value e)) (ft_map t)\<rparr>"

subsection \<open>The reference: a list in order of last use\<close>

definition lru_touch :: "'k \<Rightarrow> ('k \<times> 'v) list \<Rightarrow> ('k \<times> 'v) list" where
  "lru_touch k l =
     (case map_of l k of None \<Rightarrow> l | Some v \<Rightarrow> filter (\<lambda>(k', _). k' \<noteq> k) l @ [(k, v)])"

definition lru_store :: "nat \<Rightarrow> 'k \<Rightarrow> 'v \<Rightarrow> ('k \<times> 'v) list \<Rightarrow> ('k \<times> 'v) list" where
  "lru_store cap k v l =
     (let l' = (if map_of l k = None \<and> cap \<le> length l then tl l else l)
      in filter (\<lambda>(k', _). k' \<noteq> k) l' @ [(k, v)])"

locale lru_cache =
  fixes lookup :: "'k \<Rightarrow> 'c \<Rightarrow> 'v option \<times> 'c"
    and store :: "'k \<Rightarrow> 'v \<Rightarrow> 'c \<Rightarrow> 'c"
    and erase :: "'k \<Rightarrow> 'c \<Rightarrow> 'v option \<times> 'c"
    and view :: "'c \<Rightarrow> ('k \<times> 'v) list"
    and cap :: "'c \<Rightarrow> nat"
    and invar :: "'c \<Rightarrow> bool"
  assumes cap_pos: "invar c \<Longrightarrow> 0 < cap c"
    and view_distinct: "invar c \<Longrightarrow> distinct (map fst (view c))"
    and view_bound: "invar c \<Longrightarrow> length (view c) \<le> cap c"
    and lookup_result: "invar c \<Longrightarrow> fst (lookup k c) = map_of (view c) k"
    and lookup_view: "invar c \<Longrightarrow> view (snd (lookup k c)) = lru_touch k (view c)"
    and store_view: "invar c \<Longrightarrow> view (store k v c) = lru_store (cap c) k v (view c)"
    and erase_result: "invar c \<Longrightarrow> fst (erase k c) = map_of (view c) k"
    and erase_view: "invar c \<Longrightarrow> view (snd (erase k c)) = filter (\<lambda>(k', _). k' \<noteq> k) (view c)"
    and lookup_invar: "invar c \<Longrightarrow> invar (snd (lookup k c)) \<and> cap (snd (lookup k c)) = cap c"
    and store_invar: "invar c \<Longrightarrow> invar (store k v c) \<and> cap (store k v c) = cap c"
    and erase_invar: "invar c \<Longrightarrow> invar (snd (erase k c)) \<and> cap (snd (erase k c)) = cap c"
begin

lemma map_of_filter_key:
  "map_of (filter (\<lambda>(k', _). k' \<noteq> k) l) = (map_of l)(k := None)"
  by (induction l) (auto simp: fun_eq_iff)

lemma map_of_touch: "distinct (map fst l) \<Longrightarrow> map_of (lru_touch k l) = map_of l"
  by (auto simp: lru_touch_def map_of_filter_key map_add_def fun_eq_iff split: option.splits)

lemma lookup_keeps: "invar c \<Longrightarrow> map_of (view (snd (lookup k c))) = map_of (view c)"
  by (simp add: lookup_view map_of_touch view_distinct)

lemma store_lookup_same: "invar c \<Longrightarrow> fst (lookup k (store k v c)) = Some v"
  by (simp add: lookup_result store_invar store_view lru_store_def Let_def map_of_filter_key
      map_add_def)

lemma map_of_tl_distinct:
  "distinct (map fst l) \<Longrightarrow> map_of (tl l) k' = Some w \<Longrightarrow> map_of l k' = Some w"
  by (cases l) (auto dest: map_of_SomeD simp: rev_image_eqI)

text \<open>Another key's answer is its old one, or it has been evicted: never a wrong one.\<close>

lemma store_lookup_other:
  assumes "invar c" and "k' \<noteq> k" and "fst (lookup k' (store k v c)) = Some w"
  shows "fst (lookup k' c) = Some w"
proof -
  have "map_of (lru_store (cap c) k v (view c)) k' = Some w"
    using assms by (simp add: lookup_result store_invar store_view)
  then show ?thesis
    using assms(1,2) map_of_tl_distinct[OF view_distinct]
    by (auto simp: lru_store_def Let_def map_of_filter_key map_add_def lookup_result
        split: if_splits option.splits)
qed

lemma store_survives_if_room:
  assumes "invar c" and "k' \<noteq> k" and "length (view c) < cap c"
  shows "fst (lookup k' (store k v c)) = fst (lookup k' c)"
  using assms
  by (simp add: lookup_result store_invar store_view lru_store_def Let_def map_of_filter_key
      map_add_def split: option.splits)

text \<open>A property of all cached pairs survives every operation that stores pairs with it.\<close>

definition all_cached :: "('k \<Rightarrow> 'v \<Rightarrow> bool) \<Rightarrow> 'c \<Rightarrow> bool" where
  "all_cached P c \<longleftrightarrow> (\<forall>k v. map_of (view c) k = Some v \<longrightarrow> P k v)"

lemma all_cached_lookup: "invar c \<Longrightarrow> all_cached P c \<Longrightarrow> all_cached P (snd (lookup k c))"
  by (simp add: all_cached_def lookup_keeps)

lemma all_cached_store:
  assumes "invar c" and "all_cached P c" and "P k v"
  shows "all_cached P (store k v c)"
  unfolding all_cached_def
proof (intro allI impI)
  fix k' w
  assume "map_of (view (store k v c)) k' = Some w"
  then have w: "fst (lookup k' (store k v c)) = Some w"
    using assms(1) by (simp add: lookup_result store_invar)
  show "P k' w"
  proof (cases "k' = k")
    case True
    with w assms(1,3) show ?thesis by (simp add: store_lookup_same)
  next
    case False
    from store_lookup_other[OF assms(1) this w] have "fst (lookup k' c) = Some w" .
    with assms(1,2) show ?thesis by (simp add: all_cached_def lookup_result)
  qed
qed

lemma all_cached_hit: "invar c \<Longrightarrow> all_cached P c \<Longrightarrow> fst (lookup k c) = Some v \<Longrightarrow> P k v"
  by (simp add: all_cached_def lookup_result)

end

subsection \<open>The table refines the reference list\<close>

definition ft_stamp :: "'k \<times> 'v ft_entry \<Rightarrow> nat" where
  "ft_stamp p = ft_last_used (snd p)"

definition ft_strip :: "'k \<times> 'v ft_entry \<Rightarrow> 'k \<times> 'v" where
  "ft_strip p = (fst p, ft_value (snd p))"

definition ft_view_of :: "('k, 'v ft_entry) hash_map \<Rightarrow> ('k \<times> 'v) list" where
  "ft_view_of m = map ft_strip (sort_key ft_stamp m)"

definition ft_view :: "('k, 'v) flow_table \<Rightarrow> ('k \<times> 'v) list" where
  \<comment> \<open>the entries, least recently used first\<close>
  "ft_view t = ft_view_of (ft_map t)"

definition ft_inv :: "('k, 'v) flow_table \<Rightarrow> bool" where
  "ft_inv t \<longleftrightarrow> hm_inv (ft_map t) \<and> length (ft_map t) \<le> ft_capacity t \<and> 0 < ft_capacity t
     \<and> (\<forall>p\<in>set (ft_map t). ft_stamp p \<le> ft_tick t) \<and> distinct (map ft_stamp (ft_map t))"

lemma ft_view_map [simp]:
  "ft_view (t\<lparr>ft_map := m\<rparr>) = ft_view_of m" "ft_view (t\<lparr>ft_tick := n\<rparr>) = ft_view t"
  by (simp_all add: ft_view_def)

lemma fst_ft_strip [simp]: "fst (ft_strip p) = fst p"
  by (simp add: ft_strip_def)

lemma filter_map_strip:
  "filter (\<lambda>(k', _). k' \<noteq> k) (map ft_strip xs) = map ft_strip (filter (\<lambda>p. fst p \<noteq> k) xs)"
  by (simp add: filter_map o_def case_prod_unfold)

lemma delete_filter: "AList.delete k m = filter (\<lambda>p. fst p \<noteq> k) m"
  by (auto simp: AList.delete_eq case_prod_unfold intro: filter_cong)

lemma mset_update:
  "hm_inv m \<Longrightarrow> mset (AList.update k v m) = add_mset (k, v) (mset (AList.delete k m))"
proof (induction m)
  case Nil
  then show ?case by simp
next
  case (Cons p m)
  show ?case
  proof (cases "fst p = k")
    case True
    with Cons.prems have "k \<notin> fst ` set m" by (auto simp: hm_inv_def)
    with True show ?thesis by (cases p) (simp add: delete_idem)
  next
    case False
    with Cons show ?thesis by (cases p) (auto simp: hm_inv_def)
  qed
qed

lemma sort_key_snoc:
  assumes "\<forall>p\<in>set xs. f p < f x" and "distinct (map f xs)" and "mset ys = add_mset x (mset xs)"
  shows "sort_key f ys = sort_key f xs @ [x]"
proof (rule sort_key_inj_key_eq)
  show "mset ys = mset (sort_key f xs @ [x])" using assms(3) by simp
  have "set ys = insert x (set xs)" using assms(3) by (metis set_mset_mset set_mset_add_mset_insert)
  then show "inj_on f (set ys)"
    using assms(1,2) by (auto simp: distinct_map inj_on_def)
  show "sorted (map f (sort_key f xs @ [x]))"
    using assms(1) by (auto simp: sorted_append less_imp_le)
qed

lemma map_of_sort_key: "distinct (map fst xs) \<Longrightarrow> map_of (sort_key f xs) = map_of xs"
  by (rule map_of_inject_set[THEN iffD2]) (auto simp: distinct_map)

lemma map_of_map_strip: "map_of (map ft_strip xs) k = map_option ft_value (map_of xs k)"
  by (induction xs) (auto simp: ft_strip_def)

lemma map_of_ft_view_of: "hm_inv m \<Longrightarrow> map_of (ft_view_of m) k = map_option ft_value (map_of m k)"
  by (simp add: ft_view_of_def map_of_map_strip map_of_sort_key hm_inv_def)

lemma map_of_ft_view: "ft_inv t \<Longrightarrow> map_of (ft_view t) k = map_option ft_value (map_of (ft_map t) k)"
  by (simp add: ft_view_def map_of_ft_view_of ft_inv_def)

text \<open>Writing an entry with a fresh stamp moves its key to the end of the view.\<close>

lemma view_update:
  assumes "hm_inv m" and "\<forall>p\<in>set m. ft_stamp p < ft_last_used e" and "distinct (map ft_stamp m)"
  shows "ft_view_of (AList.update k e m)
       = filter (\<lambda>(k', _). k' \<noteq> k) (ft_view_of m) @ [(k, ft_value e)]"
proof -
  have "sort_key ft_stamp (AList.update k e m) = sort_key ft_stamp (AList.delete k m) @ [(k, e)]"
  proof (rule sort_key_snoc)
    show "\<forall>p\<in>set (AList.delete k m). ft_stamp p < ft_stamp (k, e)"
      using assms(2) by (auto simp: delete_filter ft_stamp_def)
    show "distinct (map ft_stamp (AList.delete k m))"
      using assms(3) by (simp add: delete_filter distinct_map_filter)
    show "mset (AList.update k e m) = add_mset (k, e) (mset (AList.delete k m))"
      using assms(1) by (rule mset_update)
  qed
  also have "sort_key ft_stamp (AList.delete k m) = filter (\<lambda>p. fst p \<noteq> k) (sort_key ft_stamp m)"
    by (simp add: delete_filter filter_sort)
  finally show ?thesis by (simp add: ft_view_of_def filter_map_strip ft_strip_def)
qed

lemma min_by_key_eq_sort_hd: "min_by_key f xs = (if xs = [] then None else Some (hd (sort_key f xs)))"
proof (induction xs)
  case Nil
  then show ?case by simp
next
  case (Cons x xs)
  show ?case
  proof (cases "sort_key f xs")
    case Nil
    then have "xs = []" by (metis length_0_conv length_sort)
    then show ?thesis by simp
  next
    case (Cons y ys)
    then have "xs \<noteq> []" by auto
    with Cons.IH Cons show ?thesis by auto
  qed
qed

lemma min_by_key_None_iff: "min_by_key f xs = None \<longleftrightarrow> xs = []"
  by (simp add: min_by_key_eq_sort_hd)

lemma ft_next_tick: "next_tick t = (ft_tick t + 1, t\<lparr>ft_tick := ft_tick t + 1\<rparr>)"
  by (simp add: next_tick_def)

text \<open>Eviction removes the head of the view, the least recently used entry.\<close>

lemma evict_lru_map:
  "evict_lru t = (case sort_key ft_stamp (ft_map t) of
      [] \<Rightarrow> t | p # _ \<Rightarrow> t\<lparr>ft_map := AList.delete (fst p) (ft_map t)\<rparr>)"
proof (cases "sort_key ft_stamp (ft_map t)")
  case Nil
  then have "ft_map t = []" by (metis length_0_conv length_sort)
  then show ?thesis by (simp add: evict_lru_def)
next
  case (Cons p ps)
  then have "ft_map t \<noteq> []" by auto
  moreover have "(\<lambda>(_, e). ft_last_used e) = (ft_stamp :: 'a \<times> 'b ft_entry \<Rightarrow> nat)"
    by (auto simp: ft_stamp_def fun_eq_iff)
  ultimately show ?thesis using Cons
    by (simp add: evict_lru_def min_by_key_eq_sort_hd case_prod_unfold)
qed

lemma evict_lru_view:
  assumes "ft_inv t"
  shows "ft_view (evict_lru t) = tl (ft_view t)"
proof (cases "sort_key ft_stamp (ft_map t)")
  case Nil
  then show ?thesis by (simp add: evict_lru_map ft_view_def ft_view_of_def)
next
  case (Cons p ps)
  have "distinct (map fst (sort_key ft_stamp (ft_map t)))"
    using assms by (simp add: ft_inv_def hm_inv_def distinct_map)
  then have fresh: "\<forall>q\<in>set ps. fst q \<noteq> fst p"
    unfolding Cons by (auto simp: rev_image_eqI)
  have "sort_key ft_stamp (AList.delete (fst p) (ft_map t)) = filter (\<lambda>q. fst q \<noteq> fst p) (p # ps)"
    using Cons by (simp add: delete_filter filter_sort[symmetric])
  also have "\<dots> = ps" using fresh by (simp add: filter_id_conv)
  finally show ?thesis using Cons by (simp add: evict_lru_map ft_view_def ft_view_of_def)
qed

lemma evict_lru_fields [simp]:
  "ft_capacity (evict_lru t) = ft_capacity t" "ft_tick (evict_lru t) = ft_tick t"
  by (auto simp: evict_lru_map split: list.splits)

lemma ft_inv_delete: "ft_inv t \<Longrightarrow> ft_inv (t\<lparr>ft_map := AList.delete k (ft_map t)\<rparr>)"
  by (auto simp: ft_inv_def delete_filter distinct_map_filter
      intro: order_trans[OF length_filter_le])

lemma ft_inv_evict: "ft_inv t \<Longrightarrow> ft_inv (evict_lru t)"
  by (auto simp: evict_lru_map ft_inv_delete split: list.splits)

lemma length_view [simp]: "length (ft_view t) = length (ft_map t)"
  by (simp add: ft_view_def ft_view_of_def)

lemma evict_lru_len: "ft_inv t \<Longrightarrow> length (ft_map (evict_lru t)) = length (ft_map t) - 1"
  using evict_lru_view[of t] length_view[of "evict_lru t"] length_view[of t] by simp

text \<open>Writing a key with a new, largest stamp.\<close>

lemma ft_inv_update:
  assumes "ft_inv t" and "ft_tick t < now"
    and "k \<in> fst ` set (ft_map t) \<or> length (ft_map t) < ft_capacity t"
  shows "ft_inv (t\<lparr>ft_map := AList.update k \<lparr>ft_value = v, ft_last_used = now\<rparr> (ft_map t), ft_tick := now\<rparr>)"
proof -
  let ?e = "\<lparr>ft_value = v, ft_last_used = now\<rparr>" and ?m = "ft_map t"
  have ms: "mset (AList.update k ?e ?m) = add_mset (k, ?e) (mset (AList.delete k ?m))"
    using assms(1) by (intro mset_update) (simp add: ft_inv_def)
  have old: "\<forall>p\<in>set ?m. ft_stamp p < now"
    using assms(1,2) by (auto simp: ft_inv_def)
  have st: "set (AList.update k ?e ?m) = insert (k, ?e) (set (AList.delete k ?m))"
    using ms by (metis set_mset_mset set_mset_add_mset_insert)
  have "mset (map ft_stamp (AList.update k ?e ?m))
      = mset (now # map ft_stamp (AList.delete k ?m))"
    by (simp add: ms ft_stamp_def)
  moreover have "distinct (now # map ft_stamp (AList.delete k ?m))"
    using assms(1) old by (auto simp: ft_inv_def delete_filter distinct_map_filter)
  ultimately have "distinct (map ft_stamp (AList.update k ?e ?m))"
    by (metis mset_eq_imp_distinct_iff)
  moreover have "length (AList.update k ?e ?m) \<le> ft_capacity t"
    using assms(1,3) by (auto simp: length_update ft_inv_def)
  ultimately show ?thesis
    using assms(1) old st by (auto simp: ft_inv_def ft_stamp_def delete_filter less_imp_le)
qed

lemma key_in_map: "k \<in> fst ` set m \<longleftrightarrow> map_of m k \<noteq> None"
  by (simp add: map_of_eq_None_iff)

lemma entry_eta: "(e :: 'v ft_entry)\<lparr>ft_last_used := n\<rparr> = \<lparr>ft_value = ft_value e, ft_last_used = n\<rparr>"
  by simp

lemma ft_get_simps:
  "map_of (ft_map t) k = None \<Longrightarrow> ft_get k t = (None, t\<lparr>ft_tick := ft_tick t + 1\<rparr>)"
  "map_of (ft_map t) k = Some e \<Longrightarrow> ft_get k t =
     (Some (ft_value e),
      t\<lparr>ft_map := AList.update k \<lparr>ft_value = ft_value e, ft_last_used = ft_tick t + 1\<rparr> (ft_map t),
        ft_tick := ft_tick t + 1\<rparr>)"
  by (simp_all add: ft_get_def ft_next_tick entry_eta)

lemma ft_get_view: "ft_inv t \<Longrightarrow> ft_view (snd (ft_get k t)) = lru_touch k (ft_view t)"
proof (cases "map_of (ft_map t) k")
  case None
  moreover assume "ft_inv t"
  ultimately show ?thesis by (simp add: ft_get_simps lru_touch_def map_of_ft_view)
next
  case (Some e)
  moreover assume inv: "ft_inv t"
  moreover have "\<forall>p\<in>set (ft_map t). ft_stamp p < ft_tick t + 1"
    using inv by (auto simp: ft_inv_def)
  ultimately show ?thesis
    by (simp add: ft_get_simps lru_touch_def map_of_ft_view_of view_update ft_inv_def
        ft_view_def)
qed

lemma ft_inv_tick: "ft_inv t \<Longrightarrow> ft_inv (t\<lparr>ft_tick := ft_tick t + 1\<rparr>)"
  by (auto simp: ft_inv_def)

lemma ft_get_inv: "ft_inv t \<Longrightarrow> ft_inv (snd (ft_get k t)) \<and> ft_capacity (snd (ft_get k t)) = ft_capacity t"
proof (cases "map_of (ft_map t) k")
  case None
  moreover assume "ft_inv t"
  ultimately show ?thesis by (simp add: ft_get_simps ft_inv_tick[simplified])
next
  case (Some e)
  moreover assume "ft_inv t"
  moreover have "k \<in> fst ` set (ft_map t)" using Some by (simp add: key_in_map)
  ultimately show ?thesis
    using ft_inv_update[of t "ft_tick t + 1" k "ft_value e"] by (simp add: ft_get_simps)
qed

lemma ft_insert_eq:
  "ft_insert k v t =
     (let u = (if map_of (ft_map t) k = None \<and> ft_capacity t \<le> length (ft_map t)
               then evict_lru t else t)
      in u\<lparr>ft_map := AList.update k \<lparr>ft_value = v, ft_last_used = ft_tick t + 1\<rparr> (ft_map u),
           ft_tick := ft_tick t + 1\<rparr>)"
  by (simp add: ft_insert_def ft_next_tick ft_contains_def ft_len_def Let_def evict_lru_map
      split: list.splits)

lemma ft_insert_view:
  assumes "ft_inv t"
  shows "ft_view (ft_insert k v t) = lru_store (ft_capacity t) k v (ft_view t)"
proof -
  define u where "u = (if map_of (ft_map t) k = None \<and> ft_capacity t \<le> length (ft_map t)
                       then evict_lru t else t)"
  have u: "ft_inv u" "ft_tick u = ft_tick t"
    using assms by (auto simp: u_def ft_inv_evict)
  then have "\<forall>p\<in>set (ft_map u). ft_stamp p < ft_tick t + 1" by (auto simp: ft_inv_def)
  moreover have "ft_view u = (if map_of (ft_view t) k = None \<and> ft_capacity t \<le> length (ft_view t)
                              then tl (ft_view t) else ft_view t)"
    using assms by (simp add: u_def evict_lru_view map_of_ft_view)
  moreover have "ft_insert k v t =
      u\<lparr>ft_map := AList.update k \<lparr>ft_value = v, ft_last_used = ft_tick t + 1\<rparr> (ft_map u),
        ft_tick := ft_tick t + 1\<rparr>"
    by (simp add: ft_insert_eq u_def Let_def)
  ultimately show ?thesis using u
    by (simp add: view_update ft_inv_def lru_store_def ft_view_def)
qed

lemma ft_insert_inv:
  assumes "ft_inv t"
  shows "ft_inv (ft_insert k v t) \<and> ft_capacity (ft_insert k v t) = ft_capacity t"
proof -
  define u where "u = (if map_of (ft_map t) k = None \<and> ft_capacity t \<le> length (ft_map t)
                       then evict_lru t else t)"
  have u: "ft_inv u" "ft_tick u = ft_tick t" "ft_capacity u = ft_capacity t"
    using assms by (auto simp: u_def ft_inv_evict)
  have room: "k \<in> fst ` set (ft_map u) \<or> length (ft_map u) < ft_capacity u"
  proof (cases "map_of (ft_map t) k = None \<and> ft_capacity t \<le> length (ft_map t)")
    case True
    then have "length (ft_map u) < ft_capacity t"
      using assms evict_lru_len[OF assms] by (auto simp: u_def ft_inv_def)
    with u(3) show ?thesis by simp
  next
    case False
    then have "u = t" by (simp only: u_def if_False)
    with False show ?thesis by (auto simp: key_in_map simp del: not_None_eq)
  qed
  have "ft_insert k v t =
      u\<lparr>ft_map := AList.update k \<lparr>ft_value = v, ft_last_used = ft_tick t + 1\<rparr> (ft_map u),
        ft_tick := ft_tick t + 1\<rparr>"
    by (simp add: ft_insert_eq u_def Let_def)
  with ft_inv_update[OF u(1) _ room, of "ft_tick t + 1" v] u show ?thesis by simp
qed

lemma ft_remove_view: "ft_view (snd (ft_remove k t)) = filter (\<lambda>(k', _). k' \<noteq> k) (ft_view t)"
  by (simp add: ft_remove_def ft_view_def ft_view_of_def filter_map_strip delete_filter filter_sort)

lemma ft_retain_view: "ft_view (ft_retain keep t) = filter (\<lambda>(k, v). keep k v) (ft_view t)"
  by (simp add: ft_retain_def ft_view_def ft_view_of_def filter_map o_def ft_strip_def case_prod_unfold filter_sort)

lemma ft_inv_new: "ft_inv (ft_new c)"
  by (simp add: ft_inv_def ft_new_def)

interpretation ftab: lru_cache ft_get ft_insert ft_remove ft_view ft_capacity ft_inv
proof unfold_locales
  fix c :: "('k, 'v) flow_table" and k :: 'k and v :: 'v
  assume inv: "ft_inv c"
  show "0 < ft_capacity c" using inv by (simp add: ft_inv_def)
  show "distinct (map fst (ft_view c))"
    using inv by (simp add: ft_view_def ft_view_of_def ft_inv_def hm_inv_def o_def distinct_map)
  show "length (ft_view c) \<le> ft_capacity c" using inv by (simp add: ft_inv_def)
  show "fst (ft_get k c) = map_of (ft_view c) k"
    using inv by (cases "map_of (ft_map c) k") (auto simp: ft_get_simps map_of_ft_view)
  show "ft_view (snd (ft_get k c)) = lru_touch k (ft_view c)" using inv by (rule ft_get_view)
  show "ft_view (ft_insert k v c) = lru_store (ft_capacity c) k v (ft_view c)"
    using inv by (rule ft_insert_view)
  show "fst (ft_remove k c) = map_of (ft_view c) k"
    using inv by (simp add: ft_remove_def map_of_ft_view)
  show "ft_view (snd (ft_remove k c)) = filter (\<lambda>(k', _). k' \<noteq> k) (ft_view c)"
    by (rule ft_remove_view)
  show "ft_inv (snd (ft_get k c)) \<and> ft_capacity (snd (ft_get k c)) = ft_capacity c"
    using inv by (rule ft_get_inv)
  show "ft_inv (ft_insert k v c) \<and> ft_capacity (ft_insert k v c) = ft_capacity c"
    using inv by (rule ft_insert_inv)
  show "ft_inv (snd (ft_remove k c)) \<and> ft_capacity (snd (ft_remove k c)) = ft_capacity c"
    using inv by (simp add: ft_remove_def ft_inv_delete)
qed

subsection \<open>Runs of operations\<close>

datatype ('k, 'v) ft_op = Ft_get 'k | Ft_insert 'k 'v | Ft_remove 'k

fun ft_run :: "('k, 'v) ft_op list \<Rightarrow> ('k, 'v) flow_table \<Rightarrow> 'v option list \<times> ('k, 'v) flow_table"
where
  "ft_run [] t = ([], t)"
| "ft_run (Ft_get k # ops) t =
     (let (r, t1) = ft_get k t; (rs, t2) = ft_run ops t1 in (r # rs, t2))"
| "ft_run (Ft_insert k v # ops) t = ft_run ops (ft_insert k v t)"
| "ft_run (Ft_remove k # ops) t =
     (let (r, t1) = ft_remove k t; (rs, t2) = ft_run ops t1 in (r # rs, t2))"

fun lru_run :: "nat \<Rightarrow> ('k, 'v) ft_op list \<Rightarrow> ('k \<times> 'v) list \<Rightarrow> 'v option list \<times> ('k \<times> 'v) list"
where
  "lru_run cap [] l = ([], l)"
| "lru_run cap (Ft_get k # ops) l =
     (let (rs, l') = lru_run cap ops (lru_touch k l) in (map_of l k # rs, l'))"
| "lru_run cap (Ft_insert k v # ops) l = lru_run cap ops (lru_store cap k v l)"
| "lru_run cap (Ft_remove k # ops) l =
     (let (rs, l') = lru_run cap ops (filter (\<lambda>(k', _). k' \<noteq> k) l) in (map_of l k # rs, l'))"

lemma ft_run_refines:
  "ft_inv t \<Longrightarrow>
     (let (rs, t') = ft_run ops t
      in lru_run (ft_capacity t) ops (ft_view t) = (rs, ft_view t')
         \<and> ft_inv t' \<and> ft_capacity t' = ft_capacity t)"
proof (induction ops arbitrary: t)
  case Nil
  then show ?case by simp
next
  case (Cons a ops)
  show ?case
  proof (cases a)
    case (Ft_get k)
    then show ?thesis
      using Cons.IH[of "snd (ft_get k t)"] ftab.lookup_result[OF Cons.prems, of k]
        ftab.lookup_view[OF Cons.prems, of k] ftab.lookup_invar[OF Cons.prems, of k]
      by (auto simp: case_prod_unfold Let_def prod_eq_iff)
  next
    case (Ft_insert k v)
    then show ?thesis
      using Cons.IH[of "ft_insert k v t"] ftab.store_view[OF Cons.prems, of k v]
        ftab.store_invar[OF Cons.prems, of k v]
      by (auto simp: case_prod_unfold Let_def)
  next
    case (Ft_remove k)
    then show ?thesis
      using Cons.IH[of "snd (ft_remove k t)"] ftab.erase_result[OF Cons.prems, of k]
        ftab.erase_view[OF Cons.prems, of k] ftab.erase_invar[OF Cons.prems, of k]
      by (auto simp: case_prod_unfold Let_def prod_eq_iff)
  qed
qed

lemma ft_view_new [simp]: "ft_view (ft_new c) = []" "ft_capacity (ft_new c) = max c 1"
  by (simp_all add: ft_new_def ft_view_def ft_view_of_def)

text \<open>C16: the flow table is an LRU cache. Whatever lookups, insertions and removals run on a new
  table, every answer and the surviving entries, in order of last use, are those of the reference
  list of the most recent \<open>max capacity 1\<close> distinct keys, and that bound on the entries holds.\<close>

theorem flow_table_is_lru:
  "lru_run (max c 1) ops [] = (fst (ft_run ops (ft_new c)), ft_view (snd (ft_run ops (ft_new c))))
   \<and> ft_len (snd (ft_run ops (ft_new c))) \<le> max c 1"
  using ft_run_refines[OF ft_inv_new, of ops c]
  by (auto simp: case_prod_unfold Let_def ft_len_def ft_inv_def)

definition lw_step :: "'k \<Rightarrow> 'v option \<Rightarrow> ('k, 'v) ft_op \<Rightarrow> 'v option" where
  "lw_step k r a =
     (case a of Ft_get _ \<Rightarrow> r | Ft_insert k' v \<Rightarrow> if k' = k then Some v else r
      | Ft_remove k' \<Rightarrow> if k' = k then None else r)"

definition last_write :: "('k, 'v) ft_op list \<Rightarrow> 'k \<Rightarrow> 'v option" where
  \<comment> \<open>what the operations last wrote for a key\<close>
  "last_write ops k = foldl (lw_step k) None ops"

lemma ft_run_step:
  assumes "ft_inv t" and "map_of (ft_view (snd (ft_run [a] t))) k = Some v"
    and "map_of (ft_view t) k = Some v \<longrightarrow> r = Some v"
  shows "lw_step k r a = Some v"
proof (cases a)
  case (Ft_get k')
  with assms show ?thesis
    by (simp add: lw_step_def case_prod_unfold Let_def ftab.lookup_keeps)
next
  case (Ft_insert k' v')
  have hit: "fst (ft_get k (ft_insert k' v' t)) = Some v"
    using assms(1,2) Ft_insert by (simp add: ftab.lookup_result ftab.store_invar)
  show ?thesis
  proof (cases "k' = k")
    case True
    with hit ftab.store_lookup_same[OF assms(1), of k v'] Ft_insert show ?thesis
      by (simp add: lw_step_def)
  next
    case False
    then have "map_of (ft_view t) k = Some v"
      using ftab.store_lookup_other[OF assms(1) _ hit] assms(1)
      by (simp add: ftab.lookup_result)
    with assms(3) Ft_insert False show ?thesis by (simp add: lw_step_def)
  qed
next
  case (Ft_remove k')
  have "map_of (ft_view (snd (ft_remove k' t))) k = Some v"
    using assms(2) Ft_remove by (simp add: case_prod_unfold Let_def)
  then have "((map_of (ft_view t))(k' := None)) k = Some v"
    by (simp only: ft_remove_view ftab.map_of_filter_key)
  with assms(3) Ft_remove show ?thesis
    by (auto simp: lw_step_def split: if_splits)
qed

lemma ft_run_snoc: "snd (ft_run (ops @ [a]) t) = snd (ft_run [a] (snd (ft_run ops t)))"
proof (induction ops arbitrary: t)
  case Nil
  then show ?case by simp
next
  case (Cons o' ops)
  then show ?case by (cases o') (simp_all add: case_prod_unfold Let_def)
qed

lemma ft_run_inv: "ft_inv t \<Longrightarrow> ft_inv (snd (ft_run ops t))"
  using ft_run_refines[of t ops] by (auto simp: case_prod_unfold Let_def)

lemma ft_run_last_write:
  "map_of (ft_view (snd (ft_run ops (ft_new c)))) k = Some v \<Longrightarrow> last_write ops k = Some v"
proof (induction ops arbitrary: v rule: rev_induct)
  case Nil
  then show ?case by simp
next
  case (snoc a ops)
  show ?case
    using ft_run_step[OF ft_run_inv[OF ft_inv_new], of a ops c k v "last_write ops k"] snoc
    by (simp add: ft_run_snoc last_write_def)
qed

text \<open>The table never answers with a stale or foreign value. A hit on a table reached from a
  new one by any operations is exactly what those operations last wrote for that key: an eviction
  can forget a verdict, and no operation can confuse two flows' verdicts or revive a removed one.\<close>

theorem flow_table_hit_is_last_write:
  assumes "fst (ft_get k (snd (ft_run ops (ft_new c)))) = Some v"
  shows "last_write ops k = Some v"
proof -
  have "map_of (ft_view (snd (ft_run ops (ft_new c)))) k = Some v"
    using assms by (simp add: ftab.lookup_result ft_run_inv ft_inv_new)
  then show ?thesis by (rule ft_run_last_write)
qed

lemma flow_table_hit_is_last_write_witness:
  "last_write [Ft_insert (1::nat) True, Ft_insert 2 False, Ft_insert 1 False] 1 = Some False"
  by (rule flow_table_hit_is_last_write[where c = 2]) code_simp

end
