(* ===== verification/Packet.thy ===== *)
theory Packet
  imports Net_Types Rust_Text
begin

unbundle bit_operations_syntax

section \<open>Best-effort IP header decoding\<close>

text \<open>
  \<open>rust/netstack/src/packet.rs\<close>: the leading IPv4/IPv6 header and ports of a packet read off the
  TUN device. The outer \<open>option\<close> of \<open>decode\<close> is a panic (an index or slice out of range), the
  inner one is the code's \<open>None\<close>.
\<close>

definition PROTO_ICMP :: u8 where "PROTO_ICMP = 1"
definition PROTO_TCP :: u8 where "PROTO_TCP = 6"
definition PROTO_UDP :: u8 where "PROTO_UDP = 17"
definition PROTO_ICMPV6 :: u8 where "PROTO_ICMPV6 = 58"

datatype L4 = L4_Tcp | L4_Udp | L4_Icmp | L4_Other

definition L4_of :: "u8 \<Rightarrow> L4" where
  "L4_of proto =
     (if proto = PROTO_TCP then L4_Tcp
      else if proto = PROTO_UDP then L4_Udp
      else if proto = PROTO_ICMP \<or> proto = PROTO_ICMPV6 then L4_Icmp
      else L4_Other)"

record decoded =
  d_ip_version :: u8
  d_proto :: L4
  d_src :: ip_addr
  d_dst :: ip_addr
  d_src_port :: u16
  d_dst_port :: u16
  d_length :: u32

definition u16be :: "bytes \<Rightarrow> nat \<Rightarrow> u16 option" where
  "u16be b i = do { hi \<leftarrow> index b i; lo \<leftarrow> index b (i + 1); Some (be16w hi lo) }"

definition ports :: "bytes \<Rightarrow> nat \<Rightarrow> L4 \<Rightarrow> (u16 \<times> u16) option" where
  "ports buf l4_off proto =
     (if (proto = L4_Tcp \<or> proto = L4_Udp) \<and> length buf \<ge> l4_off + 4
      then do { sp \<leftarrow> u16be buf l4_off; dp \<leftarrow> u16be buf (l4_off + 2); Some (sp, dp) }
      else Some (0, 0))"

definition clamp_len :: "u32 \<Rightarrow> nat \<Rightarrow> u32" where
  "clamp_len reported actual =
     (if reported \<ge> 1 \<and> unat reported \<le> actual then reported else word_of_nat actual)"

definition decode_v4 :: "bytes \<Rightarrow> decoded option option" where
  "decode_v4 buf = do {
     b0 \<leftarrow> index buf 0;
     let ihl = unat (b0 AND 0x0F) * 4;
     if ihl < 20 \<or> ihl > length buf then Some None
     else do {
       total_len \<leftarrow> u16be buf 2;
       p \<leftarrow> index buf 9;
       let proto = L4_of p;
       s0 \<leftarrow> index buf 12; s1 \<leftarrow> index buf 13; s2 \<leftarrow> index buf 14; s3 \<leftarrow> index buf 15;
       d0 \<leftarrow> index buf 16; d1 \<leftarrow> index buf 17; d2 \<leftarrow> index buf 18; d3 \<leftarrow> index buf 19;
       (sp, dp) \<leftarrow> ports buf ihl proto;
       Some (Some \<lparr>d_ip_version = 4, d_proto = proto, d_src = V4 s0 s1 s2 s3, d_dst = V4 d0 d1 d2 d3,
         d_src_port = sp, d_dst_port = dp,
         d_length = clamp_len (ucast total_len) (length buf)\<rparr>)
     }
   }"

definition v6 :: "bytes \<Rightarrow> nat \<Rightarrow> ip_addr option" where
  "v6 buf i = map_option V6 (slice buf i (i + 16))"

definition decode_v6 :: "bytes \<Rightarrow> decoded option option" where
  "decode_v6 buf =
     (if length buf < 40 then Some None
      else do {
        payload_len \<leftarrow> u16be buf 4;
        p \<leftarrow> index buf 6;
        let proto = L4_of p;
        src \<leftarrow> v6 buf 8;
        dst \<leftarrow> v6 buf 24;
        (sp, dp) \<leftarrow> ports buf 40 proto;
        Some (Some \<lparr>d_ip_version = 6, d_proto = proto, d_src = src, d_dst = dst,
          d_src_port = sp, d_dst_port = dp,
          d_length = clamp_len (40 + ucast payload_len) (length buf)\<rparr>)
      })"

definition decode :: "bytes \<Rightarrow> decoded option option" where
  "decode buf =
     (if length buf < 20 then Some None
      else do {
        b0 \<leftarrow> index buf 0;
        if drop_bit 4 b0 = 4 then decode_v4 buf
        else if drop_bit 4 b0 = 6 then decode_v6 buf
        else Some None
      })"

subsection \<open>Totality and soundness\<close>

lemma u16be_Some [simp]: "i + 1 < length b \<Longrightarrow> u16be b i = Some (be16w (b ! i) (b ! (i + 1)))"
  by (simp add: u16be_def)

lemma ports_total: "\<exists>p. ports buf off proto = Some p"
  by (auto simp: ports_def)

lemma ports_other: "ports buf off proto = Some (sp, dp) \<Longrightarrow> proto \<noteq> L4_Tcp \<Longrightarrow> proto \<noteq> L4_Udp
  \<Longrightarrow> sp = 0 \<and> dp = 0"
  by (simp add: ports_def)

lemma unat_word_of_nat_le: "unat (word_of_nat n :: u32) \<le> n"
  unfolding unat_word_of_nat by (rule mod_less_eq_dividend)

lemma clamp_len_le: "unat (clamp_len r n) \<le> n"
  by (simp add: clamp_len_def unat_word_of_nat_le)

lemma clamp_len_pos: "0 < n \<Longrightarrow> n < 2 ^ 32 \<Longrightarrow> 0 < unat (clamp_len r n)"
  unfolding clamp_len_def by (auto simp: unat_word_of_nat word_le_nat_alt simp flip: word_unat_eq_iff)

definition decoded_ok :: "bytes \<Rightarrow> decoded \<Rightarrow> bool" where
  \<comment> \<open>what the datapath relies on in a decoded packet\<close>
  "decoded_ok buf d \<longleftrightarrow>
     wf_ip (d_src d) \<and> wf_ip (d_dst d)
     \<and> is_ipv4 (d_src d) = (d_ip_version d = 4) \<and> is_ipv4 (d_dst d) = (d_ip_version d = 4)
     \<and> (d_ip_version d = 4 \<or> d_ip_version d = 6)
     \<and> d_ip_version d = drop_bit 4 (hd buf)
     \<and> unat (d_length d) \<le> length buf
     \<and> ((d_proto d \<noteq> L4_Tcp \<and> d_proto d \<noteq> L4_Udp) \<longrightarrow> d_src_port d = 0 \<and> d_dst_port d = 0)"

lemma decode_v4_cases:
  assumes "20 \<le> length buf"
  shows "\<exists>r. decode_v4 buf = Some r \<and>
    (\<forall>d. r = Some d \<longrightarrow> decoded_ok buf (d\<lparr>d_ip_version := drop_bit 4 (hd buf)\<rparr>) \<or> drop_bit 4 (hd buf) \<noteq> 4)
    \<and> (\<forall>d. r = Some d \<longrightarrow> d_ip_version d = 4)"
proof -
  obtain sp dp where p: "ports buf (unat (buf ! 0 AND 0x0F) * 4) (L4_of (buf ! 9)) = Some (sp, dp)"
    using ports_total by (metis surj_pair)
  have "L4_of (buf ! 9) \<noteq> L4_Tcp \<Longrightarrow> L4_of (buf ! 9) \<noteq> L4_Udp \<Longrightarrow> sp = 0 \<and> dp = 0"
    using ports_other[OF p] by simp
  moreover have "buf \<noteq> []" using assms by auto
  ultimately show ?thesis using assms p
    by (auto simp: decode_v4_def Let_def decoded_ok_def clamp_len_le)
qed

lemma decode_v6_cases:
  "\<exists>r. decode_v6 buf = Some r \<and>
    (\<forall>d. r = Some d \<longrightarrow> decoded_ok buf (d\<lparr>d_ip_version := drop_bit 4 (hd buf)\<rparr>) \<or> drop_bit 4 (hd buf) \<noteq> 6)
    \<and> (\<forall>d. r = Some d \<longrightarrow> d_ip_version d = 6)"
proof (cases "length buf < 40")
  case True
  then show ?thesis by (simp add: decode_v6_def)
next
  case False
  obtain sp dp where p: "ports buf 40 (L4_of (buf ! 6)) = Some (sp, dp)"
    using ports_total by (metis surj_pair)
  have "L4_of (buf ! 6) \<noteq> L4_Tcp \<Longrightarrow> L4_of (buf ! 6) \<noteq> L4_Udp \<Longrightarrow> sp = 0 \<and> dp = 0"
    using ports_other[OF p] by simp
  with False p show ?thesis
    by (auto simp: decode_v6_def Let_def decoded_ok_def clamp_len_le v6_def)
qed

lemma decode_sound:
  "case decode buf of None \<Rightarrow> False | Some None \<Rightarrow> True | Some (Some d) \<Rightarrow> decoded_ok buf d"
proof (cases "20 \<le> length buf")
  case False
  then show ?thesis by (simp add: decode_def)
next
  case True
  then have b0: "index buf 0 = Some (hd buf)" by (cases buf) auto
  have upd: "d\<lparr>d_ip_version := n\<rparr> = d" if "d_ip_version d = n" for d n
    using that by simp
  from decode_v4_cases[OF True] decode_v6_cases[of buf] True b0 show ?thesis
    by (auto simp: decode_def upd split: option.splits)
qed

lemma decode_never_panics: "\<exists>r. decode buf = Some r"
  using decode_sound[of buf] by (cases "decode buf") auto

text \<open>C24: decoding is total and sound on every byte sequence. No buffer, however short, long or
  malformed, makes it panic, and a decoded packet has the version of its first nibble, addresses of
  that family, ports only for TCP and UDP, and a length within the buffer.\<close>

theorem decode_total_sound:
  "case decode buf of None \<Rightarrow> False | Some None \<Rightarrow> True | Some (Some d) \<Rightarrow> decoded_ok buf d"
  by (rule decode_sound)

end
