(* ===== verification/Dns.thy ===== *)
theory Dns
  imports Net_Types Rust_Text
begin

unbundle bit_operations_syntax

section \<open>DNS wire handling of the sinkhole\<close>

text \<open>
  \<open>rust/dns/src/lib.rs\<close>: parsing the header and first question of a query, building the answers
  that block a domain, and recognising well-known encrypted-DNS resolvers. The outer \<open>option\<close> is
  a panic (slices and indices out of range), the inner one the code's own \<open>None\<close>.
\<close>

definition TYPE_A :: u16 where "TYPE_A = 1"
definition TYPE_AAAA :: u16 where "TYPE_AAAA = 28"
definition CLASS_IN :: u16 where "CLASS_IN = 1"

subsection \<open>Known resolvers\<close>

definition DOH_HOSTS :: "bytes list" where
  "DOH_HOSTS = map asc
     [''dns.google'', ''dns.google.com'', ''cloudflare-dns.com'', ''mozilla.cloudflare-dns.com'',
      ''one.one.one.one'', ''dns.quad9.net'', ''doh.opendns.com'', ''dns.adguard.com'',
      ''dns.adguard-dns.com'', ''chrome.cloudflare-dns.com'', ''doh.cleanbrowsing.org'',
      ''dns.nextdns.io'', ''doh.mullvad.net'', ''dns10.quad9.net'', ''dns11.quad9.net'',
      ''dns.controld.com'', ''freedns.controld.com'']"

fun trim_end_char :: "u8 \<Rightarrow> bytes \<Rightarrow> bytes" where
  \<comment> \<open>\<open>trim_end_matches(c)\<close>\<close>
  "trim_end_char c s = rev (dropWhile (\<lambda>x. x = c) (rev s))"

definition is_doh_host :: "bytes \<Rightarrow> bool" where
  "is_doh_host sni =
     (let s = to_lower (trim_end_char 46 sni)
      in list_ex (\<lambda>h. s = h \<or> suffix (46 # h) s) DOH_HOSTS)"

definition ip6 :: "u16 \<Rightarrow> u16 \<Rightarrow> u16 \<Rightarrow> u16 \<Rightarrow> u16 \<Rightarrow> u16 \<Rightarrow> u16 \<Rightarrow> u16 \<Rightarrow> ip_addr" where
  "ip6 a b c d e f g h = V6 (be16 a @ be16 b @ be16 c @ be16 d @ be16 e @ be16 f @ be16 g @ be16 h)"

definition KNOWN_DOH_IPS :: "ip_addr list" where
  "KNOWN_DOH_IPS =
     [V4 1 1 1 1, V4 1 0 0 1, V4 8 8 8 8, V4 8 8 4 4, V4 9 9 9 9, V4 149 112 112 112,
      V4 94 140 14 14, V4 94 140 15 15, V4 208 67 222 222, V4 208 67 220 220,
      ip6 0x2606 0x4700 0x4700 0 0 0 0 0x1111, ip6 0x2606 0x4700 0x4700 0 0 0 0 0x1001,
      ip6 0x2001 0x4860 0x4860 0 0 0 0 0x8888, ip6 0x2001 0x4860 0x4860 0 0 0 0 0x8844,
      ip6 0x2620 0xfe 0 0 0 0 0 0xfe, ip6 0x2620 0xfe 0 0 0 0 0 0x9]"

definition is_known_doh_ip :: "ip_addr \<Rightarrow> bool" where
  "is_known_doh_ip ip = (ip \<in> set KNOWN_DOH_IPS)"

subsection \<open>Queries\<close>

record question =
  q_id :: u16
  q_name :: bytes
  q_qtype :: u16
  q_qclass :: u16
  q_end :: nat

definition dns_u16be :: "bytes \<Rightarrow> nat \<Rightarrow> u16 option" where
  \<comment> \<open>total: a short read is the code's \<open>None\<close>\<close>
  "dns_u16be b i = (if i + 2 \<le> length b then Some (be16w (b ! i) (b ! (i + 1))) else None)"

function decode_name_loop ::
  "bytes \<Rightarrow> bytes list \<Rightarrow> nat \<Rightarrow> nat option \<Rightarrow> nat \<Rightarrow> (bytes \<times> nat) option option" where
  "decode_name_loop buf labels pos end_after jumps =
     (if pos \<ge> length buf then Some None
      else do {
        len \<leftarrow> index buf pos;
        if len AND 0xC0 = 0 then
          if len = 0 then
            Some (Some (join_with 46 labels, case end_after of None \<Rightarrow> pos + 1 | Some e \<Rightarrow> e))
          else
            let s = pos + 1; e = s + unat len
            in if e > length buf then Some None
               else do {
                 label \<leftarrow> slice buf s e;
                 if utf8_valid label
                 then decode_name_loop buf (labels @ [to_lower label]) e end_after jumps
                 else Some None
               }
        else if len AND 0xC0 = 0xC0 then
          let end_after' = (case end_after of None \<Rightarrow> Some (pos + 2) | Some e \<Rightarrow> Some e)
          in if pos + 1 < length buf
             then let ptr = be16n (len AND 0x3F) (buf ! (pos + 1))
                  in if jumps + 1 > 16 \<or> ptr \<ge> length buf then Some None
                     else decode_name_loop buf labels ptr end_after' (jumps + 1)
             else Some None
        else Some None
      })"
  by pat_completeness auto
termination
  by (relation "measures [\<lambda>(buf, _, _, _, jumps). 16 - jumps, \<lambda>(buf, _, pos, _, _). length buf - pos]")
    (auto simp: index_def)

declare decode_name_loop.simps [simp del]

definition decode_name :: "bytes \<Rightarrow> nat \<Rightarrow> (bytes \<times> nat) option option" where
  "decode_name buf start = decode_name_loop buf [] start None 0"

definition parse_query :: "bytes \<Rightarrow> question option option" where
  "parse_query buf =
     (if length buf < 12 then Some None
      else case (dns_u16be buf 0, dns_u16be buf 2, dns_u16be buf 4) of
        (Some qid, Some flags, Some qdcount) \<Rightarrow>
          if flags AND 0x8000 \<noteq> 0 \<or> drop_bit 11 flags AND 0x0F \<noteq> 0 \<or> qdcount = 0 then Some None
          else do {
            r \<leftarrow> decode_name buf 12;
            case r of
              None \<Rightarrow> Some None
            | Some (name, nxt) \<Rightarrow>
                (case (dns_u16be buf nxt, dns_u16be buf (nxt + 2)) of
                   (Some qtype, Some qclass) \<Rightarrow>
                     Some (Some \<lparr>q_id = qid, q_name = name, q_qtype = qtype, q_qclass = qclass,
                                 q_end = nxt + 4\<rparr>)
                 | _ \<Rightarrow> Some None)
          }
      | _ \<Rightarrow> Some None)"

subsection \<open>Answers\<close>

definition build_response :: "bytes \<Rightarrow> question \<Rightarrow> u16 \<Rightarrow> bytes \<Rightarrow> u16 \<Rightarrow> bytes option" where
  "build_response query q rcode answers ancount = do {
     out \<leftarrow> slice query 0 (q_end q);
     let rd = (case dns_u16be query 2 of None \<Rightarrow> 0 | Some w \<Rightarrow> w) AND 0x0100;
     let flags = 0x8000 OR rd OR 0x0080 OR (rcode AND 0x000F);
     out \<leftarrow> store_at out 2 (ucast (drop_bit 8 flags));
     out \<leftarrow> store_at out 3 (ucast (flags AND 0xFF));
     out \<leftarrow> store_at out 6 (ucast (drop_bit 8 ancount));
     out \<leftarrow> store_at out 7 (ucast (ancount AND 0xFF));
     out \<leftarrow> store_at out 8 0;
     out \<leftarrow> store_at out 9 0;
     out \<leftarrow> store_at out 10 0;
     out \<leftarrow> store_at out 11 0;
     Some (out @ answers)
   }"

definition synthesize_nxdomain :: "bytes \<Rightarrow> question \<Rightarrow> bytes option" where
  "synthesize_nxdomain query q = build_response query q 3 [] 0"

definition synthesize_sinkhole :: "bytes \<Rightarrow> question \<Rightarrow> bytes option" where
  "synthesize_sinkhole query q =
     (let (rdata, ok) =
        (if q_qtype q = TYPE_A then ([0, 0, 0, 0], True)
         else if q_qtype q = TYPE_AAAA then (replicate 16 0, True)
         else ([], False))
      in if \<not> ok then build_response query q 0 [] 0
         else
           let ans = [0xC0, 0x0C] @ be16 (q_qtype q) @ be16 CLASS_IN @ be32 60
                     @ be16 (word_of_nat (length rdata)) @ rdata
           in build_response query q 0 ans 1)"

subsection \<open>Hosts\<close>

text \<open>A host counts as a known resolver exactly when its labels, without trailing dots and
  case-folded, end in the labels of a listed host: whole labels decide, so no look-alike such as
  \<open>evil-dns.google\<close> matches and every subdomain does.\<close>

theorem is_doh_host_by_labels:
  "is_doh_host sni =
     list_ex (\<lambda>h. suffix (split_on 46 h) (split_on 46 (to_lower (trim_end_char 46 sni)))) DOH_HOSTS"
  by (simp add: is_doh_host_def suffix_labels_iff Let_def)

subsection \<open>Queries never panic\<close>

lemma decode_name_loop_total:
  "\<exists>r. decode_name_loop buf labels pos ea jumps = Some r
     \<and> (\<forall>name e. r = Some (name, e) \<longrightarrow> (case ea of None \<Rightarrow> pos < e | Some e' \<Rightarrow> e = e'))"
proof (induction buf labels pos ea jumps rule: decode_name_loop.induct)
  case (1 buf labels pos ea jumps)
  let ?g = "decode_name_loop buf labels pos ea jumps"
  show ?case
  proof (cases "pos < length buf")
    case False
    then show ?thesis by (simp add: decode_name_loop.simps[of buf labels pos])
  next
    case inb: True
    define len where "len = buf ! pos"
    have unfold: "?g = (
        if len AND 0xC0 = 0 then
          if len = 0 then
            Some (Some (join_with 46 labels, case ea of None \<Rightarrow> pos + 1 | Some e \<Rightarrow> e))
          else if pos + 1 + unat len > length buf then Some None
          else let label = take (unat len) (drop (pos + 1) buf) in
               if utf8_valid label
               then decode_name_loop buf (labels @ [to_lower label]) (pos + 1 + unat len) ea jumps
               else Some None
        else if len AND 0xC0 = 0xC0 then
          if pos + 1 < length buf then
            if jumps + 1 > 16 \<or> be16n (len AND 0x3F) (buf ! (pos + 1)) \<ge> length buf then Some None
            else decode_name_loop buf labels (be16n (len AND 0x3F) (buf ! (pos + 1)))
                   (case ea of None \<Rightarrow> Some (pos + 2) | Some e \<Rightarrow> Some e) (jumps + 1)
          else Some None
        else Some None)"
      using inb by (subst decode_name_loop.simps) (simp add: len_def Let_def)
    have ix: "index buf pos = Some len" using inb by (simp add: len_def)
    show ?thesis
    proof (cases "len AND 0xC0 = 0 \<and> len \<noteq> 0 \<and> pos + 1 + unat len \<le> length buf
                  \<and> utf8_valid (take (unat len) (drop (pos + 1) buf))")
      case True
      then have g: "?g = decode_name_loop buf
          (labels @ [to_lower (take (unat len) (drop (pos + 1) buf))]) (pos + 1 + unat len) ea jumps"
        using unfold by (simp add: Let_def)
      from "1.IH"(1)[of len "pos + 1" "pos + 1 + unat len" "take (unat len) (drop (pos + 1) buf)"]
        True inb ix show ?thesis unfolding g by (fastforce split: option.splits)
    next
      case nolabel: False
      show ?thesis
      proof (cases "len AND 0xC0 = 0xC0 \<and> pos + 1 < length buf \<and> \<not> (jumps + 1 > 16 \<or>
                  be16n (len AND 0x3F) (buf ! (pos + 1)) \<ge> length buf)")
        case True
        then have g: "?g = decode_name_loop buf labels (be16n (len AND 0x3F) (buf ! (pos + 1)))
                   (case ea of None \<Rightarrow> Some (pos + 2) | Some e \<Rightarrow> Some e) (jumps + 1)"
          unfolding unfold by simp
        from "1.IH"(2)[of len] True inb ix show ?thesis unfolding g
          by (fastforce split: option.splits)
      next
        case False
        with nolabel show ?thesis unfolding unfold Let_def by (auto split: option.splits)
      qed
    qed
  qed
qed

lemma decode_name_total:
  "\<exists>r. decode_name buf start = Some r \<and> (\<forall>name e. r = Some (name, e) \<longrightarrow> start < e)"
  using decode_name_loop_total[of buf "[]" start None 0] by (simp add: decode_name_def)

lemma parse_query_cases:
  "\<exists>r. parse_query buf = Some r \<and>
     (\<forall>q. r = Some q \<longrightarrow> 17 \<le> q_end q \<and> q_end q \<le> length buf \<and> 12 \<le> length buf
        \<and> q_id q = be16w (buf ! 0) (buf ! 1)
        \<and> q_qtype q = be16w (buf ! (q_end q - 4)) (buf ! (q_end q - 3))
        \<and> q_qclass q = be16w (buf ! (q_end q - 2)) (buf ! (q_end q - 1))
        \<and> be16w (buf ! 2) (buf ! 3) AND 0x8000 = 0)"
proof -
  obtain r where r: "decode_name buf 12 = Some r" "\<And>n e. r = Some (n, e) \<Longrightarrow> 12 < e"
    using decode_name_total by metis
  show ?thesis
  proof (cases r)
    case None
    then show ?thesis using r(1) by (auto simp: parse_query_def split: option.splits)
  next
    case (Some p)
    obtain n e where p: "p = (n, e)" by (cases p)
    with Some r(2) have "12 < e" by simp
    then show ?thesis using r(1) Some p
      by (auto simp: parse_query_def dns_u16be_def numeral_eq_Suc split: option.splits)
  qed
qed

lemma parse_query_never_panics: "\<exists>r. parse_query buf = Some r"
  using parse_query_cases by blast


text \<open>C23: parsing a query is total: no packet makes it panic or loop (compression pointers
  included), and an accepted question lies inside the buffer, carries the header's id and the type
  and class that end it, and comes from a packet that is a query.\<close>

theorem parse_query_total_sound:
  "case parse_query buf of None \<Rightarrow> False | Some None \<Rightarrow> True
   | Some (Some q) \<Rightarrow> 17 \<le> q_end q \<and> q_end q \<le> length buf
        \<and> q_id q = be16w (buf ! 0) (buf ! 1)
        \<and> q_qtype q = be16w (buf ! (q_end q - 4)) (buf ! (q_end q - 3))
        \<and> q_qclass q = be16w (buf ! (q_end q - 2)) (buf ! (q_end q - 1))
        \<and> be16w (buf ! 2) (buf ! 3) AND 0x8000 = 0"
  using parse_query_cases[of buf] by (auto split: option.splits)

subsection \<open>The answers\<close>

definition response_flags :: "u16 \<Rightarrow> u16 \<Rightarrow> u16" where
  "response_flags w rcode = 0x8000 OR (w AND 0x0100) OR 0x0080 OR (rcode AND 0x000F)"

lemma response_flags_bits:
  "response_flags w r AND 0x8000 = 0x8000" "response_flags w r AND 0x0100 = w AND 0x0100"
  "response_flags w r AND 0x0080 = 0x0080" "response_flags w r AND 0x000F = r AND 0x000F"
  "response_flags w r AND 0x7E70 = 0"
  by (simp_all add: response_flags_def bit.conj_disj_distrib2 and.assoc)

text \<open>Header and question of a query of at least the header's size, with its flags, counts
  and answers replaced.\<close>

definition response_of :: "bytes \<Rightarrow> nat \<Rightarrow> u16 \<Rightarrow> u16 \<Rightarrow> bytes \<Rightarrow> bytes" where
  "response_of query n rcode ancount answers =
     take 2 query @ be16 (response_flags (be16w (query ! 2) (query ! 3)) rcode)
     @ take 2 (drop 4 query) @ be16 ancount @ [0, 0, 0, 0] @ take (n - 12) (drop 12 query) @ answers"

lemma list_12_split:
  assumes "12 \<le> length xs"
  obtains a0 a1 a2 a3 a4 a5 a6 a7 a8 a9 a10 a11 ys
  where "xs = a0 # a1 # a2 # a3 # a4 # a5 # a6 # a7 # a8 # a9 # a10 # a11 # ys"
  using assms by (auto simp: numeral_eq_Suc Suc_le_length_iff)

lemma build_response_eq:
  assumes "12 \<le> n" and "n \<le> length query" and "q_end q = n"
  shows "build_response query q rcode answers ancount = Some (response_of query n rcode ancount answers)"
proof -
  have "12 \<le> length query" using assms by simp
  then obtain a0 a1 a2 a3 a4 a5 a6 a7 a8 a9 a10 a11 ys where
    q: "query = a0 # a1 # a2 # a3 # a4 # a5 # a6 # a7 # a8 # a9 # a10 # a11 # ys"
    by (rule list_12_split)
  obtain m where n: "n = 12 + m" using assms(1) by (metis le_add_diff_inverse)
  define F where "F = response_flags (be16w a2 a3) rcode"
  have F: "0x8000 OR be16w a2 a3 AND 0x0100 OR 0x0080 OR rcode AND 0x000F = F"
    by (simp add: F_def response_flags_def)
  have e: "be16 F = [ucast (drop_bit 8 F), ucast (F AND 0xFF)]"
    "be16 ancount = [ucast (drop_bit 8 ancount), ucast (ancount AND 0xFF)]"
    by (simp_all only: be16_shift)
  have t: "take (12 + m) query = a0 # a1 # a2 # a3 # a4 # a5 # a6 # a7 # a8 # a9 # a10 # a11 # take m ys"
    by (simp add: q numeral_eq_Suc)
  have "slice query 0 (q_end q) =
      Some (a0 # a1 # a2 # a3 # a4 # a5 # a6 # a7 # a8 # a9 # a10 # a11 # take m ys)"
    using assms(2,3) by (simp add: slice_def n t)
  moreover have "dns_u16be query 2 = Some (be16w a2 a3)"
    by (simp add: q dns_u16be_def)
  ultimately show ?thesis
    by (simp only: build_response_def response_of_def Let_def F bind.bind_lunit option.case
        assms(3)) (simp add: q n e store_at_def flip: F_def)
qed

definition answers_query :: "bytes \<Rightarrow> question \<Rightarrow> u16 \<Rightarrow> u16 \<Rightarrow> bytes \<Rightarrow> bytes \<Rightarrow> bool" where
  "answers_query query q rcode ancount answers resp \<longleftrightarrow>
     resp = response_of query (q_end q) rcode ancount answers
     \<and> length resp = q_end q + length answers
     \<and> take 2 resp = be16 (q_id q)
     \<and> take (q_end q - 12) (drop 12 resp) = take (q_end q - 12) (drop 12 query)
     \<and> (\<exists>flags. dns_u16be resp 2 = Some flags \<and> flags AND 0x8000 = 0x8000
          \<and> flags AND 0x000F = rcode AND 0x000F
          \<and> flags AND 0x0100 = be16w (query ! 2) (query ! 3) AND 0x0100)
     \<and> dns_u16be resp 6 = Some ancount
     \<and> drop (q_end q) resp = answers
     \<and> parse_query resp = Some None"

lemma be16w_of_be16: "be16 w = [a, b] \<Longrightarrow> be16w a b = w"
  using be16w_be16[of w] by (simp add: be16_def)

lemma build_response_answers:
  assumes "parse_query query = Some (Some q)"
  shows "\<exists>resp. build_response query q rcode answers ancount = Some resp
           \<and> answers_query query q rcode ancount answers resp"
proof -
  from assms parse_query_cases[of query] have
    q: "17 \<le> q_end q" "q_end q \<le> length query" "q_id q = be16w (query ! 0) (query ! 1)" by auto
  let ?r = "response_of query (q_end q) rcode ancount answers"
  have "12 \<le> length query" using q by simp
  then obtain a0 a1 a2 a3 a4 a5 a6 a7 a8 a9 a10 a11 ys where
    qq: "query = a0 # a1 # a2 # a3 # a4 # a5 # a6 # a7 # a8 # a9 # a10 # a11 # ys"
    by (rule list_12_split)
  obtain m where n: "q_end q = 12 + m" using q(1) by (metis le_add_diff_inverse le_trans numeral_le_iff semiring_norm)
  have m: "m \<le> length ys" using q(2) unfolding qq n by simp
  obtain f0 f1 where f: "be16 (response_flags (be16w a2 a3) rcode) = [f0, f1]" by (simp add: be16_def)
  obtain c0 c1 where c: "be16 ancount = [c0, c1]" by (simp add: be16_def)
  note fw = be16w_of_be16[OF f] and cw = be16w_of_be16[OF c]
  have r: "?r = a0 # a1 # f0 # f1 # a4 # a5 # c0 # c1 # 0 # 0 # 0 # 0 # take m ys @ answers"
    unfolding response_of_def qq n by (simp add: f c)
  have "dns_u16be ?r 2 = Some (response_flags (be16w a2 a3) rcode)" "dns_u16be ?r 6 = Some ancount"
    unfolding r by (simp_all add: dns_u16be_def fw cw)
  moreover from this have "parse_query ?r = Some None"
    by (auto simp: parse_query_def response_flags_bits split: option.splits)
  moreover have "take 2 ?r = be16 (q_id q)"
    unfolding r q(3) by (simp add: be16_be16w qq)
  moreover have "length ?r = q_end q + length answers" "drop (q_end q) ?r = answers"
    "take (q_end q - 12) (drop 12 ?r) = take (q_end q - 12) (drop 12 query)"
    unfolding r using m by (simp_all add: qq n numeral_eq_Suc)
  ultimately have "answers_query query q rcode ancount answers ?r"
    unfolding answers_query_def by (auto simp: response_flags_bits qq)
  moreover have "build_response query q rcode answers ancount = Some ?r"
    using q by (intro build_response_eq) auto
  ultimately show ?thesis by blast
qed

definition sink_answer :: "question \<Rightarrow> bytes" where
  \<comment> \<open>the answer record of a sinkhole reply: a pointer to the question's name, type, class IN,
    a TTL of 60 s and the all-zero address\<close>
  "sink_answer q =
     (let n = (if q_qtype q = TYPE_A then 4 else if q_qtype q = TYPE_AAAA then 16 else 0)
      in if n = 0 then []
         else [0xC0, 0x0C] @ be16 (q_qtype q) @ [0, 1, 0, 0, 0, 60, 0, word_of_nat n] @ replicate n 0)"


definition example_query :: bytes where
  \<comment> \<open>id 0x1234, RD, one question: \<open>a.b\<close>, A, IN\<close>
  "example_query = [0x12, 0x34, 1, 0, 0, 1, 0, 0, 0, 0, 0, 0, 1, 97, 1, 98, 0, 0, 1, 0, 1]"

definition example_question :: question where
  "example_question = \<lparr>q_id = 0x1234, q_name = [97, 46, 98], q_qtype = 1, q_qclass = 1, q_end = 21\<rparr>"


subsection \<open>Names as the resolver library of the client encodes them\<close>

definition encode_name :: "bytes list \<Rightarrow> bytes" where
  "encode_name labels = concat (map (\<lambda>l. word_of_nat (length l) # l) labels) @ [0]"

definition wf_label :: "bytes \<Rightarrow> bool" where
  "wf_label l \<longleftrightarrow> l \<noteq> [] \<and> length l < 64 \<and> utf8_valid l"

lemma label_len_bits:
  assumes "0 < n" "n < 64"
  shows "unat (word_of_nat n :: u8) = n" "(word_of_nat n :: u8) \<noteq> 0" "(word_of_nat n :: u8) AND 0xC0 = 0"
proof -
  show u: "unat (word_of_nat n :: u8) = n"
    using assms by (simp only: unat_word_of_nat_u8) simp
  with assms show "(word_of_nat n :: u8) \<noteq> 0" by auto
  have "n < 2 ^ 6" using assms(2) by simp
  then have "take_bit 6 (word_of_nat n :: u8) = word_of_nat n"
    by (simp add: word_unat_eq_iff unsigned_take_bit_eq u take_bit_nat_eq_self)
  then have "(word_of_nat n :: u8) AND 0xC0 = take_bit 6 (word_of_nat n) AND 0xC0" by simp
  also have "\<dots> = word_of_nat n AND (mask 6 AND 0xC0)" by (simp add: take_bit_eq_mask and.assoc)
  also have "mask 6 AND 0xC0 = (0 :: u8)" by (simp add: mask_eq_exp_minus_1)
  finally show "(word_of_nat n :: u8) AND 0xC0 = 0" by simp
qed

lemma decode_name_loop_encode:
  assumes "list_all wf_label labels"
  shows "decode_name_loop (pre @ encode_name labels @ rest) ls (length pre) None j
    = Some (Some (join_with 46 (ls @ map to_lower labels), length pre + length (encode_name labels)))"
  using assms
proof (induction labels arbitrary: pre ls)
  case Nil
  then show ?case by (simp add: decode_name_loop.simps[of "pre @ 0 # rest"] encode_name_def)
next
  case (Cons l labels)
  let ?buf = "pre @ encode_name (l # labels) @ rest"
  let ?n = "word_of_nat (length l) :: u8"
  have l: "0 < length l" "length l < 64" "utf8_valid l"
    using Cons.prems by (auto simp: wf_label_def)
  have buf: "?buf = pre @ ?n # l @ encode_name labels @ rest" by (simp add: encode_name_def)
  have buf2: "?buf = (pre @ ?n # l) @ encode_name labels @ rest" by (simp add: encode_name_def)
  have "decode_name_loop ?buf ls (length pre) None j =
      decode_name_loop ?buf (ls @ [to_lower l]) (length (pre @ ?n # l)) None j"
    unfolding buf using label_len_bits[OF l(1,2)] l(3)
    by (subst decode_name_loop.simps) (simp add: Let_def)
  also have "\<dots> = Some (Some (join_with 46 ((ls @ [to_lower l]) @ map to_lower labels),
      length (pre @ ?n # l) + length (encode_name labels)))"
    unfolding buf2 using Cons.prems by (intro Cons.IH) simp
  finally show ?case by (simp add: encode_name_def)
qed

definition encode_query :: "u16 \<Rightarrow> u16 \<Rightarrow> bytes list \<Rightarrow> u16 \<Rightarrow> u16 \<Rightarrow> bytes" where
  \<comment> \<open>a query with one question, as a stub resolver sends it\<close>
  "encode_query qid flags labels qtype qclass =
     be16 qid @ be16 flags @ [0, 1, 0, 0, 0, 0, 0, 0] @ encode_name labels @ be16 qtype @ be16 qclass"

lemma dns_u16be_at:
  "length pre = i \<Longrightarrow> dns_u16be (pre @ be16 w @ post) i = Some w"
  by (simp add: dns_u16be_def be16_def nth_append be16w_be16)

text \<open>Parsing inverts encoding. A standard query for any labels of 1 to 63 bytes of UTF-8,
  encoded without compression and followed by anything (an EDNS record), parses to its id, type and
  class, the lower-cased dotted name, and the end of its question.\<close>

theorem parse_query_encode:
  assumes "list_all wf_label labels" and "flags AND 0xF800 = 0"
  shows "parse_query (encode_query qid flags labels qtype qclass @ extra)
    = Some (Some \<lparr>q_id = qid, q_name = join_with 46 (map to_lower labels), q_qtype = qtype,
                  q_qclass = qclass, q_end = 16 + length (encode_name labels)\<rparr>)"
proof -
  let ?buf = "encode_query qid flags labels qtype qclass @ extra"
  let ?h = "be16 qid @ be16 flags @ [0, 1, 0, 0, 0, 0, 0, 0]"
  have n: "decode_name ?buf 12 = Some (Some (join_with 46 (map to_lower labels), 12 + length (encode_name labels)))"
    using decode_name_loop_encode[OF assms(1), of ?h "be16 qtype @ be16 qclass @ extra" "[]" 0]
    by (simp add: decode_name_def encode_query_def)
  have u0: "dns_u16be ?buf 0 = Some qid"
    using dns_u16be_at[of "[]" 0 qid] by (simp add: encode_query_def)
  have u2: "dns_u16be ?buf 2 = Some flags"
    using dns_u16be_at[of "be16 qid" 2 flags] by (simp add: encode_query_def)
  have "be16 1 = [0, 1]" by (simp add: be16_def)
  then have u4: "dns_u16be ?buf 4 = Some 1"
    using dns_u16be_at[of "be16 qid @ be16 flags" 4 1] by (simp add: encode_query_def)
  have ut: "dns_u16be ?buf (12 + length (encode_name labels)) = Some qtype"
    using dns_u16be_at[of "?h @ encode_name labels" "12 + length (encode_name labels)" qtype "be16 qclass @ extra"]
    by (simp add: encode_query_def)
  have uc: "dns_u16be ?buf (14 + length (encode_name labels)) = Some qclass"
    using dns_u16be_at[of "?h @ encode_name labels @ be16 qtype" "14 + length (encode_name labels)" qclass extra]
    by (simp add: encode_query_def)
  have "flags AND 0x8000 = (flags AND 0xF800) AND 0x8000" by (simp add: and.assoc)
  then have f1: "flags AND 0x8000 = 0" using assms(2) by simp
  have "drop_bit 11 flags AND 0x0F = drop_bit 11 (flags AND 0xF800) AND 0x0F" by (simp add: and.assoc)
  then have f2: "drop_bit 11 flags AND 0x0F = 0" unfolding assms(2) by simp
  have "12 \<le> length ?buf" by (simp add: encode_query_def)
  then show ?thesis
    using n u0 u2 u4 ut uc f1 f2 by (simp add: parse_query_def)
qed

lemma parse_query_encode_witness:
  "parse_query (encode_query 7 0x0100 [[65, 98], [99]] 1 1 @ [0, 0]) =
     Some (Some \<lparr>q_id = 7, q_name = [97, 98, 46, 99], q_qtype = 1, q_qclass = 1, q_end = 22\<rparr>)"
proof -
  have "list_all wf_label [[65, 98], [99]]" by code_simp
  from parse_query_encode[OF this, of "0x0100" 7 1 1 "[0, 0]"] show ?thesis
    by (simp add: to_lower_def lower_u8_def encode_name_def)
qed

end
