(* ===== verification/Sni.thy ===== *)
theory Sni
  imports Rust_Text
begin

section \<open>Passive SNI extraction from a TLS ClientHello\<close>

text \<open>
  \<open>rust/tls/src/sni.rs\<close>: reads the server name off the first bytes of a flow, before the datapath
  decides whether to terminate TLS. The outer \<open>option\<close> is a panic.
\<close>

datatype sni_peek = NeedMore | Found bytes | NoSni

definition sni_u16 :: "bytes \<Rightarrow> nat \<Rightarrow> nat option" where
  "sni_u16 b i = do { hi \<leftarrow> index b i; lo \<leftarrow> index b (i + 1); Some (be16n hi lo) }"

function server_name_loop :: "bytes \<Rightarrow> nat \<Rightarrow> nat \<Rightarrow> sni_peek option" where
  "server_name_loop ext list_end pos =
     (if pos + 3 \<le> list_end then do {
        name_type \<leftarrow> index ext pos;
        let name_len = (case sni_u16 ext (pos + 1) of None \<Rightarrow> 0 | Some n \<Rightarrow> n);
        let start = pos + 3;
        let e = start + name_len;
        if e > list_end then Some NoSni
        else if name_type = 0 then do {
          s \<leftarrow> slice ext start e;
          Some (if utf8_valid s \<and> s \<noteq> [] then Found (to_lower s) else NoSni)
        }
        else server_name_loop ext list_end e
      }
      else Some NoSni)"
  by pat_completeness auto
termination
  by (relation "measure (\<lambda>(_, list_end, pos). list_end - pos)") auto

declare server_name_loop.simps [simp del]

definition parse_server_name :: "bytes \<Rightarrow> sni_peek option" where
  "parse_server_name ext =
     (case sni_u16 ext 0 of
        None \<Rightarrow> Some NoSni
      | Some list_len \<Rightarrow> server_name_loop ext (min (2 + list_len) (length ext)) 2)"

function ext_loop :: "bytes \<Rightarrow> nat \<Rightarrow> nat \<Rightarrow> sni_peek option" where
  "ext_loop hs ext_end pos =
     (if pos + 4 \<le> ext_end then
        let ext_type = (case sni_u16 hs pos of None \<Rightarrow> usize_max | Some n \<Rightarrow> n);
            ext_len = (case sni_u16 hs (pos + 2) of None \<Rightarrow> 0 | Some n \<Rightarrow> n);
            body = pos + 4;
            body_end = body + ext_len
        in if body_end > ext_end then Some NoSni
           else if ext_type = 0 then do { e \<leftarrow> slice hs body body_end; parse_server_name e }
           else ext_loop hs ext_end body_end
      else Some NoSni)"
  by pat_completeness auto
termination
  by (relation "measure (\<lambda>(_, ext_end, pos). ext_end - pos)") auto

declare ext_loop.simps [simp del]

definition parse_client_hello :: "bytes \<Rightarrow> sni_peek option" where
  "parse_client_hello hs =
     (if length hs < 4 then Some NoSni
      else do {
        t \<leftarrow> index hs 0;
        if t \<noteq> 1 then Some NoSni
        else
          let pos = 4 + (2 + 32) in
          case index hs pos of
            None \<Rightarrow> Some NoSni
          | Some sid_len \<Rightarrow>
          let pos = pos + (1 + unat sid_len) in
          case sni_u16 hs pos of
            None \<Rightarrow> Some NoSni
          | Some cs_len \<Rightarrow>
          let pos = pos + (2 + cs_len) in
          case index hs pos of
            None \<Rightarrow> Some NoSni
          | Some cm_len \<Rightarrow>
          let pos = pos + (1 + unat cm_len) in
          case sni_u16 hs pos of
            None \<Rightarrow> Some NoSni
          | Some ext_total \<Rightarrow>
          let pos = pos + 2; ext_end = pos + ext_total in
          if ext_end > length hs then Some NoSni else ext_loop hs ext_end pos
      })"

definition peek_sni :: "bytes \<Rightarrow> sni_peek option" where
  "peek_sni buf =
     (if length buf < 5 then Some NeedMore
      else do {
        b0 \<leftarrow> index buf 0;
        if b0 \<noteq> 0x16 then Some NoSni
        else case sni_u16 buf 3 of
            None \<Rightarrow> Some NeedMore
          | Some rec_len \<Rightarrow>
              let rec_end = 5 + rec_len in
              if length buf < rec_end then Some NeedMore
              else do { hs \<leftarrow> slice buf 5 rec_end; parse_client_hello hs }
      })"

subsection \<open>Totality\<close>

lemma server_name_loop_total:
  "list_end \<le> length ext \<Longrightarrow> \<exists>r. server_name_loop ext list_end pos = Some r \<and> r \<noteq> NeedMore"
proof (induction ext list_end pos rule: server_name_loop.induct)
  case (1 ext list_end pos)
  then show ?case
    by (subst server_name_loop.simps) (auto simp: Let_def slice_def index_def)
qed

lemma parse_server_name_total: "\<exists>r. parse_server_name ext = Some r \<and> r \<noteq> NeedMore"
  by (auto simp: parse_server_name_def server_name_loop_total split: option.splits)

lemma ext_loop_total:
  "ext_end \<le> length hs \<Longrightarrow> \<exists>r. ext_loop hs ext_end pos = Some r \<and> r \<noteq> NeedMore"
proof (induction hs ext_end pos rule: ext_loop.induct)
  case (1 hs ext_end pos)
  then show ?case
    by (subst ext_loop.simps) (auto simp: Let_def slice_def parse_server_name_total)
qed

lemma parse_client_hello_total: "\<exists>r. parse_client_hello hs = Some r \<and> r \<noteq> NeedMore"
proof (cases "4 \<le> length hs")
  case False
  then show ?thesis by (simp add: parse_client_hello_def)
next
  case True
  then have "hs \<noteq> []" by auto
  then show ?thesis
    by (auto simp: parse_client_hello_def Let_def ext_loop_total split: option.splits)
qed

lemma sni_u16_Some [simp]: "i + 1 < length b \<Longrightarrow> sni_u16 b i = Some (be16n (b ! i) (b ! (i + 1)))"
  by (simp add: sni_u16_def)

lemma peek_sni_record:
  assumes "5 \<le> length buf"
  shows "peek_sni buf =
    (if buf ! 0 \<noteq> 0x16 then Some NoSni
     else if length buf < 5 + be16n (buf ! 3) (buf ! 4) then Some NeedMore
     else parse_client_hello (take (be16n (buf ! 3) (buf ! 4)) (drop 5 buf)))"
proof -
  have "buf \<noteq> []" using assms by auto
  with assms show ?thesis by (simp add: peek_sni_def Let_def)
qed

text \<open>C35: peeking is total, waits for a bounded number of bytes, and its verdict is final. No byte
  sequence makes it panic or loop; with a full TLS record it never asks for more; and once it has
  decided, more bytes of the flow never change the decision, so the datapath may act on it.\<close>

theorem peek_sni_final:
  "\<exists>r. peek_sni buf = Some r
     \<and> (5 + 65535 \<le> length buf \<longrightarrow> r \<noteq> NeedMore)
     \<and> (r \<noteq> NeedMore \<longrightarrow> peek_sni (buf @ more) = Some r)"
proof (cases "5 \<le> length buf")
  case False
  then show ?thesis by (simp add: peek_sni_def)
next
  case True
  let ?n = "be16n (buf ! 3) (buf ! 4)"
  obtain r where r: "parse_client_hello (take ?n (drop 5 buf)) = Some r" "r \<noteq> NeedMore"
    using parse_client_hello_total by blast
  have n: "\<not> (length buf < 5 + ?n \<and> 65540 \<le> length buf)"
    using be16n_less[of "buf ! 3" "buf ! 4"] by linarith
  have h: "(buf @ more) ! i = buf ! i" if "i < 5" for i
    using that True by (simp add: nth_append)
  show ?thesis
    unfolding peek_sni_record[OF True]
    using True r n peek_sni_record[of "buf @ more"] by (auto simp: h)
qed

lemma peek_sni_final_witness:
  "peek_sni [0x17, 3, 3, 0, 1] = Some NoSni \<and> peek_sni ([0x17, 3, 3, 0, 1] @ [9, 9]) = Some NoSni"
proof -
  have a: "peek_sni [0x17, 3, 3, 0, 1] = Some NoSni" by code_simp
  with peek_sni_final[of "[0x17, 3, 3, 0, 1]" "[9, 9]"] show ?thesis by auto
qed

subsection \<open>A client hello as clients send it\<close>

definition be16_len :: "bytes \<Rightarrow> bytes" where
  \<comment> \<open>a vector with a two-byte length\<close>
  "be16_len v = be16 (word_of_nat (length v)) @ v"

definition sni_extension :: "bytes \<Rightarrow> bytes \<Rightarrow> bytes" where
  \<comment> \<open>the \<open>server_name\<close> extension body: one \<open>host_name\<close> entry, perhaps followed by others\<close>
  "sni_extension host others = be16_len ([0] @ be16_len host @ others)"

fun extensions :: "(u16 \<times> bytes) list \<Rightarrow> bytes" where
  "extensions [] = []"
| "extensions ((t, b) # es) = be16 t @ be16_len b @ extensions es"

definition client_hello :: "bytes \<Rightarrow> bytes \<Rightarrow> bytes \<Rightarrow> bytes \<Rightarrow> (u16 \<times> bytes) list \<Rightarrow> bytes" where
  "client_hello fixed sid suites comps exts =
     [1] @ fixed @ [word_of_nat (length sid)] @ sid @ be16_len suites
     @ [word_of_nat (length comps)] @ comps @ be16_len (extensions exts)"

definition tls_record :: "bytes \<Rightarrow> bytes" where
  "tls_record hs = [0x16, 3, 1] @ be16_len hs"

lemma length_be16_len [simp]: "length (be16_len v) = 2 + length v"
  by (simp add: be16_len_def)

lemma sni_u16_at:
  "length pre = i \<Longrightarrow> sni_u16 (pre @ be16 w @ post) i = Some (unat w)"
  by (simp add: be16_def nth_append flip: unat_be16w)

lemma sni_u16_len:
  "length pre = i \<Longrightarrow> length v < 65536 \<Longrightarrow> sni_u16 (pre @ be16_len v @ post) i = Some (length v)"
  using sni_u16_at[of pre i "word_of_nat (length v)" "v @ post"]
  by (simp only: be16_len_def append.assoc unat_word_of_nat_u16) simp

lemma parse_server_name_encode:
  assumes "host \<noteq> []" and "utf8_valid host" and "length host + length others < 65533"
  shows "parse_server_name (sni_extension host others) = Some (Found (to_lower host))"
proof -
  let ?e = "sni_extension host others" and ?l = "[0] @ be16_len host @ others"
  have l: "length ?l < 65536" "length ?e = 2 + length ?l" using assms(3) by (simp_all add: sni_extension_def)
  have u0: "sni_u16 ?e 0 = Some (length ?l)"
    using sni_u16_len[of "[]" 0 ?l "[]"] l(1) by (simp add: sni_extension_def)
  let ?p = "be16 (word_of_nat (length ?l)) @ [0]"
  have e: "?e = ?p @ be16_len host @ others" by (simp add: sni_extension_def be16_len_def)
  have u3: "sni_u16 ?e (2 + 1) = Some (length host)"
    unfolding e using assms(3) by (intro sni_u16_len) auto
  have nt: "index ?e 2 = Some 0" unfolding e by (simp add: be16_def)
  have sl: "slice ?e (2 + 3) (2 + 3 + length host) = Some host"
    using slice_mid[of "?p @ be16 (word_of_nat (length host))" "2 + 3" "2 + 3 + length host" host others]
    by (simp add: e be16_len_def)
  have "server_name_loop ?e (min (2 + length ?l) (length ?e)) 2 = Some (Found (to_lower host))"
    by (subst server_name_loop.simps)
      (use u3 nt sl assms(1,2) in \<open>simp add: l(2) Let_def del: index_Some slice_Some sni_u16_Some\<close>)
  then show ?thesis by (simp only: parse_server_name_def u0 option.case)
qed

lemma ext_loop_encode:
  assumes "\<forall>(t, b)\<in>set es. t \<noteq> 0 \<and> length b < 65536"
    and "length x < 65536" and "parse_server_name x = Some r"
  shows "ext_loop (pre @ extensions (es @ (0, x) # more) @ post)
           (length pre + length (extensions (es @ (0, x) # more))) (length pre) = Some r"
  using assms(1)
proof (induction es arbitrary: pre)
  case Nil
  let ?b = "pre @ extensions ((0, x) # more) @ post"
  have b: "?b = (pre @ be16 0) @ be16_len x @ extensions more @ post" by simp
  have u: "sni_u16 ?b (length pre) = Some 0"
    using sni_u16_at[of pre "length pre" 0 "be16_len x @ extensions more @ post"] by simp
  have v: "sni_u16 ?b (length pre + 2) = Some (length x)"
    unfolding b using assms(2) by (intro sni_u16_len) auto
  have sl: "slice ?b (length pre + 4) (length pre + 4 + length x) = Some x"
    using slice_mid[of "pre @ be16 0 @ be16 (word_of_nat (length x))" "length pre + 4" _ x "extensions more @ post"]
    by (simp add: be16_len_def)
  show ?case
    by (subst ext_loop.simps)
      (use u v sl assms(3) in \<open>simp add: Let_def del: slice_Some sni_u16_Some\<close>)
next
  case (Cons e es)
  obtain t b where e: "e = (t, b)" by (cases e)
  with Cons.prems have t: "unat t \<noteq> 0" "length b < 65536" by (auto simp: unat_eq_zero)
  let ?rest = "extensions (es @ (0, x) # more)"
  let ?b = "pre @ be16 t @ be16_len b @ ?rest @ post"
  have u: "sni_u16 ?b (length pre) = Some (unat t)"
    by (intro sni_u16_at) auto
  have v: "sni_u16 ?b (length pre + 2) = Some (length b)"
    using sni_u16_len[of "pre @ be16 t" "length pre + 2" b "?rest @ post"] t(2) by simp
  have "ext_loop ?b (length pre + 4 + length b + length ?rest) (length pre)
      = ext_loop ?b (length pre + 4 + length b + length ?rest) (length pre + 4 + length b)"
    by (subst ext_loop.simps) (use u v t(1) in \<open>simp add: Let_def del: sni_u16_Some\<close>)
  also have "\<dots> = Some r"
  proof -
    have l: "length pre + 4 + length b = length (pre @ be16 t @ be16_len b)" by simp
    have "\<forall>(t, b)\<in>set es. t \<noteq> 0 \<and> length b < 65536" using Cons.prems by simp
    from Cons.IH[OF this, of "pre @ be16 t @ be16_len b"] show ?thesis
      unfolding l by (simp only: append.assoc)
  qed
  finally have "ext_loop ?b (length pre + 4 + length b + length ?rest) (length pre) = Some r" .
  moreover have "length pre + length (extensions (((t, b) # es) @ (0, x) # more))
      = length pre + 4 + length b + length ?rest" by simp
  ultimately show ?case by (simp only: e append_Cons extensions.simps append.assoc)
qed

text \<open>C36: the server name of a well-formed ClientHello is found. For any random, session id, cipher
  suites, compression methods and other extensions around it that fit their length fields, peeking at
  the record yields exactly the lower-cased host name, whatever follows on the wire.\<close>

theorem peek_sni_client_hello:
  assumes "length fixed = 37" and "length sid < 256" and "length comps < 256"
    and "\<forall>(t, b)\<in>set es. t \<noteq> 0 \<and> length b < 65536"
    and "host \<noteq> []" and "utf8_valid host"
    and "length (client_hello fixed sid suites comps (es @ (0, sni_extension host others) # more)) < 65536"
  shows "peek_sni (tls_record (client_hello fixed sid suites comps
           (es @ (0, sni_extension host others) # more)) @ rest) = Some (Found (to_lower host))"
proof -
  let ?x = "extensions (es @ (0, sni_extension host others) # more)"
  let ?hs = "client_hello fixed sid suites comps (es @ (0, sni_extension host others) # more)"
  have len: "length ?hs = 38 + 1 + length sid + 2 + length suites + 1 + length comps + 2 + length ?x"
    using assms(1) by (simp add: client_hello_def)
  have xlen: "5 + length host + length others \<le> length ?x"
  proof -
    have "length (extensions ((0, sni_extension host others) # more)) \<le> length (extensions (e @ (0, sni_extension host others) # more))" for e
      by (induction e) auto
    from this[of es] show ?thesis by (simp add: sni_extension_def)
  qed
  have sn: "parse_server_name (sni_extension host others) = Some (Found (to_lower host))"
    using assms(5-7) xlen len by (intro parse_server_name_encode) auto
  let ?p1 = "[1] @ fixed" and ?p2 = "[1] @ fixed @ [word_of_nat (length sid)] @ sid"
  let ?p3 = "?p2 @ be16_len suites" and ?p4 = "?p2 @ be16_len suites @ [word_of_nat (length comps)] @ comps"
  have i1: "index ?hs 38 = Some (word_of_nat (length sid))"
    using assms(1) by (simp add: client_hello_def nth_append)
  have u1: "unat (word_of_nat (length sid) :: u8) = length sid" "unat (word_of_nat (length comps) :: u8) = length comps"
    using assms(2,3) by (simp_all only: unat_word_of_nat_u8) simp_all
  have i2: "sni_u16 ?hs (39 + length sid) = Some (length suites)"
    using sni_u16_len[of ?p2 "39 + length sid" suites "[word_of_nat (length comps)] @ comps @ be16_len ?x"]
      assms(1,7) len by (simp add: client_hello_def)
  have i3: "index ?hs (41 + length sid + length suites) = Some (word_of_nat (length comps))"
    using assms(1) by (simp add: client_hello_def nth_append be16_len_def be16_def)
  have i4: "sni_u16 ?hs (42 + length sid + length suites + length comps) = Some (length ?x)"
    using sni_u16_len[of ?p4 "42 + length sid + length suites + length comps" ?x "[]"]
      assms(1,7) len by (simp add: client_hello_def)
  have hs: "?hs = (?p4 @ be16 (word_of_nat (length ?x))) @ ?x @ []"
    by (simp add: client_hello_def be16_len_def)
  have ext: "ext_loop ?hs (44 + length sid + length suites + length comps + length ?x)
      (44 + length sid + length suites + length comps) = Some (Found (to_lower host))"
  proof -
    let ?pre = "?p4 @ be16 (word_of_nat (length ?x))"
    have pl: "length ?pre = 44 + length sid + length suites + length comps"
      using assms(1) by simp
    have sl: "length (sni_extension host others) < 65536"
      using assms(7) len xlen by (simp add: sni_extension_def)
    show ?thesis
      using ext_loop_encode[OF assms(4) sl sn, of ?pre more "[]"] unfolding pl hs by simp
  qed
  have i0: "index ?hs 0 = Some 1" by (simp add: client_hello_def)
  have "parse_client_hello ?hs = Some (Found (to_lower host))"
    using i0 i1 i2 i3 i4 u1 ext len
    by (simp add: parse_client_hello_def Let_def add.assoc del: index_Some sni_u16_Some)
  moreover have "be16n (tls_record ?hs ! 3) (tls_record ?hs ! 4) = length ?hs"
    using assms(7) sni_u16_len[of "[0x16, 3, 1]" 3 ?hs "[]"] by (simp add: tls_record_def)
  ultimately show ?thesis
    by (subst peek_sni_record) (simp_all add: tls_record_def be16_len_def be16_def)
qed

lemma peek_sni_client_hello_witness:
  "peek_sni (tls_record (client_hello (replicate 37 0) [] [0x13, 1] [0]
       ([(10, [0, 1])] @ (0, sni_extension [97, 46, 66] []) # [(16, [])])) @ [7])
     = Some (Found [97, 46, 98])"
proof -
  have "utf8_valid [97, 46, 66]" by code_simp
  then show ?thesis
    using peek_sni_client_hello[of "replicate 37 0" "[]" "[0]" "[(10, [0, 1])]" "[97, 46, 66]" "[0x13, 1]" "[]" "[(16, [])]" "[7]"]
    by (simp add: client_hello_def sni_extension_def to_lower_def lower_u8_def)
qed

end
