(* ===== verification/Ip_Text.thy ===== *)
theory Ip_Text
  imports Net_Types Rust_Text
begin

section \<open>Addresses as text\<close>

text \<open>
  \<open>Display\<close> and \<open>FromStr\<close> of \<open>std::net\<close>'s address types, as the sources use them: the proxy's
  CONNECT authority, the host of an event, the configured addresses. The parser follows the
  standard library's recursive-descent one; the printer compresses the first longest run of at
  least two zero groups and prints IPv4-mapped addresses with their dotted quad.
\<close>

subsection \<open>Printing\<close>

fun ipv4_str :: "u8 \<Rightarrow> u8 \<Rightarrow> u8 \<Rightarrow> u8 \<Rightarrow> bytes" where
  "ipv4_str a b c d = dec_str (unat a) @ [46] @ dec_str (unat b) @ [46] @ dec_str (unat c) @ [46] @ dec_str (unat d)"

fun groups_of :: "bytes \<Rightarrow> nat list" where
  "groups_of (a # b # os) = be16n a b # groups_of os"
| "groups_of _ = []"

fun zero_run :: "nat list \<Rightarrow> nat" where
  "zero_run [] = 0"
| "zero_run (g # gs) = (if g = 0 then Suc (zero_run gs) else 0)"

fun longest_zero_run :: "nat \<Rightarrow> nat list \<Rightarrow> nat \<times> nat" where
  \<comment> \<open>start and length of the first longest run of zero groups\<close>
  "longest_zero_run i [] = (i, 0)"
| "longest_zero_run i (g # gs) =
     (let (s, l) = longest_zero_run (Suc i) gs; h = zero_run (g # gs)
      in if h \<ge> l then (i, h) else (s, l))"

definition hex_groups :: "nat list \<Rightarrow> bytes" where
  "hex_groups gs = join_with 58 (map hex_str gs)"

definition ipv6_str :: "bytes \<Rightarrow> bytes" where
  "ipv6_str os =
     (if take 12 os = replicate 10 0 @ [255, 255]
      then asc ''::ffff:'' @ ipv4_str (os ! 12) (os ! 13) (os ! 14) (os ! 15)
      else let gs = groups_of os; (s, l) = longest_zero_run 0 gs
           in if l > 1 then hex_groups (take s gs) @ [58, 58] @ hex_groups (drop (s + l) gs)
              else hex_groups gs)"

fun ip_str :: "ip_addr \<Rightarrow> bytes" where
  "ip_str (V4 a b c d) = ipv4_str a b c d"
| "ip_str (V6 os) = ipv6_str os"

fun sock_str :: "sock_addr \<Rightarrow> bytes" where
  "sock_str (SockAddr (V4 a b c d) p) = ipv4_str a b c d @ [58] @ dec_str (unat p)"
| "sock_str (SockAddr (V6 os) p) = [91] @ ipv6_str os @ [93, 58] @ dec_str (unat p)"

subsection \<open>Parsing\<close>

fun read_digits :: "nat \<Rightarrow> bytes \<Rightarrow> bytes \<times> bytes" where
  "read_digits base [] = ([], [])"
| "read_digits base (c # cs) =
     (if digit_val base c = None then ([], c # cs)
      else let (ds, r) = read_digits base cs in (c # ds, r))"

definition read_number :: "nat \<Rightarrow> nat \<Rightarrow> nat \<Rightarrow> bool \<Rightarrow> bytes \<Rightarrow> (nat \<times> bytes) option" where
  "read_number base mx max_digits allow_zero_prefix s =
     (let (ds, r) = read_digits base s
      in if ds = [] \<or> length ds > max_digits then None
         else if \<not> allow_zero_prefix \<and> hd ds = 48 \<and> length ds > 1 then None
         else map_option (\<lambda>v. (v, r)) (digits_acc base mx 0 ds))"

definition read_char :: "u8 \<Rightarrow> bytes \<Rightarrow> bytes option" where
  "read_char c s = (case s of [] \<Rightarrow> None | x # r \<Rightarrow> if x = c then Some r else None)"

definition read_ipv4 :: "bytes \<Rightarrow> ((u8 \<times> u8 \<times> u8 \<times> u8) \<times> bytes) option" where
  "read_ipv4 s = do {
     (a, s) \<leftarrow> read_number 10 255 3 False s;
     s \<leftarrow> read_char 46 s;
     (b, s) \<leftarrow> read_number 10 255 3 False s;
     s \<leftarrow> read_char 46 s;
     (c, s) \<leftarrow> read_number 10 255 3 False s;
     s \<leftarrow> read_char 46 s;
     (d, s) \<leftarrow> read_number 10 255 3 False s;
     Some ((word_of_nat a, word_of_nat b, word_of_nat c, word_of_nat d), s)
   }"

definition read_sep :: "nat \<Rightarrow> bytes \<Rightarrow> bytes option" where
  "read_sep i s = (if i > 0 then read_char 58 s else Some s)"

function read_groups :: "nat \<Rightarrow> nat \<Rightarrow> bytes \<Rightarrow> u16 list \<times> bool \<times> bytes" where
  \<comment> \<open>up to \<open>limit\<close> groups, the \<open>i\<close>-th next; whether they end in an embedded IPv4 address\<close>
  "read_groups limit i s =
     (if i \<ge> limit then ([], False, s)
      else case (if i + 1 < limit then Option.bind (read_sep i s) read_ipv4 else None) of
        Some ((a, b, c, d), r) \<Rightarrow> ([be16w a b, be16w c d], True, r)
      | None \<Rightarrow>
          (case Option.bind (read_sep i s) (read_number 16 65535 4 True) of
             None \<Rightarrow> ([], False, s)
           | Some (g, r) \<Rightarrow>
               let (gs, v4, r') = read_groups limit (i + 1) r in (word_of_nat g # gs, v4, r')))"
  by pat_completeness auto
termination
  by (relation "measure (\<lambda>(limit, i, _). limit - i)") auto

declare read_groups.simps [simp del]

definition read_ipv6 :: "bytes \<Rightarrow> (bytes \<times> bytes) option" where
  "read_ipv6 s =
     (let (hd_gs, v4, r) = read_groups 8 0 s
      in if length hd_gs = 8 then Some (concat (map be16 hd_gs), r)
         else if v4 then None
         else do {
           r \<leftarrow> read_char 58 r;
           r \<leftarrow> read_char 58 r;
           let (tl_gs, _, r') = read_groups (8 - (length hd_gs + 1)) 0 r;
           Some (concat (map be16 (hd_gs @ replicate (8 - length hd_gs - length tl_gs) 0 @ tl_gs)), r')
         })"

definition parse_ip :: "bytes \<Rightarrow> ip_addr option" where
  \<comment> \<open>\<open>str::parse::<IpAddr>\<close>\<close>
  "parse_ip s =
     (case (case read_ipv4 s of Some ((a, b, c, d), r) \<Rightarrow> Some (V4 a b c d, r)
            | None \<Rightarrow> map_option (\<lambda>(os, r). (V6 os, r)) (read_ipv6 s)) of
        Some (ip, []) \<Rightarrow> Some ip
      | _ \<Rightarrow> None)"

subsection \<open>A printed IPv4 address parses back\<close>

definition digit_free :: "nat \<Rightarrow> bytes \<Rightarrow> bool" where
  "digit_free base s \<longleftrightarrow> (case s of [] \<Rightarrow> True | c # _ \<Rightarrow> digit_val base c = None)"

lemma read_digits_append:
  "list_all (\<lambda>c. digit_val base c \<noteq> None) ds \<Longrightarrow> digit_free base r \<Longrightarrow> read_digits base (ds @ r) = (ds, r)"
proof (induction ds)
  case Nil
  then show ?case by (cases r) (auto simp: digit_free_def)
next
  case (Cons c ds)
  then show ?case by simp
qed

lemma to_radix_digits:
  assumes "2 \<le> base" and "base \<le> 16"
  shows "list_all (\<lambda>c. digit_val base c \<noteq> None) (to_radix base n)"
proof (induction n rule: less_induct)
  case (less n)
  then show ?case
    using assms by (subst to_radix.simps) (auto simp: digit_val_digit_char)
qed

lemma length_to_radix_le:
  "2 \<le> base \<Longrightarrow> n < base ^ k \<Longrightarrow> 0 < k \<Longrightarrow> length (to_radix base n) \<le> k"
proof (induction k arbitrary: n)
  case 0
  then show ?case by simp
next
  case (Suc k)
  show ?case
  proof (cases "n < base")
    case True
    then show ?thesis by (subst to_radix.simps) simp
  next
    case False
    then have "k \<noteq> 0" using Suc.prems(2) by (cases k) auto
    moreover have "n div base < base ^ k"
      using Suc.prems(1,2) by (simp add: less_mult_imp_div_less mult.commute)
    ultimately show ?thesis
      using Suc False by (subst to_radix.simps) simp
  qed
qed

lemma to_radix_no_leading_zero:
  "2 \<le> base \<Longrightarrow> base \<le> 16 \<Longrightarrow> 0 < n \<Longrightarrow> hd (to_radix base n) \<noteq> 48"
proof (induction n rule: less_induct)
  case (less n)
  show ?case
  proof (cases "n < base")
    case True
    with less.prems have "n < 16" by simp
    then have "unat (digit_char n) = 48 + n \<or> unat (digit_char n) = 87 + n"
      unfolding digit_char_def by (simp only: unat_word_of_nat_u8 split: if_splits) auto
    with less.prems have "digit_char n \<noteq> 48" by auto
    with True show ?thesis by (subst to_radix.simps) simp
  next
    case False
    with less.prems have "n div base < n" "0 < n div base" by (auto simp: div_greater_zero_iff)
    moreover obtain d r where "to_radix base (n div base) = d # r"
      using to_radix_hd by blast
    ultimately show ?thesis
      using less.IH[of "n div base"] less.prems False by (subst to_radix.simps) simp
  qed
qed

lemma read_number_dec_str:
  assumes "n \<le> 255" and "digit_free 10 r"
  shows "read_number 10 255 3 False (dec_str n @ r) = Some (n, r)"
proof -
  have d: "read_digits 10 (dec_str n @ r) = (dec_str n, r)"
    using read_digits_append[OF to_radix_digits assms(2), of n] by (simp add: dec_str_def)
  have l: "length (dec_str n) \<le> 3"
    using length_to_radix_le[of 10 n 3] assms(1) by (simp add: dec_str_def)
  have ne: "dec_str n \<noteq> []" using to_radix_hd[of 10 n] by (auto simp: dec_str_def)
  have z: "hd (dec_str n) = 48 \<Longrightarrow> length (dec_str n) \<le> 1"
  proof -
    assume "hd (dec_str n) = 48"
    then have "n = 0" using to_radix_no_leading_zero[of 10 n] by (auto simp: dec_str_def)
    then show ?thesis by (simp add: dec_str_def to_radix.simps)
  qed
  have "digits_acc 10 255 0 (dec_str n) = Some n"
    using digits_acc_to_radix[of 10 n 255] assms(1) by (simp add: dec_str_def)
  with d l ne z show ?thesis by (auto simp: read_number_def)
qed

lemma digit_free_dot: "digit_free 10 (46 # r)" "digit_free 10 []"
  by (simp_all add: digit_free_def digit_val_def)

lemma parse_ip_ipv4_str: "parse_ip (ipv4_str a b c d) = Some (V4 a b c d)"
proof -
  have le: "unat w \<le> 255" for w :: u8 by (rule unat_u8_le)
  have "read_ipv4 (ipv4_str a b c d @ []) = Some ((a, b, c, d), [])"
    unfolding ipv4_str.simps append.assoc
    by (simp add: read_ipv4_def read_number_dec_str[OF le] digit_free_dot read_char_def
        read_number_dec_str[OF le, of "[]", simplified])
  then show ?thesis by (simp add: parse_ip_def)
qed

end
