(* ===== verification/Stream_Machine.thy ===== *)
theory Stream_Machine
  imports Main
begin

section \<open>Byte-stream machines\<close>

text \<open>
  The contract of every parser that a TCP byte stream drives: how the stream is cut into reads must
  not matter. \<open>feed s x\<close> consumes one read and returns the outputs it produces and the next state;
  \<open>adm s x\<close> holds while the machine's own limits (a buffer cap) are respected.
\<close>

fun feed_all :: "('s \<Rightarrow> 'a list \<Rightarrow> 'o list \<times> 's) \<Rightarrow> 's \<Rightarrow> 'a list list \<Rightarrow> 'o list \<times> 's" where
  "feed_all f s [] = ([], s)"
| "feed_all f s (c # cs) =
     (let (o1, s1) = f s c; (o2, s2) = feed_all f s1 cs in (o1 @ o2, s2))"

fun adm_all :: "('s \<Rightarrow> 'a list \<Rightarrow> 'o list \<times> 's) \<Rightarrow> ('s \<Rightarrow> 'a list \<Rightarrow> bool) \<Rightarrow> 's \<Rightarrow> 'a list list \<Rightarrow> bool"
where
  \<comment> \<open>every read is non-empty and admissible in the state it meets\<close>
  "adm_all f adm s [] = True"
| "adm_all f adm s (c # cs) = (c \<noteq> [] \<and> adm s c \<and> adm_all f adm (snd (f s c)) cs)"

lemma feed_all_append:
  "feed_all f s (xs @ ys) =
     (fst (feed_all f s xs) @ fst (feed_all f (snd (feed_all f s xs)) ys), snd (feed_all f (snd (feed_all f s xs)) ys))"
  by (induction xs arbitrary: s) (auto simp: case_prod_unfold Let_def)

locale stream_machine =
  fixes feed :: "'s \<Rightarrow> 'a list \<Rightarrow> 'o list \<times> 's"
    and adm :: "'s \<Rightarrow> 'a list \<Rightarrow> bool"
  assumes feed_append: "adm s (a @ b) \<Longrightarrow>
      feed s (a @ b) = (fst (feed s a) @ fst (feed (snd (feed s a)) b), snd (feed (snd (feed s a)) b))"
    and adm_append: "adm s (a @ b) \<Longrightarrow> adm (snd (feed s a)) b"
begin

theorem segmentation:
  "cs \<noteq> [] \<Longrightarrow> adm s (concat cs) \<Longrightarrow> feed_all feed s cs = feed s (concat cs)"
proof (induction cs arbitrary: s)
  case Nil
  then show ?case by simp
next
  case (Cons c cs)
  show ?case
  proof (cases "cs = []")
    case True
    then show ?thesis by (simp add: case_prod_unfold Let_def)
  next
    case False
    have "adm s (c @ concat cs)" using Cons.prems by simp
    then have "adm (snd (feed s c)) (concat cs)" by (rule adm_append)
    with Cons.IH False have "feed_all feed (snd (feed s c)) cs = feed (snd (feed s c)) (concat cs)"
      by blast
    with feed_append[OF \<open>adm s (c @ concat cs)\<close>] show ?thesis
      by (simp add: case_prod_unfold Let_def)
  qed
qed

corollary same_stream_same_result:
  "cs \<noteq> [] \<Longrightarrow> ds \<noteq> [] \<Longrightarrow> concat cs = concat ds \<Longrightarrow> adm s (concat cs) \<Longrightarrow>
   feed_all feed s cs = feed_all feed s ds"
  by (simp add: segmentation)

lemma bytewise:
  assumes "adm s c" and "c \<noteq> []"
  shows "feed_all feed s (map (\<lambda>x. [x]) c) = feed s c"
  using segmentation[of "map (\<lambda>x. [x]) c" s] assms by (simp add: concat_map_singleton)

theorem reads_as_bytes:
  "adm_all feed adm s cs \<Longrightarrow> feed_all feed s cs = feed_all feed s (map (\<lambda>x. [x]) (concat cs))"
proof (induction cs arbitrary: s)
  case Nil
  then show ?case by simp
next
  case (Cons c cs)
  then show ?case by (simp add: feed_all_append bytewise case_prod_unfold Let_def)
qed

text \<open>Two sequences of admissible reads of the same bytes are indistinguishable.\<close>

corollary same_bytes_same_result:
  "adm_all feed adm s cs \<Longrightarrow> adm_all feed adm s ds \<Longrightarrow> concat cs = concat ds \<Longrightarrow>
   feed_all feed s cs = feed_all feed s ds"
  by (simp add: reads_as_bytes)

end

end
