(* ===== verification/Proxy.thy ===== *)
theory Proxy
  imports Ip_Text Stream_Machine
begin

unbundle bit_operations_syntax

section \<open>Upstream proxy handshakes\<close>

text \<open>
  \<open>rust/core/src/proxy.rs\<close>: the sans-I/O machines that open a tunnel through an HTTP, HTTPS or
  SOCKS5 proxy, and the SOCKS5 UDP header. \<open>step\<close> is one call of \<open>Handshake::step\<close>; \<open>hs_drive\<close> is
  the loop in which \<open>forward.rs\<close> calls it, with every produced message written out. The outer
  \<open>option\<close> is a panic.
\<close>

datatype proxy_kind = Proxy_None | Proxy_Http | Proxy_Https | Proxy_Socks5

record proxy_config =
  pc_kind :: proxy_kind
  pc_host :: bytes
  pc_ip :: bytes
  pc_port :: u16
  pc_username :: "bytes option"
  pc_password :: "bytes option"

record proxy =
  px_kind :: proxy_kind
  px_addr :: sock_addr
  px_server_name :: bytes
  px_username :: "bytes option"
  px_password :: "bytes option"

definition from_config :: "proxy_config \<Rightarrow> proxy option" where
  "from_config c =
     (if pc_kind c = Proxy_None then None
      else
        let dial = (if trim (pc_ip c) = [] then trim (pc_host c) else trim (pc_ip c))
        in case parse_ip dial of
             None \<Rightarrow> None
           | Some ip \<Rightarrow>
               if pc_port c = 0 then None
               else
                 let server_name = (if trim (pc_host c) = [] then dial else trim (pc_host c));
                     clean = (\<lambda>s. case s of Some v \<Rightarrow> if v \<noteq> [] then Some v else None | None \<Rightarrow> None)
                 in Some \<lparr>px_kind = pc_kind c, px_addr = SockAddr ip (pc_port c),
                          px_server_name = server_name, px_username = clean (pc_username c),
                          px_password = clean (pc_password c)\<rparr>)"

definition is_tls :: "proxy \<Rightarrow> bool" where
  "is_tls p = (px_kind p = Proxy_Https)"

definition supports_udp :: "proxy \<Rightarrow> bool" where
  "supports_udp p = (px_kind p = Proxy_Socks5)"

datatype proxy_error =
    HttpStatus u16 | HttpMalformed | HeaderTooLarge | Socks5Version u8
  | Socks5NoAcceptableAuth | Socks5AuthFailed u8 | Socks5Reply u8 | Socks5Malformed

datatype step = Step_Write bytes | Step_Read | Step_Done bytes

datatype socks5_command = Socks_Connect | Socks_UdpAssociate

fun command_code :: "socks5_command \<Rightarrow> u8" where
  "command_code Socks_Connect = 1"
| "command_code Socks_UdpAssociate = 3"

datatype socks5_phase = Ph_Start | Ph_Greeted | Ph_Authed | Ph_Requested

datatype machine = M_Http bool | M_Socks5 socks5_phase socks5_command

definition HANDSHAKE_BUF_CAP :: nat where
  "HANDSHAKE_BUF_CAP = 8 * 1024"

record handshake =
  hs_target :: sock_addr
  hs_username :: "bytes option"
  hs_password :: "bytes option"
  hs_machine :: machine
  hs_inbuf :: bytes
  hs_bound :: "sock_addr option"

definition hs_connect :: "proxy \<Rightarrow> sock_addr \<Rightarrow> handshake" where
  "hs_connect proxy target =
     \<lparr>hs_target = target, hs_username = px_username proxy, hs_password = px_password proxy,
      hs_machine = (if px_kind proxy = Proxy_Socks5 then M_Socks5 Ph_Start Socks_Connect else M_Http False),
      hs_inbuf = [], hs_bound = None\<rparr>"

definition hs_udp_associate :: "proxy \<Rightarrow> handshake" where
  "hs_udp_associate proxy =
     \<lparr>hs_target = SockAddr (V4 0 0 0 0) 0, hs_username = px_username proxy,
      hs_password = px_password proxy, hs_machine = M_Socks5 Ph_Start Socks_UdpAssociate,
      hs_inbuf = [], hs_bound = None\<rparr>"

subsection \<open>Wire formats\<close>

definition b64_table :: bytes where
  "b64_table = asc ''ABCDEFGHIJKLMNOPQRSTUVWXYZabcdefghijklmnopqrstuvwxyz0123456789+/''"

definition b64_char :: "u8 \<Rightarrow> u8" where
  \<comment> \<open>\<open>T[i]\<close>; every index below is under 64\<close>
  "b64_char i = b64_table ! unat i"

fun base64_encode :: "bytes \<Rightarrow> bytes" where
  "base64_encode [] = []"
| "base64_encode [b0] =
     [b64_char (drop_bit 2 b0), b64_char (push_bit 4 (b0 AND 3) OR drop_bit 4 0), 61, 61]"
| "base64_encode [b0, b1] =
     [b64_char (drop_bit 2 b0), b64_char (push_bit 4 (b0 AND 3) OR drop_bit 4 b1),
      b64_char (push_bit 2 (b1 AND 15) OR drop_bit 6 0), 61]"
| "base64_encode (b0 # b1 # b2 # bs) =
     [b64_char (drop_bit 2 b0), b64_char (push_bit 4 (b0 AND 3) OR drop_bit 4 b1),
      b64_char (push_bit 2 (b1 AND 15) OR drop_bit 6 b2), b64_char (b2 AND 63)] @ base64_encode bs"

definition build_http_connect :: "handshake \<Rightarrow> bytes" where
  "build_http_connect h =
     (let authority = sock_str (hs_target h)
      in asc ''CONNECT '' @ authority @ asc '' HTTP/1.1'' @ CRLF
         @ asc ''Host: '' @ authority @ CRLF
         @ (case hs_username h of
              None \<Rightarrow> []
            | Some user \<Rightarrow>
                let pass = (case hs_password h of None \<Rightarrow> [] | Some p \<Rightarrow> p)
                in asc ''Proxy-Authorization: Basic '' @ base64_encode (user @ [58] @ pass) @ CRLF)
         @ asc ''Proxy-Connection: keep-alive'' @ CRLF @ CRLF)"

definition find_headers_end :: "bytes \<Rightarrow> nat option" where
  "find_headers_end buf = map_option (\<lambda>p. p + 4) (find_sub [13, 10, 13, 10] buf)"

definition parse_http_reply :: "bytes \<Rightarrow> (proxy_error + step) option" where
  "parse_http_reply buf =
     (case find_headers_end buf of
        None \<Rightarrow> Some (Inr Step_Read)
      | Some e \<Rightarrow> do {
          let line_end = (case position (\<lambda>b. b = 13) buf of None \<Rightarrow> e | Some i \<Rightarrow> i);
          line \<leftarrow> slice buf 0 line_end;
          (case split_on 32 line of
             _ # code # _ \<Rightarrow>
               (case (if utf8_valid code then parse_radix 10 65535 code else None) of
                  None \<Rightarrow> Some (Inl HttpMalformed)
                | Some c \<Rightarrow>
                    if 200 \<le> c \<and> c < 300
                    then do { lo \<leftarrow> slice buf e (length buf); Some (Inr (Step_Done lo)) }
                    else Some (Inl (HttpStatus (word_of_nat c))))
           | _ \<Rightarrow> Some (Inl HttpMalformed))
        })"

definition socks5_greeting :: "bool \<Rightarrow> bytes" where
  "socks5_greeting with_auth = (if with_auth then [5, 2, 0, 2] else [5, 1, 0])"

definition socks5_userpass :: "bytes \<Rightarrow> bytes \<Rightarrow> bytes" where
  "socks5_userpass user pass =
     (let ulen = min (length user) 255; plen = min (length pass) 255
      in [1, word_of_nat ulen] @ take ulen user @ [word_of_nat plen] @ take plen pass)"

fun socks_addr :: "sock_addr \<Rightarrow> bytes" where
  "socks_addr (SockAddr (V4 a b c d) p) = [1, a, b, c, d] @ be16 p"
| "socks_addr (SockAddr (V6 os) p) = [4] @ os @ be16 p"

definition socks5_request :: "socks5_command \<Rightarrow> sock_addr \<Rightarrow> bytes" where
  "socks5_request command target = [5, command_code command, 0] @ socks_addr target"

definition socks5_reply_len :: "bytes \<Rightarrow> (proxy_error + nat option) option" where
  "socks5_reply_len buf =
     (if length buf < 4 then Some (Inr None)
      else do {
        atyp \<leftarrow> index buf 3;
        addr_len \<leftarrow>
          (if atyp = 1 then Some (Inr (Some 4))
           else if atyp = 4 then Some (Inr (Some 16))
           else if atyp = 3 then
             if length buf < 5 then Some (Inr None)
             else do { l \<leftarrow> index buf 4; Some (Inr (Some (1 + unat l))) }
           else Some (Inl Socks5Malformed));
        (case addr_len of
           Inl e \<Rightarrow> Some (Inl e)
         | Inr None \<Rightarrow> Some (Inr None)
         | Inr (Some n) \<Rightarrow>
             let total = 4 + n + 2
             in if length buf < total then Some (Inr None) else Some (Inr (Some total)))
      })"

definition parse_socks5_bound :: "bytes \<Rightarrow> sock_addr option option" where
  "parse_socks5_bound reply =
     (case index reply 3 of
        None \<Rightarrow> Some None
      | Some atyp \<Rightarrow>
          if atyp = 1 then do {
            a \<leftarrow> index reply 4; b \<leftarrow> index reply 5; c \<leftarrow> index reply 6; d \<leftarrow> index reply 7;
            p0 \<leftarrow> index reply 8; p1 \<leftarrow> index reply 9;
            Some (Some (SockAddr (V4 a b c d) (be16w p0 p1)))
          }
          else if atyp = 4 then do {
            os \<leftarrow> slice reply 4 20;
            p0 \<leftarrow> index reply 20; p1 \<leftarrow> index reply 21;
            Some (Some (SockAddr (V6 os) (be16w p0 p1)))
          }
          else Some None)"

definition socks5_udp_encapsulate :: "sock_addr \<Rightarrow> bytes \<Rightarrow> bytes" where
  "socks5_udp_encapsulate target payload = [0, 0, 0] @ socks_addr target @ payload"

definition socks5_udp_decapsulate :: "bytes \<Rightarrow> (sock_addr \<times> bytes) option option" where
  "socks5_udp_decapsulate dgram =
     (if length dgram < 4 \<or> dgram ! 2 \<noteq> 0 then Some None
      else do {
        atyp \<leftarrow> index dgram 3;
        ip_end \<leftarrow>
          (if atyp = 1 then
             if length dgram < 10 then Some None
             else do {
               a \<leftarrow> index dgram 4; b \<leftarrow> index dgram 5; c \<leftarrow> index dgram 6; d \<leftarrow> index dgram 7;
               Some (Some (V4 a b c d, 8))
             }
           else if atyp = 4 then
             if length dgram < 22 then Some None
             else do { os \<leftarrow> slice dgram 4 20; Some (Some (V6 os, 20)) }
           else Some None);
        (case ip_end of
           None \<Rightarrow> Some None
         | Some (ip, addr_end) \<Rightarrow> do {
             p0 \<leftarrow> index dgram addr_end; p1 \<leftarrow> index dgram (addr_end + 1);
             rest \<leftarrow> slice dgram (addr_end + 2) (length dgram);
             Some (Some (SockAddr ip (be16w p0 p1), rest))
           })
      })"

subsection \<open>The machines\<close>

definition socks5_step :: "socks5_phase \<Rightarrow> socks5_command \<Rightarrow> handshake \<Rightarrow> ((proxy_error + step) \<times> handshake) option"
where
  "socks5_step phase command h =
     (let to = (\<lambda>ph. hs_machine_update (\<lambda>_. M_Socks5 ph command)); inbuf = hs_inbuf h
      in case phase of
        Ph_Start \<Rightarrow> Some (Inr (Step_Write (socks5_greeting (hs_username h \<noteq> None))), to Ph_Greeted h)
      | Ph_Greeted \<Rightarrow>
          if length inbuf < 2 then Some (Inr Step_Read, h)
          else do {
            v \<leftarrow> index inbuf 0;
            if v \<noteq> 5 then Some (Inl (Socks5Version v), h)
            else do {
              meth \<leftarrow> index inbuf 1;
              let h = h\<lparr>hs_inbuf := drop 2 inbuf\<rparr>;
              if meth = 0 then
                Some (Inr (Step_Write (socks5_request command (hs_target h))), to Ph_Requested h)
              else if meth = 2 \<and> hs_username h \<noteq> None then
                let u = (case hs_username h of None \<Rightarrow> [] | Some u \<Rightarrow> u);
                    p = (case hs_password h of None \<Rightarrow> [] | Some p \<Rightarrow> p)
                in Some (Inr (Step_Write (socks5_userpass u p)), to Ph_Authed h)
              else Some (Inl Socks5NoAcceptableAuth, h)
            }
          }
      | Ph_Authed \<Rightarrow>
          if length inbuf < 2 then Some (Inr Step_Read, h)
          else do {
            status \<leftarrow> index inbuf 1;
            let h = h\<lparr>hs_inbuf := drop 2 inbuf\<rparr>;
            if status \<noteq> 0 then Some (Inl (Socks5AuthFailed status), h)
            else Some (Inr (Step_Write (socks5_request command (hs_target h))), to Ph_Requested h)
          }
      | Ph_Requested \<Rightarrow> do {
          r \<leftarrow> socks5_reply_len inbuf;
          case r of
            Inl e \<Rightarrow> Some (Inl e, h)
          | Inr None \<Rightarrow> Some (Inr Step_Read, h)
          | Inr (Some reply_len) \<Rightarrow> do {
              v \<leftarrow> index inbuf 0;
              if v \<noteq> 5 then Some (Inl (Socks5Version v), h)
              else do {
                rep \<leftarrow> index inbuf 1;
                if rep \<noteq> 0 then Some (Inl (Socks5Reply rep), h)
                else do {
                  reply \<leftarrow> slice inbuf 0 reply_len;
                  bound \<leftarrow> parse_socks5_bound reply;
                  leftover \<leftarrow> slice inbuf reply_len (length inbuf);
                  Some (Inr (Step_Done leftover), h\<lparr>hs_bound := bound, hs_inbuf := reply\<rparr>)
                }
              }
            }
        })"

definition hs_step :: "handshake \<Rightarrow> bytes \<Rightarrow> ((proxy_error + step) \<times> handshake) option" where
  "hs_step h input =
     (let h = h\<lparr>hs_inbuf := hs_inbuf h @ input\<rparr>
      in if length (hs_inbuf h) > HANDSHAKE_BUF_CAP then Some (Inl HeaderTooLarge, h)
         else case hs_machine h of
           M_Http sent \<Rightarrow>
             if \<not> sent then
               Some (Inr (Step_Write (build_http_connect h)), h\<lparr>hs_machine := M_Http True\<rparr>)
             else map_option (\<lambda>r. (r, h)) (parse_http_reply (hs_inbuf h))
         | M_Socks5 phase command \<Rightarrow> socks5_step phase command h)"

subsection \<open>Driving a handshake\<close>

fun hs_rank :: "handshake \<Rightarrow> nat" where
  "hs_rank h =
     (case hs_machine h of
        M_Http sent \<Rightarrow> if sent then 0 else 1
      | M_Socks5 Ph_Start _ \<Rightarrow> 3
      | M_Socks5 Ph_Greeted _ \<Rightarrow> 2
      | M_Socks5 Ph_Authed _ \<Rightarrow> 1
      | M_Socks5 Ph_Requested _ \<Rightarrow> 0)"

lemma socks5_reply_len_cases:
  "\<exists>r. socks5_reply_len buf = Some r \<and>
     (\<forall>n. r = Inr (Some n) \<longrightarrow> 4 \<le> length buf \<and> n \<le> length buf \<and> 7 \<le> n \<and>
        (buf ! 3 = 1 \<longrightarrow> n = 10) \<and> (buf ! 3 = 4 \<longrightarrow> n = 22)
        \<and> socks5_reply_len (buf @ b) = Some (Inr (Some n)))
     \<and> (\<forall>e. r = Inl e \<longrightarrow> socks5_reply_len (buf @ b) = Some (Inl e))"
proof (cases "4 \<le> length buf")
  case False
  then show ?thesis by (simp add: socks5_reply_len_def)
next
  case True
  consider "buf ! 3 = 1" | "buf ! 3 = 4" | "buf ! 3 = 3" "length buf < 5" | "buf ! 3 = 3" "5 \<le> length buf"
    | "buf ! 3 \<noteq> 1" "buf ! 3 \<noteq> 4" "buf ! 3 \<noteq> 3" by linarith
  then show ?thesis
    using True by cases (simp_all add: socks5_reply_len_def nth_append Let_def)
qed

lemma parse_socks5_bound_total:
  assumes "buf ! 3 = 1 \<longrightarrow> length buf = 10" and "buf ! 3 = 4 \<longrightarrow> length buf = 22"
  shows "\<exists>r. parse_socks5_bound buf = Some r"
  using assms by (cases "3 < length buf") (auto simp: parse_socks5_bound_def)

lemma find_headers_end_append:
  "find_headers_end buf = Some e \<Longrightarrow> find_headers_end (buf @ b) = Some e"
  by (auto simp: find_headers_end_def find_sub_append_Some)

lemma find_headers_end_bound: "find_headers_end buf = Some e \<Longrightarrow> 4 \<le> e \<and> e \<le> length buf"
  by (auto simp: find_headers_end_def dest: find_sub_bound)

lemma header_end_has_cr:
  assumes "find_headers_end buf = Some e"
  shows "\<exists>i. position (\<lambda>b. b = 13) buf = Some i \<and> i < length buf"
proof -
  obtain p where "find_sub [13, 10, 13, 10] buf = Some p" using assms by (auto simp: find_headers_end_def)
  then have "prefix [13, 10, 13, 10] (drop p buf)" using find_sub_SomeD by blast
  then have "13 \<in> set (drop p buf)" by (auto dest!: prefix_order.le_imp_less_or_eq set_mono_prefix simp: strict_prefix_def)
  then have "13 \<in> set buf" using in_set_dropD by fast
  then have "position (\<lambda>b. b = 13) buf \<noteq> None" unfolding position_None_iff by blast
  then show ?thesis by (auto simp: position_Some_iff)
qed

lemma parse_http_reply_cases:
  "\<exists>r. parse_http_reply buf = Some r
     \<and> (\<forall>w. r \<noteq> Inr (Step_Write w))
     \<and> (\<forall>lo. r = Inr (Step_Done lo) \<longrightarrow> parse_http_reply (buf @ b) = Some (Inr (Step_Done (lo @ b))))
     \<and> (\<forall>e. r = Inl e \<longrightarrow> parse_http_reply (buf @ b) = Some (Inl e))"
proof (cases "find_headers_end buf")
  case None
  then show ?thesis by (simp add: parse_http_reply_def)
next
  case (Some e)
  obtain i where i: "position (\<lambda>b. b = 13) buf = Some i" "i < length buf"
    using header_end_has_cr[OF Some] by blast
  show ?thesis
    using Some i find_headers_end_bound[OF Some]
    by (auto simp: parse_http_reply_def find_headers_end_append position_append_Some
        split: list.splits option.splits)
qed

definition hs_grow :: "handshake \<Rightarrow> bytes \<Rightarrow> handshake" where
  "hs_grow h x = h\<lparr>hs_inbuf := hs_inbuf h @ x\<rparr>"

lemma hs_grow_grow: "hs_grow (hs_grow h a) b = hs_grow h (a @ b)" "hs_grow h [] = h"
  by (simp_all add: hs_grow_def)

lemma hs_step_grow: "hs_step h x = hs_step (hs_grow h x) []"
  by (simp add: hs_step_def hs_grow_def)

lemma socks5_step_cases:
  "\<exists>r h'. socks5_step phase command h = Some (r, h')
     \<and> length (hs_inbuf h') \<le> length (hs_inbuf h)
     \<and> (\<forall>w. r = Inr (Step_Write w) \<longrightarrow> socks5_step phase command (hs_grow h b) = Some (r, hs_grow h' b)
          \<and> (hs_machine h = M_Socks5 phase command \<longrightarrow> hs_rank h' < hs_rank h))
     \<and> (r = Inr Step_Read \<longrightarrow> h' = h)
     \<and> (\<forall>lo. r = Inr (Step_Done lo) \<longrightarrow>
          (\<exists>h2. socks5_step phase command (hs_grow h b) = Some (Inr (Step_Done (lo @ b)), h2)
              \<and> hs_bound h2 = hs_bound h'))
     \<and> (\<forall>e. r = Inl e \<longrightarrow> (\<exists>h2. socks5_step phase command (hs_grow h b) = Some (Inl e, h2)))"
proof (cases phase)
  case Ph_Start
  then show ?thesis by (simp add: socks5_step_def hs_grow_def)
next
  case Ph_Greeted
  show ?thesis
  proof (cases "2 \<le> length (hs_inbuf h)")
    case True
    then have "hs_inbuf h \<noteq> []" by auto
    with True Ph_Greeted show ?thesis
      by (auto simp: socks5_step_def hs_grow_def Let_def nth_append split: option.splits)
  next
    case False
    with Ph_Greeted show ?thesis by (auto simp: socks5_step_def)
  qed
next
  case Ph_Authed
  then show ?thesis
    by (cases "2 \<le> length (hs_inbuf h)") (auto simp: socks5_step_def hs_grow_def Let_def nth_append)
next
  case Ph_Requested
  let ?buf = "hs_inbuf h"
  obtain r where r: "socks5_reply_len ?buf = Some r"
    and rn: "\<And>n. r = Inr (Some n) \<Longrightarrow> 4 \<le> length ?buf \<and> n \<le> length ?buf \<and> 7 \<le> n \<and>
        (?buf ! 3 = 1 \<longrightarrow> n = 10) \<and> (?buf ! 3 = 4 \<longrightarrow> n = 22)
        \<and> socks5_reply_len (?buf @ b) = Some (Inr (Some n))"
    and re: "\<And>e. r = Inl e \<Longrightarrow> socks5_reply_len (?buf @ b) = Some (Inl e)"
    using socks5_reply_len_cases[of ?buf b] by blast
  consider (err) e where "r = Inl e" | (wait) "r = Inr None" | (full) n where "r = Inr (Some n)"
    by (metis not_Some_eq sum.exhaust_sel)
  then show ?thesis
  proof cases
    case err
    with r re Ph_Requested show ?thesis by (simp add: socks5_step_def hs_grow_def)
  next
    case wait
    with r Ph_Requested show ?thesis by (simp add: socks5_step_def)
  next
    case full
    note n = rn[OF full]
    then have ne: "?buf \<noteq> []" "1 < length ?buf" by auto
    have "\<exists>bd. parse_socks5_bound (take n ?buf) = Some bd"
      using n by (intro parse_socks5_bound_total) (auto simp: min_def)
    then obtain bd where "parse_socks5_bound (take n ?buf) = Some bd" by blast
    with full r n ne Ph_Requested show ?thesis
      by (auto simp: socks5_step_def hs_grow_def nth_append Let_def)
  qed
qed

lemma build_http_connect_inbuf [simp]:
  "build_http_connect (h\<lparr>hs_inbuf := x\<rparr>) = build_http_connect h"
  by (simp add: build_http_connect_def cong: option.case_cong)

lemma hs_step_cases:
  assumes "length (hs_inbuf h @ b) \<le> HANDSHAKE_BUF_CAP"
  obtains r h' where "hs_step h [] = Some (r, h')"
    and "length (hs_inbuf h') \<le> length (hs_inbuf h)"
    and "\<And>w. r = Inr (Step_Write w) \<Longrightarrow> hs_step (hs_grow h b) [] = Some (r, hs_grow h' b)"
    and "r = Inr Step_Read \<Longrightarrow> h' = h"
    and "\<And>lo. r = Inr (Step_Done lo) \<Longrightarrow>
          \<exists>h2. hs_step (hs_grow h b) [] = Some (Inr (Step_Done (lo @ b)), h2) \<and> hs_bound h2 = hs_bound h'"
    and "\<And>e. r = Inl e \<Longrightarrow> \<exists>h2. hs_step (hs_grow h b) [] = Some (Inl e, h2)"
proof (cases "hs_machine h")
  case (M_Http sent)
  show ?thesis
  proof (cases sent)
    case False
    with M_Http assms show ?thesis
      by (intro that[of "Inr (Step_Write (build_http_connect h))" "h\<lparr>hs_machine := M_Http True\<rparr>"])
        (auto simp: hs_step_def hs_grow_def Let_def)
  next
    case True
    obtain r where r: "parse_http_reply (hs_inbuf h) = Some r" "\<And>w. r \<noteq> Inr (Step_Write w)"
      "\<And>lo. r = Inr (Step_Done lo) \<Longrightarrow> parse_http_reply (hs_inbuf h @ b) = Some (Inr (Step_Done (lo @ b)))"
      "\<And>e. r = Inl e \<Longrightarrow> parse_http_reply (hs_inbuf h @ b) = Some (Inl e)"
      using parse_http_reply_cases[of "hs_inbuf h" b] by blast
    show ?thesis
      by (rule that[of r h])
        (use M_Http True assms r in \<open>auto simp: hs_step_def hs_grow_def Let_def\<close>)
  qed
next
  case (M_Socks5 phase command)
  obtain r h' where c: "socks5_step phase command h = Some (r, h')"
    "length (hs_inbuf h') \<le> length (hs_inbuf h)"
    "\<And>w. r = Inr (Step_Write w) \<Longrightarrow> socks5_step phase command (hs_grow h b) = Some (r, hs_grow h' b)"
    "r = Inr Step_Read \<Longrightarrow> h' = h"
    "\<And>lo. r = Inr (Step_Done lo) \<Longrightarrow>
          \<exists>h2. socks5_step phase command (hs_grow h b) = Some (Inr (Step_Done (lo @ b)), h2)
              \<and> hs_bound h2 = hs_bound h'"
    "\<And>e. r = Inl e \<Longrightarrow> \<exists>h2. socks5_step phase command (hs_grow h b) = Some (Inl e, h2)"
    using socks5_step_cases[of phase command h b] by blast
  have e: "hs_step h [] = socks5_step phase command h"
    "hs_step (hs_grow h b) [] = socks5_step phase command (hs_grow h b)"
    using M_Socks5 assms by (simp_all add: hs_step_def hs_grow_def)
  show ?thesis by (rule that[of r h']) (use c e in auto)
qed

lemma hs_step_total: "\<exists>r. hs_step h x = Some r"
proof (cases "length (hs_inbuf (hs_grow h x)) \<le> HANDSHAKE_BUF_CAP")
  case True
  then have "length (hs_inbuf (hs_grow h x) @ []) \<le> HANDSHAKE_BUF_CAP" by simp
  then obtain r h' where "hs_step (hs_grow h x) [] = Some (r, h')"
    by (rule hs_step_cases)
  then show ?thesis using hs_step_grow[of h x] by simp
next
  case False
  then show ?thesis by (simp add: hs_step_def hs_grow_def Let_def)
qed

lemma hs_step_write_rank: "hs_step h x = Some (Inr (Step_Write w), h') \<Longrightarrow> hs_rank h' < hs_rank h"
proof (cases "hs_machine h")
  case (M_Http sent)
  moreover assume "hs_step h x = Some (Inr (Step_Write w), h')"
  ultimately show ?thesis
    using parse_http_reply_cases[of "hs_inbuf h @ x" "[]"]
    by (auto simp: hs_step_def Let_def split: if_splits)
next
  case (M_Socks5 phase command)
  moreover assume "hs_step h x = Some (Inr (Step_Write w), h')"
  ultimately show ?thesis
    using socks5_step_cases[of phase command "hs_grow h x" "[]"]
    by (auto simp: hs_step_def hs_grow_def Let_def split: if_splits)
qed

datatype tunnel =
    Negotiating handshake
  | Opened "sock_addr option" bytes \<comment> \<open>the relay address of a SOCKS reply, and stream bytes\<close>
  | Refused proxy_error
  | Panicked

function hs_drive :: "handshake \<Rightarrow> bytes \<Rightarrow> bytes list \<times> tunnel" where
  \<comment> \<open>the messages written and the tunnel's state after one batch of received bytes\<close>
  "hs_drive h input =
     (case hs_step h input of
        None \<Rightarrow> ([], Panicked)
      | Some (Inl e, h') \<Rightarrow> ([], Refused e)
      | Some (Inr Step_Read, h') \<Rightarrow> ([], Negotiating h')
      | Some (Inr (Step_Done leftover), h') \<Rightarrow> ([], Opened (hs_bound h') leftover)
      | Some (Inr (Step_Write w), h') \<Rightarrow> (let (ws, t) = hs_drive h' [] in (w # ws, t)))"
  by pat_completeness auto
termination
  by (relation "measure (\<lambda>(h, _). hs_rank h)") (auto simp del: hs_rank.simps dest: hs_step_write_rank)

declare hs_drive.simps [simp del]

fun hs_feed :: "tunnel \<Rightarrow> bytes \<Rightarrow> bytes list \<times> tunnel" where
  "hs_feed (Negotiating h) input = hs_drive h input"
| "hs_feed (Opened bnd lo) input = ([], Opened bnd (lo @ input))"
| "hs_feed t input = ([], t)"

fun hs_adm :: "tunnel \<Rightarrow> bytes \<Rightarrow> bool" where
  "hs_adm (Negotiating h) x = (length (hs_inbuf h) + length x \<le> HANDSHAKE_BUF_CAP)"
| "hs_adm _ x = True"

lemma hs_drive_grow: "hs_drive h x = hs_drive (hs_grow h x) []"
  by (simp add: hs_drive.simps[of h x] hs_drive.simps[of "hs_grow h x" "[]"] hs_step_grow[of h x])

lemma hs_drive_append:
  assumes "length (hs_inbuf h @ b) \<le> HANDSHAKE_BUF_CAP"
  shows "hs_drive (hs_grow h b) [] =
     (fst (hs_drive h []) @ fst (hs_feed (snd (hs_drive h [])) b), snd (hs_feed (snd (hs_drive h [])) b))
   \<and> hs_adm (snd (hs_drive h [])) b"
  using assms
proof (induction "hs_rank h" arbitrary: h rule: less_induct)
  case less
  obtain r h' where c: "hs_step h [] = Some (r, h')"
    "length (hs_inbuf h') \<le> length (hs_inbuf h)"
    "\<And>w. r = Inr (Step_Write w) \<Longrightarrow> hs_step (hs_grow h b) [] = Some (r, hs_grow h' b)"
    "r = Inr Step_Read \<Longrightarrow> h' = h"
    "\<And>lo. r = Inr (Step_Done lo) \<Longrightarrow>
          \<exists>h2. hs_step (hs_grow h b) [] = Some (Inr (Step_Done (lo @ b)), h2) \<and> hs_bound h2 = hs_bound h'"
    "\<And>e. r = Inl e \<Longrightarrow> \<exists>h2. hs_step (hs_grow h b) [] = Some (Inl e, h2)"
    using hs_step_cases[OF less.prems] by metis
  consider (err) e where "r = Inl e" | (read) "r = Inr Step_Read" | (fin) lo where "r = Inr (Step_Done lo)"
    | (wr) w where "r = Inr (Step_Write w)"
    by (metis step.exhaust sum.exhaust)
  then show ?case
  proof cases
    case err
    with c show ?thesis
      by (auto simp: hs_drive.simps[of h] hs_drive.simps[of "hs_grow h b"])
  next
    case read
    with c less.prems show ?thesis
      by (simp add: hs_drive.simps[of h "[]"] hs_drive_grow[of h b])
  next
    case fin
    with c show ?thesis
      by (auto simp: hs_drive.simps[of h] hs_drive.simps[of "hs_grow h b"])
  next
    case wr
    then have "hs_rank h' < hs_rank h" using c(1) hs_step_write_rank by simp
    moreover have "length (hs_inbuf h' @ b) \<le> HANDSHAKE_BUF_CAP" using c(2) less.prems by simp
    ultimately have "hs_drive (hs_grow h' b) [] =
       (fst (hs_drive h' []) @ fst (hs_feed (snd (hs_drive h' [])) b), snd (hs_feed (snd (hs_drive h' [])) b))
     \<and> hs_adm (snd (hs_drive h' [])) b" by (rule less.hyps)
    with c wr show ?thesis
      by (simp add: hs_drive.simps[of h "[]"] hs_drive.simps[of "hs_grow h b"] case_prod_unfold Let_def)
  qed
qed

interpretation hs: stream_machine hs_feed hs_adm
proof
  fix s and a b :: bytes
  assume adm: "hs_adm s (a @ b)"
  have "hs_feed s (a @ b) = (fst (hs_feed s a) @ fst (hs_feed (snd (hs_feed s a)) b),
          snd (hs_feed (snd (hs_feed s a)) b)) \<and> hs_adm (snd (hs_feed s a)) b"
  proof (cases s)
    case (Negotiating h)
    with adm have "length (hs_inbuf (hs_grow h a) @ b) \<le> HANDSHAKE_BUF_CAP"
      by (simp add: hs_grow_def)
    from hs_drive_append[OF this] Negotiating show ?thesis
      by (simp add: hs_drive_grow[of h "a @ b"] hs_drive_grow[of h a] hs_grow_grow)
  qed auto
  then show "hs_feed s (a @ b) = (fst (hs_feed s a) @ fst (hs_feed (snd (hs_feed s a)) b),
          snd (hs_feed (snd (hs_feed s a)) b))" "hs_adm (snd (hs_feed s a)) b" by blast+
qed

text \<open>C27: how the proxy's reply is cut into reads does not matter. For every handshake, opened
  with any credentials towards any target, any two ways of cutting the same received bytes (within
  the buffer cap) into reads send the same messages and end in the same state: still negotiating,
  refused for the same reason, or opened with the same relay address and the same early bytes.\<close>

theorem handshake_segmentation:
  assumes "cs \<noteq> []" and "ds \<noteq> []" and "concat cs = concat ds"
    and "length (hs_inbuf h) + length (concat cs) \<le> HANDSHAKE_BUF_CAP"
  shows "feed_all hs_feed (Negotiating h) cs = feed_all hs_feed (Negotiating h) ds"
  using assms by (intro hs.same_stream_same_result) auto

definition example_handshake :: handshake where
  "example_handshake =
     hs_connect \<lparr>px_kind = Proxy_Socks5, px_addr = SockAddr (V4 10 0 0 1) 1080, px_server_name = [],
                 px_username = None, px_password = None\<rparr> (SockAddr (V4 1 2 3 4) 443)"

lemma handshake_segmentation_witness:
  "feed_all hs_feed (Negotiating example_handshake) [[], [5], [0, 5, 0, 0, 1, 9, 9], [9, 9, 0, 80, 7]]
   = feed_all hs_feed (Negotiating example_handshake) [[5, 0, 5, 0, 0, 1, 9, 9, 9, 9, 0, 80, 7]]"
  by (rule handshake_segmentation) (simp_all add: example_handshake_def hs_connect_def HANDSHAKE_BUF_CAP_def)

subsection \<open>A tunnel opens only when the proxy accepts\<close>

lemma drive_requested:
  assumes "hs_drive h [] = (ws, Opened bnd lo)" and "hs_machine h = M_Socks5 Ph_Requested c"
  shows "ws = [] \<and> (\<exists>n. socks5_reply_len (hs_inbuf h) = Some (Inr (Some n)) \<and> hs_inbuf h ! 0 = 5
           \<and> hs_inbuf h ! 1 = 0 \<and> lo = drop n (hs_inbuf h))"
proof -
  obtain r where r: "socks5_reply_len (hs_inbuf h) = Some r"
    and n: "\<And>n. r = Inr (Some n) \<Longrightarrow> 4 \<le> length (hs_inbuf h) \<and> n \<le> length (hs_inbuf h)"
    using socks5_reply_len_cases[of "hs_inbuf h" "[]"] by blast
  have "index (hs_inbuf h) 0 = Some (hs_inbuf h ! 0)" "index (hs_inbuf h) 1 = Some (hs_inbuf h ! 1)"
    if "4 \<le> length (hs_inbuf h)" using that by (auto simp: index_def)
  with assms r n show ?thesis
    by (auto simp: hs_drive.simps[of h] hs_step_def socks5_step_def Let_def
        split: if_splits sum.splits option.splits bind_splits)
qed

lemma drive_write:
  assumes "hs_drive h [] = (ws, Opened bnd lo)" and "hs_step h [] = Some (Inr (Step_Write w), h')"
  obtains ws' where "ws = w # ws'" "hs_drive h' [] = (ws', Opened bnd lo)"
  using assms by (auto simp: hs_drive.simps[of h] split: prod.splits)

lemma drive_authed:
  assumes d: "hs_drive h [] = (ws, Opened bnd lo)" and m: "hs_machine h = M_Socks5 Ph_Authed c"
  shows "\<exists>v rest n. hs_inbuf h = [v, 0] @ rest \<and> socks5_reply_len rest = Some (Inr (Some n))
     \<and> rest ! 0 = 5 \<and> rest ! 1 = 0 \<and> lo = drop n rest \<and> ws = [socks5_request c (hs_target h)]"
proof (cases "hs_inbuf h")
  case Nil
  with d m show ?thesis by (simp add: hs_drive.simps[of h] hs_step_def socks5_step_def HANDSHAKE_BUF_CAP_def)
next
  case c1: (Cons v xs)
  show ?thesis
  proof (cases xs)
    case Nil
    with d m c1 show ?thesis by (simp add: hs_drive.simps[of h] hs_step_def socks5_step_def HANDSHAKE_BUF_CAP_def)
  next
    case c2: (Cons st rest)
    let ?h = "h\<lparr>hs_inbuf := rest, hs_machine := M_Socks5 Ph_Requested c\<rparr>"
    have st: "st = 0" and le: "length (hs_inbuf h) \<le> HANDSHAKE_BUF_CAP"
      using d m by (auto simp: hs_drive.simps[of h] hs_step_def socks5_step_def c1 c2 Let_def split: if_splits)
    then have "hs_step h [] = Some (Inr (Step_Write (socks5_request c (hs_target h))), ?h)"
      using m by (simp add: hs_step_def socks5_step_def c1 c2 Let_def)
    from drive_write[OF d this] obtain ws' where
      "ws = socks5_request c (hs_target h) # ws'" "hs_drive ?h [] = (ws', Opened bnd lo)" .
    with drive_requested[of ?h ws' bnd lo c] show ?thesis using c1 c2 st by auto
  qed
qed

definition socks_accepted :: "bool \<Rightarrow> bytes \<Rightarrow> bytes \<Rightarrow> bool \<Rightarrow> bool" where
  \<comment> \<open>the received bytes \<open>x\<close> select a method the client offered, accept its credentials if asked,
     and carry a success reply, after which \<open>lo\<close> remains\<close>
  "socks_accepted have_user x lo asked \<longleftrightarrow>
     (\<exists>rest n. (if asked then have_user \<and> (\<exists>v. x = [5, 2, v, 0] @ rest) else x = [5, 0] @ rest)
        \<and> socks5_reply_len rest = Some (Inr (Some n)) \<and> rest ! 0 = 5 \<and> rest ! 1 = 0 \<and> lo = drop n rest)"

definition opt_str :: "bytes option \<Rightarrow> bytes" where
  "opt_str s = (case s of None \<Rightarrow> [] | Some v \<Rightarrow> v)"

lemma drive_greeted:
  assumes d: "hs_drive h [] = (ws, Opened bnd lo)" and m: "hs_machine h = M_Socks5 Ph_Greeted c"
  shows "\<exists>asked. socks_accepted (hs_username h \<noteq> None) (hs_inbuf h) lo asked
    \<and> ws = (if asked then [socks5_userpass (opt_str (hs_username h)) (opt_str (hs_password h))] else [])
          @ [socks5_request c (hs_target h)]"
proof (cases "hs_inbuf h")
  case Nil
  with d m show ?thesis by (simp add: hs_drive.simps[of h] hs_step_def socks5_step_def HANDSHAKE_BUF_CAP_def)
next
  case c1: (Cons v xs)
  show ?thesis
  proof (cases xs)
    case Nil
    with d m c1 show ?thesis by (simp add: hs_drive.simps[of h] hs_step_def socks5_step_def HANDSHAKE_BUF_CAP_def)
  next
    case c2: (Cons me rest)
    have v: "v = 5" and me: "me = 0 \<or> me = 2 \<and> hs_username h \<noteq> None"
      and le: "length (hs_inbuf h) \<le> HANDSHAKE_BUF_CAP"
      using d m by (auto simp: hs_drive.simps[of h] hs_step_def socks5_step_def c1 c2 Let_def split: if_splits)
    show ?thesis
    proof (cases "me = 0")
      case True
      let ?h = "h\<lparr>hs_inbuf := rest, hs_machine := M_Socks5 Ph_Requested c\<rparr>"
      have "hs_step h [] = Some (Inr (Step_Write (socks5_request c (hs_target h))), ?h)"
        using m v le True by (simp add: hs_step_def socks5_step_def c1 c2 Let_def)
      from drive_write[OF d this] obtain ws' where
        "ws = socks5_request c (hs_target h) # ws'" "hs_drive ?h [] = (ws', Opened bnd lo)" .
      with drive_requested[of ?h ws' bnd lo c] show ?thesis
        using c1 c2 v True by (intro exI[of _ False]) (auto simp: socks_accepted_def)
    next
      case False
      let ?h = "h\<lparr>hs_inbuf := rest, hs_machine := M_Socks5 Ph_Authed c\<rparr>"
      let ?w = "socks5_userpass (opt_str (hs_username h)) (opt_str (hs_password h))"
      have "hs_step h [] = Some (Inr (Step_Write ?w), ?h)"
        using m v le me False by (auto simp: hs_step_def socks5_step_def c1 c2 Let_def opt_str_def)
      from drive_write[OF d this] obtain ws' where
        "ws = ?w # ws'" "hs_drive ?h [] = (ws', Opened bnd lo)" .
      with drive_authed[of ?h ws' bnd lo c] show ?thesis
        using c1 c2 v me False by (intro exI[of _ True]) (auto simp: socks_accepted_def)
    qed
  qed
qed

definition http_accepted :: "bytes \<Rightarrow> bytes \<Rightarrow> bool" where
  "http_accepted x lo \<longleftrightarrow>
     (\<exists>e i v code rest c. find_headers_end x = Some e \<and> lo = drop e x \<and> position (\<lambda>b. b = 13) x = Some i
        \<and> split_on 32 (take i x) = v # code # rest \<and> parse_radix 10 65535 code = Some c
        \<and> 200 \<le> c \<and> c < 300)"

lemma parse_http_reply_done: "parse_http_reply x = Some (Inr (Step_Done lo)) \<Longrightarrow> http_accepted x lo"
proof -
  assume a: "parse_http_reply x = Some (Inr (Step_Done lo))"
  then obtain e where e: "find_headers_end x = Some e"
    by (cases "find_headers_end x") (auto simp: parse_http_reply_def)
  from header_end_has_cr[OF e] obtain i where i: "position (\<lambda>b. b = 13) x = Some i" "i < length x" by blast
  from a e i find_headers_end_bound[OF e] show ?thesis
    by (auto simp: parse_http_reply_def http_accepted_def split: list.splits option.splits if_splits)
qed

lemma drive_http:
  assumes "hs_drive h [] = (ws, Opened bnd lo)" and "hs_machine h = M_Http True"
  shows "http_accepted (hs_inbuf h) lo \<and> ws = []"
proof -
  obtain r where r: "parse_http_reply (hs_inbuf h) = Some r" "\<And>w. r \<noteq> Inr (Step_Write w)"
    using parse_http_reply_cases[of "hs_inbuf h" "[]"] by blast
  have st: "hs_step h [] =
      (if length (hs_inbuf h) > HANDSHAKE_BUF_CAP then Some (Inl HeaderTooLarge, h) else Some (r, h))"
    using assms(2) r(1) by (simp add: hs_step_def Let_def)
  have "r = Inr (Step_Done lo) \<and> ws = []"
  proof (cases r)
    case (Inl e)
    with assms(1) st show ?thesis by (simp add: hs_drive.simps[of h] split: if_splits)
  next
    case (Inr x)
    show ?thesis
    proof (cases x)
      case (Step_Write w)
      with Inr r(2) show ?thesis by blast
    qed (use Inr assms(1) st in \<open>simp_all add: hs_drive.simps[of h] split: if_splits\<close>)
  qed
  with r(1) show ?thesis by (simp add: parse_http_reply_done)
qed

text \<open>C26: a tunnel opens only when the proxy accepts. Whatever bytes arrive in whatever reads, the
  handshake of a CONNECT opens only after, for SOCKS5, a method the client offered, a zero status for
  the credentials if they were asked for, and a success reply; for HTTP and HTTPS, a complete header
  with a 2xx status. What was sent is exactly the protocol's messages for this target, credentials
  only when the SOCKS5 proxy asked for them, and every byte after the reply is kept for the stream.\<close>

theorem tunnel_opens_only_on_acceptance:
  assumes "feed_all hs_feed (Negotiating (hs_connect p target)) cs = (ws, Opened bnd lo)"
    and "cs \<noteq> []" and "length (concat cs) \<le> HANDSHAKE_BUF_CAP"
  shows "if px_kind p = Proxy_Socks5
    then \<exists>asked. socks_accepted (px_username p \<noteq> None) (concat cs) lo asked
      \<and> ws = [socks5_greeting (px_username p \<noteq> None)]
          @ (if asked then [socks5_userpass (opt_str (px_username p)) (opt_str (px_password p))] else [])
          @ [socks5_request Socks_Connect target]
    else http_accepted (concat cs) lo \<and> ws = [build_http_connect (hs_connect p target)]"
proof -
  let ?h = "hs_grow (hs_connect p target) (concat cs)"
  have "feed_all hs_feed (Negotiating (hs_connect p target)) cs
      = hs_feed (Negotiating (hs_connect p target)) (concat cs)"
    using assms(2,3) by (intro hs.segmentation) (simp_all add: hs_connect_def)
  with assms(1) have d: "hs_drive ?h [] = (ws, Opened bnd lo)"
    by (simp add: hs_drive_grow[of _ "concat cs"])
  show ?thesis
  proof (cases "px_kind p = Proxy_Socks5")
    case True
    let ?g = "?h\<lparr>hs_machine := M_Socks5 Ph_Greeted Socks_Connect\<rparr>"
    have "hs_step ?h [] = Some (Inr (Step_Write (socks5_greeting (px_username p \<noteq> None))), ?g)"
      using True assms(3) by (simp add: hs_step_def hs_grow_def hs_connect_def socks5_step_def Let_def)
    from drive_write[OF d this] obtain ws' where
      ws: "ws = socks5_greeting (px_username p \<noteq> None) # ws'" "hs_drive ?g [] = (ws', Opened bnd lo)" .
    have g: "hs_machine ?g = M_Socks5 Ph_Greeted Socks_Connect" "hs_username ?g = px_username p"
      "hs_password ?g = px_password p" "hs_target ?g = target" "hs_inbuf ?g = concat cs"
      by (simp_all add: hs_grow_def hs_connect_def)
    from drive_greeted[OF ws(2) g(1)] obtain asked where
      acc: "socks_accepted (px_username p \<noteq> None) (concat cs) lo asked"
      and wr: "ws' = (if asked then [socks5_userpass (opt_str (px_username p)) (opt_str (px_password p))] else [])
          @ [socks5_request Socks_Connect target]"
      unfolding g(2-5) by blast
    show ?thesis
      unfolding if_P[OF True] ws(1) wr by (intro exI[of _ asked] conjI acc) simp
  next
    case False
    let ?g = "?h\<lparr>hs_machine := M_Http True\<rparr>"
    have "hs_step ?h [] = Some (Inr (Step_Write (build_http_connect (hs_connect p target))), ?g)"
    proof -
      have "hs_machine (hs_connect p target) = M_Http False" "hs_inbuf (hs_connect p target) = []"
        using False by (simp_all add: hs_connect_def)
      with assms(3) show ?thesis by (simp add: hs_step_def hs_grow_def Let_def)
    qed
    from drive_write[OF d this] obtain ws' where
      ws: "ws = build_http_connect (hs_connect p target) # ws'" "hs_drive ?g [] = (ws', Opened bnd lo)" .
    from drive_http[OF ws(2)] ws(1) False show ?thesis
      by (simp add: hs_grow_def hs_connect_def)
  qed
qed

lemma tunnel_opens_only_on_acceptance_witness:
  "socks_accepted False (concat [[5, 0], [5, 0, 0, 1, 9, 9, 9, 9, 0, 80, 7]]) [7] False"
proof -
  have "feed_all hs_feed (Negotiating example_handshake) [[5, 0], [5, 0, 0, 1, 9, 9, 9, 9, 0, 80, 7]]
     = ([socks5_greeting False, socks5_request Socks_Connect (SockAddr (V4 1 2 3 4) 443)],
        Opened (Some (SockAddr (V4 9 9 9 9) 80)) [7])"
    by code_simp
  from tunnel_opens_only_on_acceptance[OF this[unfolded example_handshake_def]] obtain asked where
    "socks_accepted False (concat [[5, 0], [5, 0, 0, 1, 9, 9, 9, 9, 0, 80, 7]]) [7] asked"
    by (auto simp: HANDSHAKE_BUF_CAP_def)
  then show ?thesis by (cases asked) (simp_all add: socks_accepted_def)
qed

subsection \<open>SOCKS addresses\<close>

lemma length_16_split:
  assumes "length (os :: bytes) = 16"
  shows "\<exists>a b c d e f g h i j k l m n p q. os = [a, b, c, d, e, f, g, h, i, j, k, l, m, n, p, q]"
  using assms by (auto simp: numeral_eq_Suc length_Suc_conv)

text \<open>Addresses survive the SOCKS5 wire format. Decapsulating an encapsulated datagram gives
  back exactly its peer and payload, and a success reply carrying an address (followed by anything)
  has exactly the reply's length and yields exactly that address, for every IPv4 and IPv6 peer.\<close>

theorem socks_addr_roundtrip:
  assumes "wf_sock a"
  shows "socks5_udp_decapsulate (socks5_udp_encapsulate a payload) = Some (Some (a, payload))
    \<and> socks5_reply_len ([5, 0, 0] @ socks_addr a @ payload) = Some (Inr (Some (3 + length (socks_addr a))))
    \<and> parse_socks5_bound ([5, 0, 0] @ socks_addr a) = Some (Some a)"
proof (cases a)
  case (SockAddr ip p)
  show ?thesis
  proof (cases ip)
    case (V4 x y z w)
    with SockAddr show ?thesis
      by (simp add: socks5_udp_decapsulate_def socks5_udp_encapsulate_def socks5_reply_len_def
          parse_socks5_bound_def be16_def Let_def slice_def)
  next
    case (V6 os)
    with assms SockAddr have l: "length os = 16" by (simp add: wf_sock_def)
    have d: "socks5_udp_encapsulate (SockAddr (V6 os) p) payload = 0 # 0 # 0 # 4 # os @ be16 p @ payload"
      by (simp add: socks5_udp_encapsulate_def)
    have s4: "slice ([u, v, w, 4] @ os @ r) 4 20 = Some os" for u v w and r
      using slice_mid[of "[u, v, w, 4]" 4 20 os r] l by simp
    have i: "index ([u, v, w, 4] @ os @ be16 p @ r) 20 = Some (word_of_nat (unat p div 256))"
      "index ([u, v, w, 4] @ os @ be16 p @ r) 21 = Some (word_of_nat (unat p))" for u v w and r
      using l by (simp_all add: nth_append be16_def)
    show ?thesis
      using l s4 i SockAddr V6 i[of 5 0 0 "[]"] s4[of 5 0 0 "be16 p"]
      by (simp add: d socks5_udp_decapsulate_def socks5_reply_len_def parse_socks5_bound_def Let_def)
  qed
qed

lemma socks_addr_roundtrip_witness:
  "socks5_udp_decapsulate (socks5_udp_encapsulate (SockAddr (V6 (replicate 16 7)) 53) [1, 2])
     = Some (Some (SockAddr (V6 (replicate 16 7)) 53, [1, 2]))"
  using socks_addr_roundtrip[of "SockAddr (V6 (replicate 16 7)) 53" "[1, 2]"] by (simp add: wf_sock_def)

end
