(* ===== verification/Http_Forward.thy ===== *)
theory Http_Forward
  imports Rust_Text Stream_Machine
begin

section \<open>Absolute-form forwarding of plaintext HTTP requests\<close>

text \<open>
  \<open>rust/core/src/http_forward.rs\<close>: the streaming rewriter that turns each request line of the
  app's byte stream into absolute form for an HTTP proxy and streams bodies through. A slice of the
  source that is bounded by the search before it is a \<open>take\<close> or \<open>drop\<close> here.
\<close>

definition MAX_HEAD :: nat where
  "MAX_HEAD = 64 * 1024"

datatype http_forward_error = HeadTooLarge | BadRequestLine | ChunkedBodyUnsupported

datatype hf_state = Hf_Head | Hf_Body nat

record http_forward =
  hf_fallback :: bytes
  hf_state :: hf_state
  hf_head :: bytes

definition hf_new :: "bytes \<Rightarrow> http_forward" where
  "hf_new fallback_authority =
     \<lparr>hf_fallback = fallback_authority, hf_state = Hf_Head, hf_head = []\<rparr>"

subsection \<open>Heads\<close>

definition split_header :: "bytes \<Rightarrow> (bytes \<times> bytes) option" where
  "split_header line =
     (if \<not> utf8_valid line then None
      else map_option (\<lambda>(name, value). (trim_end name, trim_start value)) (split_once 58 line))"

function split_crlf :: "bytes \<Rightarrow> bytes list" where
  "split_crlf data =
     (if data = [] then []
      else case find_sub CRLF data of
        Some pos \<Rightarrow> take pos data # split_crlf (drop (pos + 2) data)
      | None \<Rightarrow> [data])"
  by pat_completeness auto
termination
  by (relation "measure length") auto

declare split_crlf.simps [simp del]

definition parse_request_line :: "bytes \<Rightarrow> http_forward_error + bytes \<times> bytes \<times> bytes" where
  "parse_request_line line =
     (if \<not> utf8_valid line then Inl BadRequestLine
      else
        let parts = splitn 3 32 line;
            part = (\<lambda>i. if i < length parts then parts ! i else []);
            meth = part 0; target = part 1; version = part 2
        in if meth = [] \<or> target = [] \<or> \<not> prefix (asc ''HTTP/'') version then Inl BadRequestLine
           else Inr (meth, target, version))"

record head_scan =
  sc_host :: "bytes option"
  sc_length :: nat
  sc_chunked :: bool

fun scan_headers :: "bytes list \<Rightarrow> head_scan \<Rightarrow> head_scan" where
  "scan_headers [] s = s"
| "scan_headers (line # lines) s =
     (if line = [] then s
      else case split_header line of
        None \<Rightarrow> scan_headers lines s
      | Some (name, value) \<Rightarrow>
          scan_headers lines
            (if eq_ignore_case name (asc ''host'') then s\<lparr>sc_host := Some value\<rparr>
             else if eq_ignore_case name (asc ''content-length'')
             then s\<lparr>sc_length := (case parse_radix 10 (2 ^ 64 - 1) (trim value) of None \<Rightarrow> 0 | Some n \<Rightarrow> n)\<rparr>
             else if eq_ignore_case name (asc ''transfer-encoding'')
                     \<and> find_sub (asc ''chunked'') (to_lower value) \<noteq> None
             then s\<lparr>sc_chunked := True\<rparr>
             else s))"

definition rewrite_head :: "bytes \<Rightarrow> bytes \<Rightarrow> http_forward_error + bytes \<times> nat" where
  \<comment> \<open>the bytes to emit and the length of the request's body\<close>
  "rewrite_head head fallback =
     (case find_sub CRLF head of
        None \<Rightarrow> Inl BadRequestLine
      | Some first_crlf \<Rightarrow>
          let request_line = take first_crlf head; rest = drop (first_crlf + 2) head
          in case parse_request_line request_line of
               Inl e \<Rightarrow> Inl e
             | Inr (meth, target, version) \<Rightarrow>
                 let s = scan_headers (split_crlf rest) \<lparr>sc_host = None, sc_length = 0, sc_chunked = False\<rparr>
                 in if sc_chunked s then Inl ChunkedBodyUnsupported
                    else if prefix [47] target then
                      let authority = (case map_option trim (sc_host s) of
                                         None \<Rightarrow> fallback | Some h \<Rightarrow> if h = [] then fallback else h)
                      in Inr (meth @ asc '' http://'' @ authority @ target @ [32] @ version @ CRLF @ rest,
                              sc_length s)
                    else Inr (request_line @ CRLF @ rest, sc_length s))"

subsection \<open>The stream\<close>

function hf_push_loop :: "http_forward \<Rightarrow> bytes \<Rightarrow> bytes \<Rightarrow> (http_forward_error + bytes) \<times> http_forward"
where
  "hf_push_loop f input out =
     (if input = [] then (Inr out, f)
      else case hf_state f of
        Hf_Head \<Rightarrow>
          let prev = length (hf_head f); head = hf_head f @ input
          in (case find_sub (CRLF @ CRLF) head of
                Some pos \<Rightarrow>
                  let head_end = pos + 4
                  in (case rewrite_head (take head_end head) (hf_fallback f) of
                        Inl e \<Rightarrow> (Inl e, f\<lparr>hf_head := head\<rparr>)
                      | Inr (o', body_len) \<Rightarrow>
                          let consumed = min (head_end - prev) (length input)
                          in hf_push_loop
                               (f\<lparr>hf_head := [], hf_state := (if body_len > 0 then Hf_Body body_len else Hf_Head)\<rparr>)
                               (drop consumed input) (out @ o'))
              | None \<Rightarrow>
                  if length head > MAX_HEAD then (Inl HeadTooLarge, f\<lparr>hf_head := head\<rparr>)
                  else (Inr out, f\<lparr>hf_head := head\<rparr>))
      | Hf_Body remaining \<Rightarrow>
          let tk = min remaining (length input)
          in hf_push_loop
               (f\<lparr>hf_state := (if remaining - tk = 0 then Hf_Head else Hf_Body (remaining - tk))\<rparr>)
               (drop tk input) (out @ take tk input))"
  by pat_completeness auto
termination
proof (relation "measures [\<lambda>(f, input, _). length (hf_head f) + length input,
    \<lambda>(f, _, _). case hf_state f of Hf_Head \<Rightarrow> 0 | Hf_Body _ \<Rightarrow> 1]", goal_cases)
  case 1
  show ?case by simp
next
  case (2 f input out prev head pos head_end o' n consumed)
  then have "0 < length input" by simp
  with 2 show ?case by (cases "hf_head f") auto
next
  case (3 f input out remaining tk)
  then have "0 < length input" by simp
  with 3 show ?case by (cases "tk = 0") (auto simp: min_def split: if_splits)
qed

declare hf_push_loop.simps [simp del]

definition hf_push :: "http_forward \<Rightarrow> bytes \<Rightarrow> (http_forward_error + bytes) \<times> http_forward" where
  "hf_push f input = hf_push_loop f input []"

subsection \<open>Segmentation\<close>

lemma hf_loop_Nil [simp]: "hf_push_loop f [] out = (Inr out, f)"
  by (simp add: hf_push_loop.simps)

lemma hf_loop_wait:
  assumes "hf_state f = Hf_Head" and "input \<noteq> []" and "find_sub (CRLF @ CRLF) (hf_head f @ input) = None"
  shows "hf_push_loop f input out =
    (if length (hf_head f @ input) > MAX_HEAD then (Inl HeadTooLarge, f\<lparr>hf_head := hf_head f @ input\<rparr>)
     else (Inr out, f\<lparr>hf_head := hf_head f @ input\<rparr>))"
  using assms by (subst hf_push_loop.simps) (simp add: Let_def)

lemma hf_loop_reject:
  assumes "hf_state f = Hf_Head" and "input \<noteq> []" and "find_sub (CRLF @ CRLF) (hf_head f @ input) = Some pos"
    and "rewrite_head (take (pos + 4) (hf_head f @ input)) (hf_fallback f) = Inl e"
  shows "hf_push_loop f input out = (Inl e, f\<lparr>hf_head := hf_head f @ input\<rparr>)"
  using assms by (subst hf_push_loop.simps) (simp add: Let_def)

definition hf_next :: "http_forward \<Rightarrow> nat \<Rightarrow> http_forward" where
  "hf_next f n = f\<lparr>hf_head := [], hf_state := (if n > 0 then Hf_Body n else Hf_Head)\<rparr>"

lemma hf_loop_head:
  assumes "hf_state f = Hf_Head" and "input \<noteq> []" and "find_sub (CRLF @ CRLF) (hf_head f @ input) = Some pos"
    and "rewrite_head (take (pos + 4) (hf_head f @ input)) (hf_fallback f) = Inr (q, n)"
  shows "hf_push_loop f input out = hf_push_loop (hf_next f n) (drop (pos + 4 - length (hf_head f)) input) (out @ q)"
proof -
  have "pos + 4 \<le> length (hf_head f @ input)" using find_sub_bound[OF assms(3)] by (simp add: CRLF_def)
  then have "min (pos + 4 - length (hf_head f)) (length input) = pos + 4 - length (hf_head f)" by simp
  with assms show ?thesis by (subst hf_push_loop.simps) (simp add: Let_def hf_next_def)
qed

lemma hf_loop_body:
  assumes "hf_state f = Hf_Body n" and "input \<noteq> []"
  shows "hf_push_loop f input out =
    (let t = min n (length input)
     in hf_push_loop (f\<lparr>hf_state := (if n - t = 0 then Hf_Head else Hf_Body (n - t))\<rparr>) (drop t input) (out @ take t input))"
  using assms by (subst hf_push_loop.simps) (simp add: Let_def)

text \<open>Induction over the iterations of the loop.\<close>

lemma hf_loop_induct [case_names nil wait reject head body]:
  assumes "\<And>f out. P f [] out"
    and "\<And>f input out. hf_state f = Hf_Head \<Longrightarrow> input \<noteq> [] \<Longrightarrow>
          find_sub (CRLF @ CRLF) (hf_head f @ input) = None \<Longrightarrow> P f input out"
    and "\<And>f input out pos e. hf_state f = Hf_Head \<Longrightarrow> input \<noteq> [] \<Longrightarrow>
          find_sub (CRLF @ CRLF) (hf_head f @ input) = Some pos \<Longrightarrow>
          rewrite_head (take (pos + 4) (hf_head f @ input)) (hf_fallback f) = Inl e \<Longrightarrow> P f input out"
    and "\<And>f input out pos q n. hf_state f = Hf_Head \<Longrightarrow> input \<noteq> [] \<Longrightarrow>
          find_sub (CRLF @ CRLF) (hf_head f @ input) = Some pos \<Longrightarrow>
          rewrite_head (take (pos + 4) (hf_head f @ input)) (hf_fallback f) = Inr (q, n) \<Longrightarrow>
          P (hf_next f n) (drop (pos + 4 - length (hf_head f)) input) (out @ q) \<Longrightarrow> P f input out"
    and "\<And>f input out n. hf_state f = Hf_Body n \<Longrightarrow> input \<noteq> [] \<Longrightarrow>
          P (f\<lparr>hf_state := (if n - min n (length input) = 0 then Hf_Head else Hf_Body (n - min n (length input)))\<rparr>)
            (drop (min n (length input)) input) (out @ take (min n (length input)) input) \<Longrightarrow> P f input out"
  shows "P f input out"
proof (induction f input out rule: hf_push_loop.induct)
  case (1 f input out)
  consider "input = []" | (wait) "input \<noteq> []" "hf_state f = Hf_Head" "find_sub (CRLF @ CRLF) (hf_head f @ input) = None"
    | (found) pos where "input \<noteq> []" "hf_state f = Hf_Head" "find_sub (CRLF @ CRLF) (hf_head f @ input) = Some pos"
    | (body) n where "input \<noteq> []" "hf_state f = Hf_Body n"
    by (metis hf_state.exhaust option.exhaust)
  then show ?case
  proof cases
    case found
    then have "pos + 4 \<le> length (hf_head f @ input)" using find_sub_bound[OF found(3)] by (simp add: CRLF_def)
    then have m: "min (pos + 4 - length (hf_head f)) (length input) = pos + 4 - length (hf_head f)" by simp
    show ?thesis
    proof (cases "rewrite_head (take (pos + 4) (hf_head f @ input)) (hf_fallback f)")
      case (Inl e)
      with found assms(3) show ?thesis by blast
    next
      case (Inr r)
      obtain q n where r: "r = (q, n)" by (cases r)
      from "1.IH"(1)[OF found(1,2) refl refl found(3) refl Inr r[symmetric] refl]
      show ?thesis using found Inr r assms(4) unfolding hf_next_def m by blast
    qed
  next
    case body
    from "1.IH"(2)[OF body refl] body assms(5) show ?thesis by blast
  qed (use assms(1,2) in auto)
qed

lemma hf_push_loop_append:
  "hf_push_loop f a out = (Inr o', f') \<Longrightarrow> hf_push_loop f (a @ b) out = hf_push_loop f' b o'"
proof (induction f a out rule: hf_loop_induct)
  case (nil f out)
  then show ?case by simp
next
  case (wait f input out)
  then have f': "f' = f\<lparr>hf_head := hf_head f @ input\<rparr>" "o' = out"
    by (auto simp: hf_loop_wait split: if_splits)
  show ?case
  proof (cases "b = []")
    case True
    with wait f' show ?thesis by simp
  next
    case b: False
    show ?thesis
    proof (cases "find_sub (CRLF @ CRLF) (hf_head f @ input @ b)")
      case None
      with b wait f' show ?thesis by (simp add: hf_loop_wait)
    next
      case (Some pos)
      then have late: "length (hf_head f @ input) < pos + 4"
        using find_sub_append_late[OF wait(3), of b pos] by (simp add: CRLF_def)
      then have d: "drop (pos + 4 - length (hf_head f)) (input @ b) = drop (pos + 4 - length (hf_head f @ input)) b"
        by simp
      show ?thesis
      proof (cases "rewrite_head (take (pos + 4) (hf_head f @ input @ b)) (hf_fallback f)")
        case (Inl e)
        then show ?thesis
          using hf_loop_reject[of f "input @ b" pos e] hf_loop_reject[of f' b pos e] Some wait(1,2) b f' by simp
      next
        case (Inr r)
        obtain q n where r: "r = (q, n)" by (cases r)
        have "hf_next f' n = hf_next f n" by (simp add: f' hf_next_def)
        then show ?thesis
          using hf_loop_head[of f "input @ b" pos q n] hf_loop_head[of f' b pos q n] Some wait(1,2) b f' Inr r d
          by simp
      qed
    qed
  qed
next
  case (reject f input out pos e)
  then show ?case by (simp add: hf_loop_reject)
next
  case (head f input out pos q n)
  have bd: "pos + 4 \<le> length (hf_head f @ input)" using find_sub_bound[OF head(3)] by (simp add: CRLF_def)
  then have d: "drop (pos + 4 - length (hf_head f)) (input @ b) = drop (pos + 4 - length (hf_head f)) input @ b"
    and t: "take (pos + 4) (hf_head f @ input @ b) = take (pos + 4) (hf_head f @ input)" by simp_all
  have fs: "find_sub (CRLF @ CRLF) (hf_head f @ input @ b) = Some pos"
    using find_sub_append_Some[OF head(3), of b] by simp
  have rw: "rewrite_head (take (pos + 4) (hf_head f @ input @ b)) (hf_fallback f) = Inr (q, n)"
    unfolding t by (rule head(4))
  have "hf_push_loop f (input @ b) out = hf_push_loop (hf_next f n) (drop (pos + 4 - length (hf_head f)) input @ b) (out @ q)"
    using hf_loop_head[OF head(1) _ fs rw, of out] head(2) unfolding d by simp
  also have "\<dots> = hf_push_loop f' b o'"
    using head(5,6) hf_loop_head[OF head(1-4), of out] by simp
  finally show ?case .
next
  case (body f input out n)
  let ?t = "min n (length input)"
  show ?case
  proof (cases "b = []")
    case True
    with body.prems show ?thesis by simp
  next
    case b: False
    show ?thesis
    proof (cases "n \<le> length input")
      case True
      then have t: "min n (length (input @ b)) = ?t" by simp
      have "hf_push_loop f (input @ b) out =
          hf_push_loop (f\<lparr>hf_state := (if n - ?t = 0 then Hf_Head else Hf_Body (n - ?t))\<rparr>) (drop ?t input @ b) (out @ take ?t input)"
        using hf_loop_body[OF body(1), of "input @ b" out] body(2) True unfolding t by (simp add: Let_def)
      also have "\<dots> = hf_push_loop f' b o'"
        using body(3,4) hf_loop_body[OF body(1,2), of out] by (simp add: Let_def)
      finally show ?thesis .
    next
      case False
      then have f': "f' = f\<lparr>hf_state := Hf_Body (n - length input)\<rparr>" "o' = out @ input"
        using body(4) hf_loop_body[OF body(1,2), of out] by (auto simp: Let_def)
      have tk: "take (min n (length input + length b)) (input @ b) = input @ take (min (n - length input) (length b)) b"
        "drop (min n (length input + length b)) (input @ b) = drop (min (n - length input) (length b)) b"
        "n - min n (length input + length b) = n - length input - min (n - length input) (length b)"
        using False by (auto simp: min_def)
      show ?thesis
        unfolding f' using hf_loop_body[OF body(1), of "input @ b" out] body(2) tk
          hf_loop_body[of "f\<lparr>hf_state := Hf_Body (n - length input)\<rparr>" "n - length input" b "out @ input"] b
        by (simp add: Let_def)
    qed
  qed
qed

text \<open>Both tunnels and a failed flow as one machine: a failed flow emits nothing more.\<close>

datatype hf_flow = Hf_Ok http_forward | Hf_Failed http_forward_error

fun hf_feed :: "hf_flow \<Rightarrow> bytes \<Rightarrow> bytes \<times> hf_flow" where
  "hf_feed (Hf_Ok f) x =
     (case hf_push f x of (Inr o', f') \<Rightarrow> (o', Hf_Ok f') | (Inl e, f') \<Rightarrow> ([], Hf_Failed e))"
| "hf_feed (Hf_Failed e) x = ([], Hf_Failed e)"

lemma hf_push_loop_prefix:
  "hf_push_loop f i (p @ out) =
     (case hf_push_loop f i out of (Inr o', f') \<Rightarrow> (Inr (p @ o'), f') | (Inl e, f') \<Rightarrow> (Inl e, f'))"
proof (induction f i out rule: hf_loop_induct)
  case (head f input out pos q n)
  then show ?case using hf_loop_head[OF head(1-4)] by (simp add: append_assoc[symmetric] del: append_assoc)
next
  case (body f input out n)
  then show ?case using hf_loop_body[OF body(1,2)] by (simp add: Let_def append_assoc[symmetric] del: append_assoc)
qed (simp_all add: hf_loop_wait hf_loop_reject)

lemma hf_push_loop_out:
  "hf_push_loop f i out =
     (case hf_push_loop f i [] of (Inr o', f') \<Rightarrow> (Inr (out @ o'), f') | (Inl e, f') \<Rightarrow> (Inl e, f'))"
  using hf_push_loop_prefix[of f i out "[]"] by simp

lemma hf_push_append:
  assumes "hf_push f a = (Inr o1, f1)"
  shows "hf_push f (a @ b) =
    (case hf_push f1 b of (Inr o2, f2) \<Rightarrow> (Inr (o1 @ o2), f2) | (Inl e, f2) \<Rightarrow> (Inl e, f2))"
  using hf_push_loop_append[of f a "[]" o1 f1 b] assms hf_push_loop_out[of f1 b o1]
  by (simp add: hf_push_def)

text \<open>C31: forwarding does not depend on how TCP cuts the stream. As long as the flow is not failed,
  pushing the reads one by one emits exactly what pushing the whole stream at once emits, and leaves
  the same state; two ways of cutting the same stream that are both accepted therefore agree.\<close>

theorem http_forward_segmentation:
  assumes "feed_all hf_feed (Hf_Ok f) cs = (out, Hf_Ok f')"
  shows "hf_push f (concat cs) = (Inr out, f')"
  using assms
proof (induction cs arbitrary: f out)
  case Nil
  then show ?case by (simp add: hf_push_def hf_push_loop.simps)
next
  case (Cons c cs)
  have fail: "feed_all hf_feed (Hf_Failed e) cs = ([], Hf_Failed e)" for e cs
    by (induction cs) auto
  obtain r f1 where r: "hf_push f c = (r, f1)" by (cases "hf_push f c")
  show ?case
  proof (cases r)
    case (Inl e)
    with Cons.prems r show ?thesis by (simp add: fail)
  next
    case (Inr o1)
    with Cons.prems r obtain o2 where "feed_all hf_feed (Hf_Ok f1) cs = (o2, Hf_Ok f')" "out = o1 @ o2"
      by (auto split: prod.splits)
    with Cons.IH[of f1 o2] hf_push_append[of f c o1 f1 "concat cs"] r Inr show ?thesis by simp
  qed
qed

subsection \<open>Framing\<close>

definition hf_request :: "bytes \<Rightarrow> bytes \<times> bytes \<Rightarrow> bytes \<Rightarrow> bool" where
  \<comment> \<open>a head that ends at its first blank line and is rewritten to \<open>o'\<close>, with a body of the
    announced length\<close>
  "hf_request fb r o' \<longleftrightarrow>
     find_sub (CRLF @ CRLF) (fst r) = Some (length (fst r) - 4)
     \<and> rewrite_head (fst r) fb = Inr (o', length (snd r))"

lemma hf_push_loop_request:
  assumes "hf_request fb (h, b) o'"
  shows "hf_push_loop (hf_new fb) (h @ b @ rest) out = hf_push_loop (hf_new fb) rest (out @ o' @ b)"
proof -
  from assms have f: "find_sub (CRLF @ CRLF) h = Some (length h - 4)" and r: "rewrite_head h fb = Inr (o', length b)"
    by (simp_all add: hf_request_def)
  have l: "4 \<le> length h" using find_sub_bound[OF f] by (simp add: CRLF_def)
  have hne: "h \<noteq> []" using l by auto
  have "find_sub (CRLF @ CRLF) (h @ b @ rest) = Some (length h - 4)"
    using find_sub_append_Some[OF f] by simp
  then have "hf_push_loop (hf_new fb) (h @ b @ rest) out = hf_push_loop (hf_next (hf_new fb) (length b)) (b @ rest) (out @ o')"
    using hf_loop_head[of "hf_new fb" "h @ b @ rest" "length h - 4" o' "length b"] hne l r by (simp add: hf_new_def)
  also have "\<dots> = hf_push_loop (hf_new fb) rest (out @ o' @ b)"
  proof (cases "b = []")
    case True
    then show ?thesis by (simp add: hf_new_def hf_next_def)
  next
    case False
    then show ?thesis
      using hf_loop_body[of "hf_next (hf_new fb) (length b)" "length b" "b @ rest"]
      by (simp add: hf_new_def hf_next_def Let_def)
  qed
  finally show ?thesis .
qed

text \<open>Requests stay framed. For any pipeline of requests, each with a head that the rewriter
  accepts and a body of the length the head announces, the proxy receives exactly the rewritten heads
  with their bodies verbatim, in order, and the rewriter is then ready for the next head: no body
  byte is ever read as a head or a head byte passed through as a body.\<close>

theorem http_forward_framing:
  assumes "list_all2 (hf_request fb) reqs outs"
  shows "hf_push (hf_new fb) (concat (map (\<lambda>(h, b). h @ b) reqs))
    = (Inr (concat (map2 (\<lambda>o' (h, b). o' @ b) outs reqs)), hf_new fb)"
proof -
  have "hf_push_loop (hf_new fb) (concat (map (\<lambda>(h, b). h @ b) reqs)) out
    = (Inr (out @ concat (map2 (\<lambda>o' (h, b). o' @ b) outs reqs)), hf_new fb)" for out
    using assms
  proof (induction arbitrary: out rule: list_all2_induct)
    case Nil
    then show ?case by (simp add: hf_push_loop.simps)
  next
    case (Cons r reqs o' outs)
    obtain h b where "r = (h, b)" by (cases r)
    with Cons show ?case by (simp add: hf_push_loop_request)
  qed
  then show ?thesis by (simp add: hf_push_def)
qed

definition example_head :: bytes where
  "example_head = asc ''POST /x HTTP/1.1'' @ CRLF @ asc ''Host: a.b'' @ CRLF @ asc ''Content-Length: 2'' @ CRLF @ CRLF"

definition example_forwarded :: bytes where
  "example_forwarded = asc ''POST http://a.b/x HTTP/1.1'' @ CRLF @ asc ''Host: a.b'' @ CRLF @ asc ''Content-Length: 2'' @ CRLF @ CRLF"

lemma http_forward_segmentation_witness:
  "hf_push (hf_new [49]) (concat [take 20 example_head, drop 20 example_head @ [1], [2]])
     = (Inr (example_forwarded @ [1, 2]), hf_new [49])"
  by (rule http_forward_segmentation) code_simp

end
