(* ===== verification/Event_Codec.thy ===== *)
theory Event_Codec
  imports Packet
begin

unbundle bit_operations_syntax

section \<open>The event batch of the Rust to Kotlin upcall\<close>

text \<open>
  \<open>rust/core/src/event.rs\<close> encodes the datapath's events as one little-endian blob;
  \<open>NativeEventCodec.kt\<close> decodes it. Both sides are modelled. The wall clock is an argument \<open>now\<close>.
  The decoder's addresses stay address values (the platform prints them), and a \<open>Long\<close> or \<open>Int\<close>
  that carries a counter is its unsigned value.
\<close>

definition KIND_FLOW :: u8 where "KIND_FLOW = 0"
definition KIND_DNS_BLOCK :: u8 where "KIND_DNS_BLOCK = 1"
definition KIND_TLS_PINNED :: u8 where "KIND_TLS_PINNED = 2"
definition KIND_COARSE :: u8 where "KIND_COARSE = 3"
definition EV_PROTO_TCP :: u8 where "EV_PROTO_TCP = 0"
definition EV_PROTO_UDP :: u8 where "EV_PROTO_UDP = 1"
definition EV_PROTO_ICMP :: u8 where "EV_PROTO_ICMP = 2"
definition EV_PROTO_OTHER :: u8 where "EV_PROTO_OTHER = 3"
definition VERDICT_ALLOW :: u8 where "VERDICT_ALLOW = 0"
definition VERDICT_BLOCK :: u8 where "VERDICT_BLOCK = 1"

record event =
  ev_kind :: u8
  ev_ip_version :: u8
  ev_proto :: u8
  ev_verdict :: u8
  ev_uid :: i32
  ev_src_port :: u16
  ev_dst_port :: u16
  ev_length :: u32
  ev_timestamp_ms :: u64
  ev_src :: bytes
  ev_dst :: bytes
  ev_domain :: "bytes option"

fun ip_bytes :: "ip_addr \<Rightarrow> bytes" where
  "ip_bytes (V4 a b c d) = [a, b, c, d] @ replicate 12 0"
| "ip_bytes (V6 os) = os"

fun proto_code :: "L4 \<Rightarrow> u8" where
  "proto_code L4_Tcp = EV_PROTO_TCP"
| "proto_code L4_Udp = EV_PROTO_UDP"
| "proto_code L4_Icmp = EV_PROTO_ICMP"
| "proto_code L4_Other = EV_PROTO_OTHER"

definition ev_from_decoded :: "u64 \<Rightarrow> decoded \<Rightarrow> u8 \<Rightarrow> u8 \<Rightarrow> bytes option \<Rightarrow> event" where
  "ev_from_decoded now d kind verdict domain =
     \<lparr>ev_kind = kind, ev_ip_version = d_ip_version d, ev_proto = proto_code (d_proto d),
      ev_verdict = verdict, ev_uid = -1, ev_src_port = d_src_port d, ev_dst_port = d_dst_port d,
      ev_length = d_length d, ev_timestamp_ms = now, ev_src = ip_bytes (d_src d),
      ev_dst = ip_bytes (d_dst d), ev_domain = domain\<rparr>"

definition ev_flow :: "u64 \<Rightarrow> decoded \<Rightarrow> event" where
  "ev_flow now d = ev_from_decoded now d KIND_FLOW VERDICT_ALLOW None"

definition ev_blocked :: "u64 \<Rightarrow> decoded \<Rightarrow> event" where
  "ev_blocked now d = ev_from_decoded now d KIND_FLOW VERDICT_BLOCK None"

definition ev_to_server :: "u64 \<Rightarrow> u8 \<Rightarrow> u8 \<Rightarrow> i32 \<Rightarrow> sock_addr \<Rightarrow> bytes option \<Rightarrow> event" where
  \<comment> \<open>the events that know only the upstream endpoint share this record literal\<close>
  "ev_to_server now kind verdict uid server domain =
     \<lparr>ev_kind = kind, ev_ip_version = (if is_ipv4 (sa_ip server) then 4 else 6),
      ev_proto = EV_PROTO_TCP, ev_verdict = verdict, ev_uid = uid, ev_src_port = 0,
      ev_dst_port = sa_port server, ev_length = 0, ev_timestamp_ms = now,
      ev_src = replicate 16 0, ev_dst = ip_bytes (sa_ip server), ev_domain = domain\<rparr>"

definition ev_blocked_flow :: "u64 \<Rightarrow> sock_addr \<Rightarrow> event" where
  "ev_blocked_flow now server = ev_to_server now KIND_FLOW VERDICT_BLOCK (-1) server None"

definition ev_flow_to :: "u64 \<Rightarrow> sock_addr \<Rightarrow> event" where
  "ev_flow_to now server = ev_to_server now KIND_FLOW VERDICT_ALLOW (-1) server None"

definition ev_blocked_domain :: "u64 \<Rightarrow> decoded \<Rightarrow> bytes \<Rightarrow> event" where
  "ev_blocked_domain now d domain = ev_from_decoded now d KIND_DNS_BLOCK VERDICT_BLOCK (Some domain)"

definition ev_enc_dns_blocked :: "u64 \<Rightarrow> i32 \<Rightarrow> sock_addr \<Rightarrow> bytes \<Rightarrow> event" where
  "ev_enc_dns_blocked now uid server domain =
     ev_to_server now KIND_DNS_BLOCK VERDICT_BLOCK uid server (Some domain)"

definition ev_tls_pinned :: "u64 \<Rightarrow> i32 \<Rightarrow> sock_addr \<Rightarrow> bytes option \<Rightarrow> event" where
  "ev_tls_pinned now uid dst host = ev_to_server now KIND_TLS_PINNED VERDICT_ALLOW uid dst host"

definition ev_coarse :: "u64 \<Rightarrow> u32 \<Rightarrow> u64 \<Rightarrow> u32 \<Rightarrow> u32 \<Rightarrow> u32 \<Rightarrow> event" where
  "ev_coarse now packets nbytes tcp udp dns =
     \<lparr>ev_kind = KIND_COARSE, ev_ip_version = 0, ev_proto = EV_PROTO_OTHER,
      ev_verdict = VERDICT_ALLOW, ev_uid = -1, ev_src_port = 0, ev_dst_port = 0, ev_length = 0,
      ev_timestamp_ms = now,
      ev_src = le_bytes 4 (unat packets) @ le_bytes 4 (unat tcp) @ le_bytes 4 (unat udp) @ le_bytes 4 (unat dns),
      ev_dst = le_bytes 8 (unat nbytes) @ replicate 8 0, ev_domain = None\<rparr>"

definition with_uid :: "i32 \<Rightarrow> event \<Rightarrow> event" where
  "with_uid uid e = e\<lparr>ev_uid := uid\<rparr>"

definition with_domain :: "bytes option \<Rightarrow> event \<Rightarrow> event" where
  "with_domain domain e = e\<lparr>ev_domain := domain\<rparr>"

definition encode_event :: "event \<Rightarrow> bytes" where
  "encode_event e =
     [ev_kind e, ev_ip_version e, ev_proto e, ev_verdict e]
     @ le_bytes 4 (unat (ev_uid e)) @ le_bytes 2 (unat (ev_src_port e)) @ le_bytes 2 (unat (ev_dst_port e))
     @ le_bytes 4 (unat (ev_length e)) @ le_bytes 8 (unat (ev_timestamp_ms e))
     @ ev_src e @ ev_dst e
     @ (case ev_domain e of
          Some d \<Rightarrow> let len = min (length d) 65535 in le_bytes 2 len @ take len d
        | None \<Rightarrow> le_bytes 2 0)"

type_synonym batcher = "event list"

definition batcher_push :: "event \<Rightarrow> batcher \<Rightarrow> batcher" where
  "batcher_push e b = b @ [e]"

definition drain_encoded :: "batcher \<Rightarrow> bytes option \<times> batcher" where
  "drain_encoded b =
     (if b = [] then (None, b)
      else (Some (le_bytes 4 (unat (word_of_nat (length b) :: u32)) @ concat (map encode_event b)), []))"

subsection \<open>The Kotlin decoder\<close>

record coarse_counts =
  cc_packets :: nat
  cc_bytes :: nat
  cc_tcp :: nat
  cc_udp :: nat
  cc_dns :: nat

record conn_event =
  ce_timestamp :: u64
  ce_ip_version :: u8
  ce_proto :: L4
  ce_src :: "ip_addr option"
  ce_src_port :: u16
  ce_dst :: "ip_addr option"
  ce_dst_port :: u16
  ce_length :: u32
  ce_uid :: "i32 option"
  ce_block :: bool
  ce_blocked_domain :: "bytes option"
  ce_tls_pinned :: bool
  ce_host :: "bytes option"
  ce_coarse :: "coarse_counts option"

definition FIXED_LEN :: nat where
  "FIXED_LEN = 4 + 4 + 4 + 4 + 8 + 16 + 16 + 2"

definition get_le :: "nat \<Rightarrow> bytes \<Rightarrow> nat \<times> bytes" where
  "get_le n buf = (le_val (take n buf), drop n buf)"

definition proto_of :: "u8 \<Rightarrow> L4" where
  "proto_of code = (if code = 0 then L4_Tcp else if code = 1 then L4_Udp else if code = 2 then L4_Icmp else L4_Other)"

definition ip_of_raw :: "bytes \<Rightarrow> u8 \<Rightarrow> ip_addr" where
  "ip_of_raw raw v = (if v = 4 then V4 (raw ! 0) (raw ! 1) (raw ! 2) (raw ! 3) else V6 raw)"

definition conn_event_of :: "u8 \<Rightarrow> u8 \<Rightarrow> u8 \<Rightarrow> u8 \<Rightarrow> i32 \<Rightarrow> u16 \<Rightarrow> u16 \<Rightarrow> u32 \<Rightarrow> u64 \<Rightarrow> bytes \<Rightarrow> bytes
    \<Rightarrow> bytes option \<Rightarrow> conn_event" where
  "conn_event_of kind ipv proto verdict uid sp dp len ts src dst domain =
     (if kind = KIND_COARSE then
        \<lparr>ce_timestamp = ts, ce_ip_version = ipv, ce_proto = proto_of proto, ce_src = None,
         ce_src_port = 0, ce_dst = None, ce_dst_port = 0, ce_length = 0, ce_uid = None,
         ce_block = False, ce_blocked_domain = None, ce_tls_pinned = False, ce_host = None,
         ce_coarse = Some \<lparr>cc_packets = le_val (take 4 src), cc_bytes = le_val (take 8 dst),
           cc_tcp = le_val (take 4 (drop 4 src)), cc_udp = le_val (take 4 (drop 8 src)),
           cc_dns = le_val (take 4 (drop 12 src))\<rparr>\<rparr>
      else
        \<lparr>ce_timestamp = ts, ce_ip_version = ipv, ce_proto = proto_of proto,
         ce_src = Some (ip_of_raw src ipv), ce_src_port = sp, ce_dst = Some (ip_of_raw dst ipv),
         ce_dst_port = dp, ce_length = len, ce_uid = (if sint uid < 0 then None else Some uid),
         ce_block = (verdict = 1),
         ce_blocked_domain = (if kind = KIND_DNS_BLOCK then domain else None),
         ce_tls_pinned = (kind = KIND_TLS_PINNED),
         ce_host = (if kind = KIND_TLS_PINNED \<or> kind = KIND_FLOW then domain else None),
         ce_coarse = None\<rparr>)"

definition decode_event :: "bytes \<Rightarrow> (conn_event \<times> bytes) option" where
  \<comment> \<open>one turn of the loop; \<open>None\<close> is its early return\<close>
  "decode_event buf =
     (if length buf < FIXED_LEN then None
      else
        let kind = buf ! 0; ipv = buf ! 1; proto = buf ! 2; verdict = buf ! 3;
            (uid, buf) = get_le 4 (drop 4 buf);
            (sp, buf) = get_le 2 buf;
            (dp, buf) = get_le 2 buf;
            (len, buf) = get_le 4 buf;
            (ts, buf) = get_le 8 buf;
            src = take 16 buf; buf = drop 16 buf;
            dst = take 16 buf; buf = drop 16 buf;
            (domain_len, buf) = get_le 2 buf;
            ev = conn_event_of kind ipv proto verdict (word_of_nat uid) (word_of_nat sp)
                   (word_of_nat dp) (word_of_nat len) (word_of_nat ts) src dst
        in if domain_len > 0 then
             if length buf \<ge> domain_len
             then Some (ev (Some (utf8_lossy (take domain_len buf))), drop domain_len buf)
             else None
           else Some (ev None, buf))"

fun decode_events :: "nat \<Rightarrow> bytes \<Rightarrow> conn_event list" where
  "decode_events 0 buf = []"
| "decode_events (Suc n) buf =
     (case decode_event buf of None \<Rightarrow> [] | Some (e, buf') \<Rightarrow> e # decode_events n buf')"

definition kotlin_decode :: "bytes \<Rightarrow> conn_event list" where
  "kotlin_decode batch =
     (if length batch < 4 then []
      else let (c, buf) = get_le 4 batch
           in if sint (word_of_nat c :: i32) \<le> 0 then [] else decode_events c buf)"

subsection \<open>Round trip\<close>

definition event_view :: "event \<Rightarrow> conn_event" where
  \<comment> \<open>what the app should see of an event: an empty domain is no domain\<close>
  "event_view e = conn_event_of (ev_kind e) (ev_ip_version e) (ev_proto e) (ev_verdict e) (ev_uid e)
     (ev_src_port e) (ev_dst_port e) (ev_length e) (ev_timestamp_ms e) (ev_src e) (ev_dst e)
     (case ev_domain e of Some d \<Rightarrow> if d = [] then None else Some d | None \<Rightarrow> None)"

definition wf_event :: "event \<Rightarrow> bool" where
  "wf_event e \<longleftrightarrow> length (ev_src e) = 16 \<and> length (ev_dst e) = 16
     \<and> (case ev_domain e of None \<Rightarrow> True | Some d \<Rightarrow> length d \<le> 65535 \<and> utf8_valid d)"

lemma get_le_append: "n \<le> 8 \<Longrightarrow> v < 256 ^ n \<Longrightarrow> get_le n (le_bytes n v @ r) = (v, r)"
  by (simp add: get_le_def le_val_le_bytes)

lemma get_le_word:
  "get_le 2 (le_bytes 2 (unat (w :: u16)) @ r) = (unat w, r)"
  "get_le 4 (le_bytes 4 (unat (x :: u32)) @ r) = (unat x, r)"
  "get_le 8 (le_bytes 8 (unat (y :: u64)) @ r) = (unat y, r)"
  using unat_u16_less[of w] unat_u32_less[of x] unat_u64_less[of y]
  by (auto intro!: get_le_append)

definition domain_field :: "bytes option \<Rightarrow> bytes" where
  "domain_field dm = (case dm of
      Some d \<Rightarrow> let len = min (length d) 65535 in le_bytes 2 len @ take len d
    | None \<Rightarrow> le_bytes 2 0)"

lemma decode_event_encode:
  assumes "wf_event e"
  shows "decode_event (encode_event e @ r) = Some (event_view e, r)"
proof -
  obtain dm where dm: "dm = ev_domain e" by simp
  have len: "FIXED_LEN \<le> length (encode_event e @ r)"
    using assms by (auto simp: wf_event_def encode_event_def FIXED_LEN_def split: option.splits)
  have enc: "encode_event e @ r =
      ev_kind e # ev_ip_version e # ev_proto e # ev_verdict e #
      le_bytes 4 (unat (ev_uid e)) @ le_bytes 2 (unat (ev_src_port e)) @ le_bytes 2 (unat (ev_dst_port e))
      @ le_bytes 4 (unat (ev_length e)) @ le_bytes 8 (unat (ev_timestamp_ms e))
      @ ev_src e @ ev_dst e @ domain_field dm @ r"
    by (simp add: encode_event_def domain_field_def dm)
  have fld: "get_le 2 (domain_field dm @ r) =
      (case dm of None \<Rightarrow> (0, r) | Some d \<Rightarrow> (length d, d @ r))"
  proof (cases dm)
    case None
    then show ?thesis by (simp add: domain_field_def get_le_append)
  next
    case (Some d)
    then have "length d \<le> 65535" using assms dm by (simp add: wf_event_def)
    with Some show ?thesis by (simp add: domain_field_def get_le_append min_def Let_def)
  qed
  have d4: "drop 4 (a # b # c # d # xs) = xs" for a b c d :: u8 and xs by simp
  have six: "take 16 (ev_src e @ x) = ev_src e" "drop 16 (ev_src e @ x) = x"
    "take 16 (ev_dst e @ x) = ev_dst e" "drop 16 (ev_dst e @ x) = x" for x
    using assms by (simp_all add: wf_event_def)
  have "decode_event (encode_event e @ r) =
    (case dm of None \<Rightarrow> Some (event_view e, r)
     | Some d \<Rightarrow> if length d > 0 then Some (event_view e, r) else Some (event_view e, r))"
    using len assms
    unfolding decode_event_def enc Let_def d4 get_le_word case_prod_conv six fld
    by (cases dm) (auto simp: event_view_def dm[symmetric] wf_event_def utf8_lossy_valid)
  then show ?thesis by (simp split: option.splits)
qed

lemma decode_events_encode:
  "list_all wf_event es \<Longrightarrow> decode_events (length es) (concat (map encode_event es) @ r) = map event_view es"
  by (induction es) (simp_all add: decode_event_encode)

text \<open>C28: the two sides of the upcall agree. For every non-empty batch of up to \<open>2\<^sup>31 - 1\<close> events with
  valid domains of at most 65,535 bytes, the Kotlin decoder reads from the encoded blob exactly the
  events pushed, in order, with every field, and draining leaves the batch empty.\<close>

theorem event_batch_roundtrip:
  assumes "es \<noteq> []" and "length es < 2 ^ 31" and "list_all wf_event es"
  shows "\<exists>blob. drain_encoded (fold batcher_push es []) = (Some blob, [])
    \<and> kotlin_decode blob = map event_view es"
proof -
  have push: "fold batcher_push es b = b @ es" for b
    by (induction es arbitrary: b) (simp_all add: batcher_push_def)
  have c: "unat (word_of_nat (length es) :: u32) = length es"
    using assms(2) by (simp only: unat_word_of_nat_u32) simp
  have "sint (word_of_nat (length es) :: i32) = int (length es)"
    using assms(2) by (simp add: signed_take_bit_int_eq_self signed_of_nat)
  then have "kotlin_decode (le_bytes 4 (length es) @ concat (map encode_event es) @ []) = map event_view es"
    using assms decode_events_encode[of es "[]"]
    by (simp add: kotlin_decode_def get_le_append del: append_Nil2)
  then show ?thesis using assms(1) c by (auto simp: drain_encoded_def push)
qed

lemma coarse_counters_roundtrip_wf: "wf_event (ev_coarse now packets nbytes tcp udp dns)"
  by (simp add: wf_event_def ev_coarse_def)

text \<open>Coarse telemetry survives packing. The five counters of an aggregate event, packed into
  its address fields, arrive unchanged, and the aggregate is never mistaken for a flow.\<close>

theorem coarse_counters_roundtrip:
  "wf_event (ev_coarse now packets nbytes tcp udp dns)
   \<and> ce_coarse (event_view (ev_coarse now packets nbytes tcp udp dns))
     = Some \<lparr>cc_packets = unat packets, cc_bytes = unat nbytes, cc_tcp = unat tcp, cc_udp = unat udp,
             cc_dns = unat dns\<rparr>
   \<and> ce_src (event_view (ev_coarse now packets nbytes tcp udp dns)) = None"
  using unat_u32_less[of packets] unat_u32_less[of tcp] unat_u32_less[of udp] unat_u32_less[of dns]
    unat_u64_less[of nbytes]
  by (simp add: wf_event_def ev_coarse_def event_view_def conn_event_of_def le_val_le_bytes)

definition example_event :: event where
  "example_event = ev_enc_dns_blocked 1700000000000 10123 (SockAddr (V4 9 9 9 9) 853) [97, 46, 98]"

lemma event_batch_roundtrip_witness:
  "\<exists>blob. drain_encoded (fold batcher_push [example_event, ev_coarse 5 1 2 3 4 5] []) = (Some blob, [])
    \<and> kotlin_decode blob = map event_view [example_event, ev_coarse 5 1 2 3 4 5]"
proof -
  have "utf8_valid [97, 46, 98]" by code_simp
  then have "list_all wf_event [example_event, ev_coarse 5 1 2 3 4 5]"
    using coarse_counters_roundtrip_wf[of 5 1 2 3 4 5]
    by (simp add: example_event_def ev_enc_dns_blocked_def ev_to_server_def wf_event_def)
  then show ?thesis by (intro event_batch_roundtrip) auto
qed

end
