(* ===== verification/Http_Head.thy ===== *)
theory Http_Head
  imports Rust_Text Stream_Machine
begin

section \<open>HTTP/1.1 heads and bodies on a stream\<close>

text \<open>
  The parsing half of \<open>rust/tls/src/har.rs\<close>, shared by the HAR tap, the DoH filter and the HTTP
  rewriter: header blocks, request and status lines, body framing, the size-capped body accumulator
  and the incremental chunked decoder. A \<open>&mut\<close> buffer is an argument and a result; a slice bounded
  by the search before it is a \<open>take\<close> or \<open>drop\<close>. Headers are name/value pairs of UTF-8 bytes.
\<close>

type_synonym headers = "(bytes \<times> bytes) list"

definition MAX_HEADER_BYTES :: nat where
  "MAX_HEADER_BYTES = 64 * 1024"

definition MAX_BODY_CAPTURE :: nat where
  "MAX_BODY_CAPTURE = 512 * 1024"

subsection \<open>Heads\<close>

definition find_header_end :: "bytes \<Rightarrow> nat option" where
  "find_header_end buf = map_option (\<lambda>p. p + 4) (find_sub [13, 10, 13, 10] buf)"

definition strip_cr :: "bytes \<Rightarrow> bytes" where
  "strip_cr line = (if line \<noteq> [] \<and> last line = 13 then butlast line else line)"

definition split_crlf_lines :: "bytes \<Rightarrow> bytes list" where
  "split_crlf_lines body = map strip_cr (split_on 10 body)"

fun parse_header_lines :: "bytes list \<Rightarrow> headers option" where
  "parse_header_lines [] = Some []"
| "parse_header_lines (line # lines) =
     (if line = [] then parse_header_lines lines
      else case position (\<lambda>b. b = 58) line of
        None \<Rightarrow> None
      | Some colon \<Rightarrow>
          (let name = trim (utf8_lossy (take colon line));
               value = trim (utf8_lossy (drop (colon + 1) line))
           in map_option (\<lambda>hs. if name \<noteq> [] then (name, value) # hs else hs)
                (parse_header_lines lines)))"

definition parse_head_fields :: "bytes \<Rightarrow> (bytes \<times> headers) option" where
  "parse_head_fields fields =
     (case split_crlf_lines fields of
        [] \<Rightarrow> None
      | start_line # lines \<Rightarrow> map_option (\<lambda>hs. (start_line, hs)) (parse_header_lines lines))"

record parsed_head =
  ph_start :: bytes
  ph_headers :: headers
  ph_size :: nat

datatype head_step = Head_NeedMore | Head_Error | Head_Ok parsed_head

definition take_head :: "bytes \<Rightarrow> head_step \<times> bytes" where
  "take_head buf =
     (case find_header_end buf of
        None \<Rightarrow> (if length buf > MAX_HEADER_BYTES then Head_Error else Head_NeedMore, buf)
      | Some e \<Rightarrow>
          (case parse_head_fields (take (e - 4) buf) of
             Some (start, hs) \<Rightarrow>
               (Head_Ok \<lparr>ph_start = start, ph_headers = hs, ph_size = e\<rparr>, drop e buf)
           | None \<Rightarrow> (Head_Error, drop e buf)))"

definition parse_request_line :: "bytes \<Rightarrow> (bytes \<times> bytes \<times> bytes) option" where
  "parse_request_line line =
     (if \<not> utf8_valid line then None
      else case split_on 32 line of
        meth # target # version # _ \<Rightarrow>
          if \<not> prefix (asc ''HTTP/'') version \<or> meth = [] then None else Some (meth, target, version)
      | _ \<Rightarrow> None)"

definition parse_status_line :: "bytes \<Rightarrow> (bytes \<times> nat \<times> bytes) option" where
  "parse_status_line line =
     (if \<not> utf8_valid line then None
      else case splitn 3 32 line of
        version # code # rest \<Rightarrow>
          (case parse_radix 10 65535 code of
             None \<Rightarrow> None
           | Some status \<Rightarrow>
               if \<not> prefix (asc ''HTTP/'') version then None
               else Some (version, status, case rest of [] \<Rightarrow> [] | r # _ \<Rightarrow> r))
      | _ \<Rightarrow> None)"

definition header :: "headers \<Rightarrow> bytes \<Rightarrow> bytes option" where
  "header hs name = map_option snd (find (\<lambda>(k, _). eq_ignore_case k name) hs)"

definition is_chunked :: "headers \<Rightarrow> bool" where
  "is_chunked hs =
     (case header hs (asc ''transfer-encoding'') of
        None \<Rightarrow> False
      | Some v \<Rightarrow> list_ex (\<lambda>t. eq_ignore_case (trim t) (asc ''chunked'')) (split_on 44 v))"

definition content_length :: "headers \<Rightarrow> nat option" where
  "content_length hs =
     (case header hs (asc ''content-length'') of
        None \<Rightarrow> None
      | Some v \<Rightarrow> parse_radix 10 usize_max (trim v))"

subsection \<open>Bodies\<close>

datatype chunk_state = Ch_Size bytes | Ch_Data nat | Ch_DataCrlf | Ch_Trailer bytes

datatype framing = Fr_Length nat | Fr_Chunked chunk_state | Fr_UntilClose

datatype body_step = Body_NeedMore | Body_Done | Body_Error

record body_cap =
  bc_captured :: bytes
  bc_wire :: nat
  bc_trunc :: bool

definition body_cap_new :: body_cap where
  "body_cap_new = \<lparr>bc_captured = [], bc_wire = 0, bc_trunc = False\<rparr>"

definition push_capped :: "body_cap \<Rightarrow> bytes \<Rightarrow> body_cap" where
  "push_capped c data =
     (let room = MAX_BODY_CAPTURE - length (bc_captured c);
          c = c\<lparr>bc_wire := bc_wire c + length data\<rparr>
      in if room \<ge> length data then c\<lparr>bc_captured := bc_captured c @ data\<rparr>
         else c\<lparr>bc_captured := bc_captured c @ take room data, bc_trunc := True\<rparr>)"

fun trim_crlf :: "bytes \<Rightarrow> bytes" where
  "trim_crlf line = rev (dropWhile (\<lambda>b. b = 10 \<or> b = 13) (rev line))"

definition parse_hex :: "bytes \<Rightarrow> nat option" where
  "parse_hex bs =
     (if \<not> utf8_valid bs then None
      else if trim bs = [] then None else parse_radix 16 usize_max (trim bs))"

function chunk_consume ::
  "chunk_state \<Rightarrow> bytes \<Rightarrow> body_cap \<Rightarrow> body_step \<times> chunk_state \<times> bytes \<times> body_cap" where
  "chunk_consume (Ch_Size line) buf c =
     (case position (\<lambda>b. b = 10) buf of
        None \<Rightarrow>
          if length buf > MAX_HEADER_BYTES then (Body_Error, Ch_Size line, buf, c)
          else (Body_NeedMore, Ch_Size (line @ buf), [], c)
      | Some pos \<Rightarrow>
          (let line' = line @ take (pos + 1) buf; buf' = drop (pos + 1) buf;
               text = trim_crlf line'; hex = hd (split_on 59 text)
           in case parse_hex hex of
                None \<Rightarrow> (Body_Error, Ch_Size line', buf', c)
              | Some sz \<Rightarrow>
                  if sz = 0 then chunk_consume (Ch_Trailer []) buf' c
                  else chunk_consume (Ch_Data sz) buf' c))"
| "chunk_consume (Ch_Data remaining) buf c =
     (if remaining = 0 then chunk_consume Ch_DataCrlf buf c
      else
        let n = min remaining (length buf)
        in if n = 0 then (Body_NeedMore, Ch_Data remaining, buf, c)
           else chunk_consume (Ch_Data (remaining - n)) (drop n buf) (push_capped c (take n buf)))"
| "chunk_consume Ch_DataCrlf buf c =
     (case buf of
        [] \<Rightarrow> (Body_NeedMore, Ch_DataCrlf, buf, c)
      | b # buf' \<Rightarrow>
          if b = 13 then
            (case buf' of
               [] \<Rightarrow> (Body_NeedMore, Ch_DataCrlf, buf, c)
             | _ # buf'' \<Rightarrow> chunk_consume (Ch_Size []) buf'' c)
          else chunk_consume (Ch_Size []) buf' c)"
| "chunk_consume (Ch_Trailer line) buf c =
     (case position (\<lambda>b. b = 10) buf of
        None \<Rightarrow>
          if length buf > MAX_HEADER_BYTES then (Body_Error, Ch_Trailer line, buf, c)
          else (Body_NeedMore, Ch_Trailer (line @ buf), [], c)
      | Some pos \<Rightarrow>
          (let line' = line @ take (pos + 1) buf; buf' = drop (pos + 1) buf
           in if trim_crlf line' = [] then (Body_Done, Ch_Trailer [], buf', c)
              else chunk_consume (Ch_Trailer []) buf' c))"
  by pat_completeness auto
termination
  by (relation "measures [\<lambda>(_, buf, _). length buf, \<lambda>(st, _, _). case st of Ch_Data _ \<Rightarrow> 1 | _ \<Rightarrow> 0]")
    (auto simp: position_Some_iff)

declare chunk_consume.simps [simp del] trim_crlf.simps [simp del]

definition body_consume :: "framing \<Rightarrow> bytes \<Rightarrow> body_cap \<Rightarrow> body_step \<times> framing \<times> bytes \<times> body_cap" where
  "body_consume fr buf c =
     (case fr of
        Fr_Length remaining \<Rightarrow>
          if remaining = 0 then (Body_Done, fr, buf, c)
          else
            let n = min remaining (length buf);
                c' = (if n > 0 then push_capped c (take n buf) else c);
                remaining' = remaining - n
            in (if remaining' = 0 then Body_Done else Body_NeedMore, Fr_Length remaining', drop n buf, c')
      | Fr_UntilClose \<Rightarrow>
          if buf = [] then (Body_NeedMore, fr, buf, c)
          else (Body_NeedMore, fr, [], push_capped c buf)
      | Fr_Chunked st \<Rightarrow>
          (let (step, st', buf', c') = chunk_consume st buf c in (step, Fr_Chunked st', buf', c')))"

definition request_framing :: "headers \<Rightarrow> framing option" where
  "request_framing hs =
     (if is_chunked hs then Some (Fr_Chunked (Ch_Size []))
      else case content_length hs of
        Some n \<Rightarrow> if n > 0 then Some (Fr_Length n) else None
      | None \<Rightarrow> None)"

definition response_framing :: "nat \<Rightarrow> bool \<Rightarrow> headers \<Rightarrow> framing option" where
  "response_framing status method_is_head hs =
     (if method_is_head \<or> status = 204 \<or> status = 304 \<or> (100 \<le> status \<and> status \<le> 199) then None
      else if is_chunked hs then Some (Fr_Chunked (Ch_Size []))
      else case content_length hs of
        Some n \<Rightarrow> if n = 0 then None else Some (Fr_Length n)
      | None \<Rightarrow> Some Fr_UntilClose)"

subsection \<open>The capped accumulator\<close>

lemma push_capped_append: "push_capped (push_capped c a) b = push_capped c (a @ b)"
  by (auto simp: push_capped_def Let_def)

lemma push_capped_Nil [simp]: "push_capped c [] = c"
  by (simp add: push_capped_def)

lemma push_capped_bound:
  "length (bc_captured c) \<le> MAX_BODY_CAPTURE \<Longrightarrow> length (bc_captured (push_capped c d)) \<le> MAX_BODY_CAPTURE"
  by (auto simp: push_capped_def Let_def)

lemma push_capped_fits:
  "length (bc_captured c) + length d \<le> MAX_BODY_CAPTURE \<Longrightarrow>
   push_capped c d = c\<lparr>bc_captured := bc_captured c @ d, bc_wire := bc_wire c + length d\<rparr>"
  by (simp add: push_capped_def Let_def)

subsection \<open>The chunked decoder on a stream\<close>

lemma chunk_size_None:
  "position (\<lambda>b. b = 10) buf = None \<Longrightarrow> chunk_consume (Ch_Size line) buf c =
    (if length buf > MAX_HEADER_BYTES then (Body_Error, Ch_Size line, buf, c)
     else (Body_NeedMore, Ch_Size (line @ buf), [], c))"
  "position (\<lambda>b. b = 10) buf = None \<Longrightarrow> chunk_consume (Ch_Trailer line) buf c =
    (if length buf > MAX_HEADER_BYTES then (Body_Error, Ch_Trailer line, buf, c)
     else (Body_NeedMore, Ch_Trailer (line @ buf), [], c))"
  by (simp_all add: chunk_consume.simps(1) chunk_consume.simps(4))

definition after_size :: "bytes \<Rightarrow> chunk_state option" where
  "after_size line =
     (case parse_hex (hd (split_on 59 (trim_crlf line))) of
        None \<Rightarrow> None | Some n \<Rightarrow> Some (if n = 0 then Ch_Trailer [] else Ch_Data n))"

lemma chunk_size_Some:
  "position (\<lambda>b. b = 10) buf = Some pos \<Longrightarrow> chunk_consume (Ch_Size line) buf c =
    (case after_size (line @ take (pos + 1) buf) of
       None \<Rightarrow> (Body_Error, Ch_Size (line @ take (pos + 1) buf), drop (pos + 1) buf, c)
     | Some st \<Rightarrow> chunk_consume st (drop (pos + 1) buf) c)"
  by (subst chunk_consume.simps(1)) (simp add: after_size_def Let_def split: option.splits)

lemma chunk_trailer_Some:
  "position (\<lambda>b. b = 10) buf = Some pos \<Longrightarrow> chunk_consume (Ch_Trailer line) buf c =
    (if trim_crlf (line @ take (pos + 1) buf) = [] then (Body_Done, Ch_Trailer [], drop (pos + 1) buf, c)
     else chunk_consume (Ch_Trailer []) (drop (pos + 1) buf) c)"
  by (subst chunk_consume.simps(4)) (simp add: Let_def)

lemma chunk_data:
  "chunk_consume (Ch_Data n) buf c =
    (if n = 0 then chunk_consume Ch_DataCrlf buf c
     else if buf = [] then (Body_NeedMore, Ch_Data n, [], c)
     else chunk_consume (Ch_Data (n - length buf)) (drop n buf) (push_capped c (take n buf)))"
  by (subst chunk_consume.simps) (auto simp: Let_def min_def)

lemma chunk_crlf:
  "chunk_consume Ch_DataCrlf [] c = (Body_NeedMore, Ch_DataCrlf, [], c)"
  "chunk_consume Ch_DataCrlf [13] c = (Body_NeedMore, Ch_DataCrlf, [13], c)"
  "chunk_consume Ch_DataCrlf (13 # x # buf) c = chunk_consume (Ch_Size []) buf c"
  "b \<noteq> 13 \<Longrightarrow> chunk_consume Ch_DataCrlf (b # buf) c = chunk_consume (Ch_Size []) buf c"
  by (simp_all add: chunk_consume.simps(3))

text \<open>Induction over the iterations of the loop.\<close>

lemma chunk_induct [case_names size_wait size_bad size_ok data_end data_wait data crlf_nil crlf_cr
    crlf crlf_bare trailer_wait trailer_end trailer_more]:
  assumes size_wait: "\<And>line buf c. position (\<lambda>b. b = 10) buf = None \<Longrightarrow> P (Ch_Size line) buf c"
    and size_bad: "\<And>line buf c pos. position (\<lambda>b. b = 10) buf = Some pos \<Longrightarrow>
          after_size (line @ take (pos + 1) buf) = None \<Longrightarrow> P (Ch_Size line) buf c"
    and size_ok: "\<And>line buf c pos st. position (\<lambda>b. b = 10) buf = Some pos \<Longrightarrow>
          after_size (line @ take (pos + 1) buf) = Some st \<Longrightarrow> P st (drop (pos + 1) buf) c \<Longrightarrow> P (Ch_Size line) buf c"
    and data_end: "\<And>buf c. P Ch_DataCrlf buf c \<Longrightarrow> P (Ch_Data 0) buf c"
    and data_wait: "\<And>n c. n \<noteq> 0 \<Longrightarrow> P (Ch_Data n) [] c"
    and data: "\<And>n buf c. n \<noteq> 0 \<Longrightarrow> buf \<noteq> [] \<Longrightarrow>
          P (Ch_Data (n - length buf)) (drop n buf) (push_capped c (take n buf)) \<Longrightarrow> P (Ch_Data n) buf c"
    and crlf_nil: "\<And>c. P Ch_DataCrlf [] c" and crlf_cr: "\<And>c. P Ch_DataCrlf [13] c"
    and crlf: "\<And>x buf c. P (Ch_Size []) buf c \<Longrightarrow> P Ch_DataCrlf (13 # x # buf) c"
    and crlf_bare: "\<And>x buf c. x \<noteq> 13 \<Longrightarrow> P (Ch_Size []) buf c \<Longrightarrow> P Ch_DataCrlf (x # buf) c"
    and trailer_wait: "\<And>line buf c. position (\<lambda>b. b = 10) buf = None \<Longrightarrow> P (Ch_Trailer line) buf c"
    and trailer_end: "\<And>line buf c pos. position (\<lambda>b. b = 10) buf = Some pos \<Longrightarrow>
          trim_crlf (line @ take (pos + 1) buf) = [] \<Longrightarrow> P (Ch_Trailer line) buf c"
    and trailer_more: "\<And>line buf c pos. position (\<lambda>b. b = 10) buf = Some pos \<Longrightarrow>
          trim_crlf (line @ take (pos + 1) buf) \<noteq> [] \<Longrightarrow> P (Ch_Trailer []) (drop (pos + 1) buf) c \<Longrightarrow> P (Ch_Trailer line) buf c"
  shows "P st buf c"
proof (induction st buf c rule: chunk_consume.induct)
  case (1 line buf c)
  show ?case
  proof (cases "position (\<lambda>b. b = 10) buf")
    case None
    then show ?thesis by (rule size_wait)
  next
    case (Some pos)
    show ?thesis
    proof (cases "parse_hex (hd (split_on 59 (trim_crlf (line @ take (pos + 1) buf))))")
      case None
      then have "after_size (line @ take (pos + 1) buf) = None"
        unfolding after_size_def by (simp only: option.case)
      with \<open>position (\<lambda>b. b = 10) buf = Some pos\<close> show ?thesis by (rule size_bad)
    next
      case (Some n)
      note IH = 1(1)[OF \<open>position (\<lambda>b. b = 10) buf = Some pos\<close> refl refl refl refl Some]
        1(2)[OF \<open>position (\<lambda>b. b = 10) buf = Some pos\<close> refl refl refl refl Some]
      show ?thesis
        by (rule size_ok[OF \<open>position (\<lambda>b. b = 10) buf = Some pos\<close>, of _ "if n = 0 then Ch_Trailer [] else Ch_Data n"])
          (use Some IH in \<open>simp_all only: after_size_def option.case split: if_split, simp_all\<close>)
    qed
  qed
next
  case (2 n buf c)
  show ?case
  proof (cases "n = 0 \<or> buf = []")
    case True
    then show ?thesis
    proof (cases "n = 0")
      case n: True
      show ?thesis unfolding n by (rule data_end[OF 2(1)[OF n]])
    next
      case False
      with True data_wait show ?thesis by simp
    qed
  next
    case False
    then have ne: "n \<noteq> 0" "buf \<noteq> []" "min n (length buf) \<noteq> 0" by simp_all
    have eqs: "n - min n (length buf) = n - length buf" "drop (min n (length buf)) buf = drop n buf"
      "take (min n (length buf)) buf = take n buf"
      by (auto simp: min_def)
    show ?thesis
      by (rule data[OF ne(1,2)]) (rule 2(2)[OF ne(1) refl ne(3), unfolded eqs])
  qed
next
  case (3 buf c)
  show ?case
  proof (cases buf)
    case Nil
    then show ?thesis by (simp add: crlf_nil)
  next
    case c1: (Cons x xs)
    show ?thesis
    proof (cases "x = 13")
      case True
      with c1 3(1)[OF c1 True] show ?thesis by (cases xs) (simp_all add: crlf_cr crlf)
    next
      case False
      with c1 3(2)[OF c1 False] show ?thesis by (simp add: crlf_bare)
    qed
  qed
next
  case (4 line buf c)
  show ?case
  proof (cases "position (\<lambda>b. b = 10) buf")
    case None
    then show ?thesis by (rule trailer_wait)
  next
    case (Some pos)
    show ?thesis
    proof (cases "trim_crlf (line @ take (pos + 1) buf) = []")
      case True
      with Some show ?thesis by (rule trailer_end)
    next
      case False
      from Some False 4(1)[OF Some refl refl False] show ?thesis by (rule trailer_more)
    qed
  qed
qed

lemma chunk_data_step:
  "n \<noteq> 0 \<Longrightarrow> buf \<noteq> [] \<Longrightarrow> chunk_consume (Ch_Data n) buf c =
     chunk_consume (Ch_Data (n - length buf)) (drop n buf) (push_capped c (take n buf))"
  "chunk_consume (Ch_Data 0) buf c = chunk_consume Ch_DataCrlf buf c"
  "n \<noteq> 0 \<Longrightarrow> chunk_consume (Ch_Data n) [] c = (Body_NeedMore, Ch_Data n, [], c)"
  by (simp_all add: chunk_data[of n] chunk_data[of 0])

lemmas chunk_steps = chunk_size_None chunk_size_Some chunk_trailer_Some chunk_data_step chunk_crlf

lemma chunk_consume_shrinks: "chunk_consume st a c = (step, st', r, c') \<Longrightarrow> length r \<le> length a"
  by (induction st a c rule: chunk_induct) (auto simp: chunk_steps split: if_splits)

text \<open>Between reads at most a lone carriage return is left unconsumed.\<close>

lemma chunk_consume_rest: "chunk_consume st buf c = (Body_NeedMore, st', r, c') \<Longrightarrow> length r \<le> 1"
  by (induction st buf c rule: chunk_induct) (auto simp: chunk_steps split: if_splits)

text \<open>Waiting and continuing is the same as having seen everything at once; what is decided stays.\<close>

lemma chunk_consume_append:
  "chunk_consume st a c = (step, st', r, c') \<Longrightarrow> length (a @ b) \<le> MAX_HEADER_BYTES \<Longrightarrow>
     (case step of
        Body_NeedMore \<Rightarrow> chunk_consume st (a @ b) c = chunk_consume st' (r @ b) c'
      | Body_Done \<Rightarrow> chunk_consume st (a @ b) c = (Body_Done, st', r @ b, c')
      | Body_Error \<Rightarrow> fst (chunk_consume st (a @ b) c) = Body_Error)"
proof (induction st a c rule: chunk_induct)
  case (size_wait line buf c)
  then have r: "step = Body_NeedMore" "st' = Ch_Size (line @ buf)" "r = []" "c' = c"
    by (auto simp: chunk_steps)
  show ?case
    using size_wait r by (cases "position (\<lambda>b. b = 10) b")
      (simp_all add: chunk_steps position_append_None split: option.splits)
next
  case (size_bad line buf c pos)
  then have "pos < length buf" by (simp add: position_Some_iff)
  with size_bad show ?case
    by (auto simp: chunk_steps chunk_size_Some[OF position_append_Some[OF size_bad(1)]])
next
  case (size_ok line buf c pos st)
  then have "pos < length buf" by (simp add: position_Some_iff)
  with size_ok show ?case
    by (cases step) (simp_all add: chunk_steps chunk_size_Some[OF position_append_Some[OF size_ok(1)]])
next
  case (data_end buf c)
  then show ?case by (cases step) (simp_all add: chunk_steps)
next
  case (data_wait n c)
  then show ?case by (simp add: chunk_steps)
next
  case (data n buf c)
  have e2: "chunk_consume (Ch_Data n) (buf @ b) c =
      chunk_consume (Ch_Data (n - length buf)) (drop n buf @ b) (push_capped c (take n buf))"
  proof (cases "n \<le> length buf")
    case True
    with data(1,2) show ?thesis by (simp add: chunk_steps)
  next
    case False
    with data(1,2) show ?thesis
      by (cases "b = []") (simp_all add: chunk_steps push_capped_append)
  qed
  from data show ?case unfolding e2 by (cases step) (simp_all add: chunk_steps)
next
  case (trailer_wait line buf c)
  then have r: "step = Body_NeedMore" "st' = Ch_Trailer (line @ buf)" "r = []" "c' = c"
    by (auto simp: chunk_steps)
  show ?case
    using trailer_wait r by (cases "position (\<lambda>b. b = 10) b")
      (simp_all add: chunk_steps position_append_None)
next
  case (trailer_end line buf c pos)
  then have "pos < length buf" by (simp add: position_Some_iff)
  with trailer_end show ?case
    by (auto simp: chunk_steps chunk_trailer_Some[OF position_append_Some[OF trailer_end(1)]])
next
  case (trailer_more line buf c pos)
  then have "pos < length buf" by (simp add: position_Some_iff)
  with trailer_more show ?case
    by (cases step) (simp_all add: chunk_steps chunk_trailer_Some[OF position_append_Some[OF trailer_more(1)]])
qed (cases step; auto simp: chunk_steps)+

datatype chunk_stream =
    Chunking chunk_state bytes body_cap \<comment> \<open>state, unconsumed bytes, body so far\<close>
  | Chunked_done bytes body_cap \<comment> \<open>the bytes after the body\<close>
  | Chunk_failed

fun chunk_feed :: "chunk_stream \<Rightarrow> bytes \<Rightarrow> unit list \<times> chunk_stream" where
  "chunk_feed (Chunking st r c) x =
     (case chunk_consume st (r @ x) c of
        (Body_NeedMore, st', r', c') \<Rightarrow> ([], Chunking st' r' c')
      | (Body_Done, _, r', c') \<Rightarrow> ([], Chunked_done r' c')
      | (Body_Error, _) \<Rightarrow> ([], Chunk_failed))"
| "chunk_feed (Chunked_done r c) x = ([], Chunked_done (r @ x) c)"
| "chunk_feed Chunk_failed x = ([], Chunk_failed)"

fun chunk_adm :: "chunk_stream \<Rightarrow> bytes \<Rightarrow> bool" where
  "chunk_adm (Chunking st r c) x = (length r + length x \<le> MAX_HEADER_BYTES)"
| "chunk_adm _ x = True"

interpretation chunked: stream_machine chunk_feed chunk_adm
proof
  fix s and a b :: bytes
  assume adm: "chunk_adm s (a @ b)"
  have "chunk_feed s (a @ b) = (fst (chunk_feed s a) @ fst (chunk_feed (snd (chunk_feed s a)) b),
          snd (chunk_feed (snd (chunk_feed s a)) b)) \<and> chunk_adm (snd (chunk_feed s a)) b"
  proof (cases s)
    case (Chunking st r c)
    obtain step st' r' c' where e: "chunk_consume st (r @ a) c = (step, st', r', c')"
      by (metis prod_cases4)
    have "length ((r @ a) @ b) \<le> MAX_HEADER_BYTES" using adm Chunking by simp
    note law = chunk_consume_append[OF e this]
    have "length r' + length b \<le> MAX_HEADER_BYTES"
      using chunk_consume_shrinks[OF e] adm Chunking by simp
    with law e Chunking show ?thesis
      by (cases step) (auto split: prod.splits body_step.splits)
  qed auto
  then show "chunk_feed s (a @ b) = (fst (chunk_feed s a) @ fst (chunk_feed (snd (chunk_feed s a)) b),
          snd (chunk_feed (snd (chunk_feed s a)) b))" "chunk_adm (snd (chunk_feed s a)) b" by blast+
qed

fun chunk_small :: "chunk_stream \<Rightarrow> bool" where
  "chunk_small (Chunking st r c) = (length r \<le> 1)"
| "chunk_small _ = True"

lemma chunk_feed_small: "chunk_small (snd (chunk_feed s x))"
  by (cases s) (auto dest: chunk_consume_rest split: prod.splits body_step.splits)

lemma chunk_reads_adm:
  "chunk_small s \<Longrightarrow> \<forall>c\<in>set cs. c \<noteq> [] \<and> length c < MAX_HEADER_BYTES \<Longrightarrow> adm_all chunk_feed chunk_adm s cs"
proof (induction cs arbitrary: s)
  case Nil
  then show ?case by simp
next
  case (Cons c cs)
  then have "chunk_adm s c" by (cases s) auto
  with Cons show ?case by (simp add: chunk_feed_small)
qed

subsection \<open>Chunked encoding and its decoding\<close>

definition chunk_enc :: "bytes \<Rightarrow> bytes" where
  "chunk_enc d = hex_str (length d) @ CRLF @ d @ CRLF"

definition chunked_enc :: "bytes list \<Rightarrow> bytes" where
  "chunked_enc ds = concat (map chunk_enc ds) @ [48] @ CRLF @ CRLF"

abbreviation bytewise_feed :: "chunk_stream \<Rightarrow> bytes \<Rightarrow> chunk_stream" where
  "bytewise_feed s x \<equiv> snd (feed_all chunk_feed s (map (\<lambda>b. [b]) x))"

lemma bytewise_append: "bytewise_feed s (x @ y) = bytewise_feed (bytewise_feed s x) y"
  by (simp add: feed_all_append)

lemma bytewise_Cons: "bytewise_feed s (b # x) = bytewise_feed (snd (chunk_feed s [b])) x"
  by (simp add: case_prod_unfold Let_def)

lemma bytewise_size: "10 \<notin> set x \<Longrightarrow>
    bytewise_feed (Chunking (Ch_Size l) [] c) x = Chunking (Ch_Size (l @ x)) [] c"
proof (induction x arbitrary: l)
  case Nil
  then show ?case by simp
next
  case (Cons b x)
  then show ?case
    by (simp add: bytewise_Cons chunk_steps MAX_HEADER_BYTES_def del: feed_all.simps list.map)
qed

lemma after_size_hex:
  assumes "n \<le> usize_max"
  shows "after_size (hex_str n @ CRLF) = Some (if n = 0 then Ch_Trailer [] else Ch_Data n)"
proof -
  have ch: "list_all (\<lambda>b. 48 \<le> b \<and> b \<le> 102 \<and> b \<noteq> 59) (hex_str n)"
    by (simp add: hex_str_def to_radix_chars)
  obtain d r where "hex_str n = d # r" using to_radix_hd[of 16 n] by (auto simp: hex_str_def)
  then have ne: "hex_str n \<noteq> []" by simp
  then have "last (hex_str n) \<in> set (hex_str n)" by simp
  with ch have "last (hex_str n) \<noteq> 10 \<and> last (hex_str n) \<noteq> 13"
    by (auto simp: list_all_iff word_le_nat_alt)
  then have t: "trim_crlf (hex_str n @ CRLF) = hex_str n"
    using ne by (cases "hex_str n" rule: rev_cases) (simp_all add: trim_crlf.simps CRLF_def)
  have "59 \<notin> set (hex_str n)" using ch by (auto simp: list_all_iff)
  then have h: "hd (split_on 59 (hex_str n)) = hex_str n" by (simp add: split_on_free)
  have pr: "printable (hex_str n)" by (simp add: hex_str_def to_radix_printable)
  have "parse_hex (hex_str n) = Some n"
    using assms ne by (simp add: parse_hex_def printable_ascii[OF pr] trim_printable[OF pr])
      (simp add: hex_str_def parse_to_radix)
  then show ?thesis by (simp add: after_size_def t h)
qed

lemma bytewise_size_line:
  assumes "n \<le> usize_max"
  shows "bytewise_feed (Chunking (Ch_Size []) [] c) (hex_str n @ CRLF)
    = Chunking (if n = 0 then Ch_Trailer [] else Ch_Data n) [] c"
proof -
  have "list_all (\<lambda>b. 48 \<le> b \<and> b \<le> 102 \<and> b \<noteq> 59) (hex_str n)"
    by (simp add: hex_str_def to_radix_chars)
  then have "10 \<notin> set (hex_str n @ [13])" by (auto simp: list_all_iff word_le_nat_alt)
  then have "bytewise_feed (Chunking (Ch_Size []) [] c) ((hex_str n @ [13]) @ [10])
      = bytewise_feed (Chunking (Ch_Size (hex_str n @ [13])) [] c) [10]"
    using bytewise_append bytewise_size by (metis append_Nil)
  also have "\<dots> = Chunking (if n = 0 then Ch_Trailer [] else Ch_Data n) [] c"
    using after_size_hex[OF assms]
    by (simp add: CRLF_def chunk_steps MAX_HEADER_BYTES_def)
  finally show ?thesis by (simp add: CRLF_def)
qed

lemma bytewise_data:
  "d \<noteq> [] \<Longrightarrow> bytewise_feed (Chunking (Ch_Data (length d)) [] c) d = Chunking Ch_DataCrlf [] (push_capped c d)"
proof (induction d arbitrary: c)
  case Nil
  then show ?case by simp
next
  case (Cons b d)
  show ?case
  proof (cases "d = []")
    case True
    then show ?thesis by (simp add: chunk_steps)
  next
    case False
    then have "snd (chunk_feed (Chunking (Ch_Data (length (b # d))) [] c) [b]) = Chunking (Ch_Data (length d)) [] (push_capped c [b])"
      by (simp add: chunk_steps)
    with False Cons.IH show ?thesis
      by (simp add: bytewise_Cons push_capped_append del: feed_all.simps list.map chunk_feed.simps)
  qed
qed

lemma bytewise_crlf: "bytewise_feed (Chunking Ch_DataCrlf [] c) CRLF = Chunking (Ch_Size []) [] c"
  by (simp add: CRLF_def chunk_steps MAX_HEADER_BYTES_def)

lemma bytewise_end: "bytewise_feed (Chunking (Ch_Trailer []) [] c) CRLF = Chunked_done [] c"
  by (simp add: CRLF_def chunk_steps MAX_HEADER_BYTES_def trim_crlf.simps)

lemma bytewise_done: "bytewise_feed (Chunked_done r c) x = Chunked_done (r @ x) c"
  by (induction x arbitrary: r) (simp_all add: case_prod_unfold Let_def)

lemma bytewise_chunks:
  "\<forall>d\<in>set ds. d \<noteq> [] \<and> length d \<le> usize_max \<Longrightarrow>
   bytewise_feed (Chunking (Ch_Size []) [] c) (concat (map chunk_enc ds)) = Chunking (Ch_Size []) [] (push_capped c (concat ds))"
proof (induction ds arbitrary: c)
  case Nil
  then show ?case by simp
next
  case (Cons d ds)
  then have "d \<noteq> []" "length d \<le> usize_max" by auto
  then have "bytewise_feed (Chunking (Ch_Size []) [] c) ((hex_str (length d) @ CRLF) @ d @ CRLF)
      = Chunking (Ch_Size []) [] (push_capped c d)"
    unfolding bytewise_append bytewise_size_line[OF \<open>length d \<le> usize_max\<close>, unfolded bytewise_append]
    by (simp add: bytewise_data bytewise_crlf del: feed_all.simps list.map)
  with Cons show ?case
    by (simp only: list.map concat.simps bytewise_append chunk_enc_def append_assoc)
      (simp add: push_capped_append)
qed

lemma chunk_feed_no_output: "fst (feed_all chunk_feed s xs) = []"
proof (induction xs arbitrary: s)
  case Nil
  then show ?case by simp
next
  case (Cons x xs)
  have "fst (chunk_feed s x) = []"
    by (cases s) (auto split: prod.splits body_step.splits)
  with Cons show ?case by (simp add: case_prod_unfold Let_def)
qed

text \<open>A chunked body is decoded right under every TCP segmentation. However the encoding of any
  non-empty chunks, followed by anything, is cut into reads of less than the header cap, the decoder
  ends with exactly the concatenated data (stored up to the capture cap, all of it counted) and hands
  back exactly the bytes after the body.\<close>

theorem chunked_body_decoded:
  assumes "\<forall>d\<in>set ds. d \<noteq> [] \<and> length d \<le> usize_max"
    and "\<forall>r\<in>set reads. r \<noteq> [] \<and> length r < MAX_HEADER_BYTES"
    and "concat reads = chunked_enc ds @ rest"
  shows "feed_all chunk_feed (Chunking (Ch_Size []) [] body_cap_new) reads
    = ([], Chunked_done rest (push_capped body_cap_new (concat ds)))"
proof (rule prod_eqI)
  let ?s = "Chunking (Ch_Size []) [] body_cap_new"
  have "adm_all chunk_feed chunk_adm ?s reads" by (rule chunk_reads_adm) (use assms(2) in auto)
  then have "snd (feed_all chunk_feed ?s reads) = bytewise_feed ?s (concat reads)"
    by (simp only: chunked.reads_as_bytes)
  also have "\<dots> = bytewise_feed ?s (concat (map chunk_enc ds) @ (hex_str 0 @ CRLF) @ CRLF @ rest)"
    by (simp add: assms(3) chunked_enc_def hex_str_def to_radix.simps digit_char_def)
  also have "\<dots> = Chunked_done rest (push_capped body_cap_new (concat ds))"
    unfolding bytewise_append bytewise_chunks[OF assms(1)] bytewise_size_line[of 0, unfolded bytewise_append, OF le0] simp_thms if_True
    unfolding bytewise_end bytewise_done by simp
  finally show "snd (feed_all chunk_feed ?s reads)
      = snd ([], Chunked_done rest (push_capped body_cap_new (concat ds)))" by simp
qed (simp add: chunk_feed_no_output)

lemma chunked_body_decoded_witness:
  "feed_all chunk_feed (Chunking (Ch_Size []) [] body_cap_new)
     [[51], [13, 10, 97, 98], [99, 13], [10, 48, 13, 10, 13, 10, 7]]
   = ([], Chunked_done [7] (push_capped body_cap_new (concat [[97, 98, 99]])))"
  by (rule chunked_body_decoded)
    (simp_all add: usize_max_def MAX_HEADER_BYTES_def chunked_enc_def chunk_enc_def CRLF_def
      hex_str_def to_radix.simps digit_char_def)

end
