(* ===== verification/Dns_Filter.thy ===== *)
theory Dns_Filter
  imports Dns Http_Head
begin

unbundle bit_operations_syntax

section \<open>Filtering DNS inside intercepted TLS\<close>

text \<open>
  \<open>rust/tls/src/dns.rs\<close>: the DoT framer and the HTTP/1.1 side of the DoH filter. The blocklist is
  the parameter \<open>isb\<close>, the closure the datapath passes. The outer \<open>option\<close> is a panic. Sums of
  \<open>usize\<close> that the code does not check wrap at \<open>2 ^ 64\<close> here, as in the release profile.
\<close>

datatype dns_kind = Kind_Dot | Kind_Doh

record dns_cross =
  dc_to_upstream :: bytes
  dc_to_app :: bytes

definition dns_cross_new :: dns_cross where
  "dns_cross_new = \<lparr>dc_to_upstream = [], dc_to_app = []\<rparr>"

definition to_upstream :: "bytes \<Rightarrow> dns_cross \<Rightarrow> dns_cross" where
  "to_upstream x out = out\<lparr>dc_to_upstream := dc_to_upstream out @ x\<rparr>"

definition to_app :: "bytes \<Rightarrow> dns_cross \<Rightarrow> dns_cross" where
  "to_app x out = out\<lparr>dc_to_app := dc_to_app out @ x\<rparr>"

definition MAX_PENDING :: nat where
  "MAX_PENDING = 128 * 1024"

definition push_framed :: "bytes \<Rightarrow> bytes" where
  \<comment> \<open>what is appended: a two-byte length and the message, cut at 65,535 bytes\<close>
  "push_framed msg = (let len = min (length msg) 65535 in be16 (word_of_nat len) @ take len msg)"

subsection \<open>DNS over TLS\<close>

record dot =
  dot_buf :: bytes
  dot_passthrough :: bool

definition dot_new :: dot where
  "dot_new = \<lparr>dot_buf = [], dot_passthrough = False\<rparr>"

function dot_loop :: "(bytes \<Rightarrow> bool) \<Rightarrow> dot \<Rightarrow> bytes list \<Rightarrow> dns_cross \<Rightarrow> (dot \<times> bytes list \<times> dns_cross) option"
where
  "dot_loop isb d blocked out =
     (if length (dot_buf d) < 2 then Some (d, blocked, out)
      else
        let buf = dot_buf d; len = be16n (buf ! 0) (buf ! 1); tot = 2 + len
        in if length buf < tot then
             if tot > MAX_PENDING
             then Some (d\<lparr>dot_passthrough := True, dot_buf := []\<rparr>, blocked, to_upstream buf out)
             else Some (d, blocked, out)
           else
             let framed = take tot buf; d' = d\<lparr>dot_buf := drop tot buf\<rparr>
             in case slice framed 2 (length framed) of
                  None \<Rightarrow> None
                | Some msg \<Rightarrow>
                    (case parse_query msg of
                       None \<Rightarrow> None
                     | Some (Some q) \<Rightarrow>
                         if isb (q_name q) then
                           (case synthesize_nxdomain msg q of
                              None \<Rightarrow> None
                            | Some answer \<Rightarrow>
                                dot_loop isb d' (blocked @ [q_name q]) (to_app (push_framed answer) out))
                         else dot_loop isb d' blocked (to_upstream framed out)
                     | Some None \<Rightarrow> dot_loop isb d' blocked (to_upstream framed out)))"
  by pat_completeness auto
termination
  by (relation "measure (\<lambda>(_, d, _). length (dot_buf d))") auto

declare dot_loop.simps [simp del]

definition dot_on_app_data ::
  "(bytes \<Rightarrow> bool) \<Rightarrow> dot \<Rightarrow> bytes \<Rightarrow> bytes list \<Rightarrow> dns_cross \<Rightarrow> (dot \<times> bytes list \<times> dns_cross) option" where
  "dot_on_app_data isb d data blocked out =
     (if dot_passthrough d then Some (d, blocked, to_upstream data out)
      else dot_loop isb (d\<lparr>dot_buf := dot_buf d @ data\<rparr>) blocked out)"

text \<open>The reads of a flow, one by one.\<close>

fun dot_run :: "(bytes \<Rightarrow> bool) \<Rightarrow> dot \<Rightarrow> bytes list \<Rightarrow> bytes list \<Rightarrow> dns_cross \<Rightarrow> (dot \<times> bytes list \<times> dns_cross) option"
where
  "dot_run isb d [] blocked out = Some (d, blocked, out)"
| "dot_run isb d (x # xs) blocked out =
     Option.bind (dot_on_app_data isb d x blocked out) (\<lambda>(d, blocked, out). dot_run isb d xs blocked out)"

subsubsection \<open>Specification: the frames of the stream\<close>

function dot_frames :: "bytes \<Rightarrow> bytes list \<times> bytes" where
  \<comment> \<open>the complete length-prefixed frames of a stream and the incomplete rest\<close>
  "dot_frames buf =
     (if length buf < 2 \<or> length buf < 2 + be16n (buf ! 0) (buf ! 1) then ([], buf)
      else let n = 2 + be16n (buf ! 0) (buf ! 1); (fs, r) = dot_frames (drop n buf)
           in (take n buf # fs, r))"
  by pat_completeness auto
termination
  by (relation "measure length") auto

declare dot_frames.simps [simp del]

definition frame_blocked :: "(bytes \<Rightarrow> bool) \<Rightarrow> bytes \<Rightarrow> question option" where
  "frame_blocked isb f =
     (case parse_query (drop 2 f) of Some (Some q) \<Rightarrow> if isb (q_name q) then Some q else None | _ \<Rightarrow> None)"

definition frame_forward :: "(bytes \<Rightarrow> bool) \<Rightarrow> bytes \<Rightarrow> bytes" where
  "frame_forward isb f = (if frame_blocked isb f = None then f else [])"

definition frame_answer :: "(bytes \<Rightarrow> bool) \<Rightarrow> bytes \<Rightarrow> bytes" where
  \<comment> \<open>the framed NXDOMAIN reply to a blocked query\<close>
  "frame_answer isb f =
     (case frame_blocked isb f of None \<Rightarrow> []
      | Some q \<Rightarrow> push_framed (response_of (drop 2 f) (q_end q) 3 0 []))"

definition frame_names :: "(bytes \<Rightarrow> bool) \<Rightarrow> bytes \<Rightarrow> bytes list" where
  "frame_names isb f = (case frame_blocked isb f of None \<Rightarrow> [] | Some q \<Rightarrow> [q_name q])"

definition dot_result :: "(bytes \<Rightarrow> bool) \<Rightarrow> bytes \<Rightarrow> bytes list \<Rightarrow> dns_cross \<Rightarrow> dot \<times> bytes list \<times> dns_cross" where
  "dot_result isb buf blocked out =
     (let (fs, r) = dot_frames buf
      in (\<lparr>dot_buf = r, dot_passthrough = False\<rparr>, blocked @ concat (map (frame_names isb) fs),
          \<lparr>dc_to_upstream = dc_to_upstream out @ concat (map (frame_forward isb) fs),
           dc_to_app = dc_to_app out @ concat (map (frame_answer isb) fs)\<rparr>))"

lemma dot_frames_wait:
  "length buf < 2 \<or> length buf < 2 + be16n (buf ! 0) (buf ! 1) \<Longrightarrow> dot_frames buf = ([], buf)"
  by (subst dot_frames.simps) simp

lemma dot_frames_step:
  "2 \<le> length buf \<Longrightarrow> 2 + be16n (buf ! 0) (buf ! 1) \<le> length buf \<Longrightarrow>
   dot_frames buf = (take (2 + be16n (buf ! 0) (buf ! 1)) buf # fst (dot_frames (drop (2 + be16n (buf ! 0) (buf ! 1)) buf)),
                     snd (dot_frames (drop (2 + be16n (buf ! 0) (buf ! 1)) buf)))"
  by (subst dot_frames.simps) (simp add: case_prod_unfold Let_def)

lemma dot_frames_append:
  "dot_frames (a @ b) = (fst (dot_frames a) @ fst (dot_frames (snd (dot_frames a) @ b)), snd (dot_frames (snd (dot_frames a) @ b)))"
proof (induction a rule: dot_frames.induct)
  case (1 buf)
  show ?case
  proof (cases "length buf < 2 \<or> length buf < 2 + be16n (buf ! 0) (buf ! 1)")
    case True
    then show ?thesis by (simp add: dot_frames_wait)
  next
    case False
    let ?n = "2 + be16n (buf ! 0) (buf ! 1)"
    have h: "(buf @ b) ! 0 = buf ! 0" "(buf @ b) ! 1 = buf ! 1" using False by (auto simp: nth_append)
    have "dot_frames (drop ?n buf @ b) =
        (fst (dot_frames (drop ?n buf)) @ fst (dot_frames (snd (dot_frames (drop ?n buf)) @ b)),
         snd (dot_frames (snd (dot_frames (drop ?n buf)) @ b)))"
      by (rule "1.IH"[OF False refl])
    with False h show ?thesis
      using dot_frames_step[of buf] dot_frames_step[of "buf @ b"] by simp
  qed
qed

lemma dot_step_total:
  obtains (fwd) "parse_query msg = Some None"
    | (query) q where "parse_query msg = Some (Some q)"
        "synthesize_nxdomain msg q = Some (response_of msg (q_end q) 3 0 [])"
proof -
  obtain r where r: "parse_query msg = Some r" using parse_query_never_panics by blast
  show thesis
  proof (cases r)
    case None
    with r fwd show ?thesis by simp
  next
    case (Some q)
    with r have "parse_query msg = Some (Some q)" by simp
    from build_response_answers[OF this, of 3 "[]" 0] this query show ?thesis
      by (auto simp: answers_query_def synthesize_nxdomain_def)
  qed
qed

lemma dot_loop_step:
  assumes "2 + be16n (dot_buf d ! 0) (dot_buf d ! 1) = n" and "2 \<le> length (dot_buf d)" and "n \<le> length (dot_buf d)"
  shows "dot_loop isb d blocked out =
    (case parse_query (drop 2 (take n (dot_buf d))) of
       None \<Rightarrow> None
     | Some (Some q) \<Rightarrow>
         if isb (q_name q) then
           (case synthesize_nxdomain (drop 2 (take n (dot_buf d))) q of None \<Rightarrow> None
            | Some answer \<Rightarrow> dot_loop isb (d\<lparr>dot_buf := drop n (dot_buf d)\<rparr>) (blocked @ [q_name q]) (to_app (push_framed answer) out))
         else dot_loop isb (d\<lparr>dot_buf := drop n (dot_buf d)\<rparr>) blocked (to_upstream (take n (dot_buf d)) out)
     | Some None \<Rightarrow> dot_loop isb (d\<lparr>dot_buf := drop n (dot_buf d)\<rparr>) blocked (to_upstream (take n (dot_buf d)) out))"
proof -
  have n2: "2 \<le> n" using assms(1) by simp
  have sl: "slice (take n (dot_buf d)) 2 (length (take n (dot_buf d))) = Some (drop 2 (take n (dot_buf d)))"
    using assms(3) n2 by (simp del: drop_take)
  have c: "\<not> length (dot_buf d) < 2" "\<not> length (dot_buf d) < n" using assms(2,3) by simp_all
  show ?thesis
    by (subst dot_loop.simps) (simp only: Let_def assms(1) c if_False sl option.case)
qed

lemma dot_loop_spec:
  "\<not> dot_passthrough d \<Longrightarrow> dot_loop isb d blocked out = Some (dot_result isb (dot_buf d) blocked out)"
proof (induction "length (dot_buf d)" arbitrary: d blocked out rule: less_induct)
  case less
  let ?buf = "dot_buf d"
  let ?n = "2 + be16n (?buf ! 0) (?buf ! 1)"
  have d: "d = \<lparr>dot_buf = ?buf, dot_passthrough = False\<rparr>" using less.prems by simp
  show ?case
  proof (cases "length ?buf < 2 \<or> length ?buf < ?n")
    case True
    have "\<not> ?n > MAX_PENDING" using be16n_less[of "?buf ! 0" "?buf ! 1"] unfolding MAX_PENDING_def by linarith
    with True have "dot_loop isb d blocked out = Some (d, blocked, out)"
      by (subst dot_loop.simps) (auto simp: Let_def)
    then show ?thesis using d True by (simp add: dot_result_def dot_frames_wait)
  next
    case False
    let ?f = "take ?n ?buf" and ?d = "d\<lparr>dot_buf := drop ?n ?buf\<rparr>"
    have split: "dot_result isb ?buf blocked out =
        dot_result isb (drop ?n ?buf) (blocked @ frame_names isb ?f)
          \<lparr>dc_to_upstream = dc_to_upstream out @ frame_forward isb ?f, dc_to_app = dc_to_app out @ frame_answer isb ?f\<rparr>"
      using False dot_frames_step[of ?buf] by (simp add: dot_result_def case_prod_unfold Let_def)
    have loop: "dot_loop isb d blocked out =
        (case parse_query (drop 2 ?f) of
           None \<Rightarrow> None
         | Some (Some q) \<Rightarrow>
             if isb (q_name q) then
               (case synthesize_nxdomain (drop 2 ?f) q of None \<Rightarrow> None
                | Some answer \<Rightarrow> dot_loop isb ?d (blocked @ [q_name q]) (to_app (push_framed answer) out))
             else dot_loop isb ?d blocked (to_upstream ?f out)
         | Some None \<Rightarrow> dot_loop isb ?d blocked (to_upstream ?f out))"
      using False by (intro dot_loop_step) auto
    have ih: "dot_loop isb ?d b o' = Some (dot_result isb (drop ?n ?buf) b o')" for b o'
    proof -
      have "0 < length ?buf" using False by linarith
      then have "length (dot_buf ?d) < length ?buf" by simp
      from less.hyps[OF this, of b o'] less.prems show ?thesis by simp
    qed
    show ?thesis
    proof (cases rule: dot_step_total[of "drop 2 ?f"])
      case fwd
      then have "frame_blocked isb ?f = None" by (simp add: frame_blocked_def)
      with ih fwd show ?thesis
        unfolding loop split by (simp add: frame_forward_def frame_answer_def frame_names_def to_upstream_def dot_result_def)
    next
      case (query q)
      show ?thesis
      proof (cases "isb (q_name q)")
        case True
        then have "frame_blocked isb ?f = Some q" using query by (simp add: frame_blocked_def)
        with ih query True show ?thesis
          unfolding loop split by (simp add: frame_forward_def frame_answer_def frame_names_def to_app_def dot_result_def)
      next
        case nb: False
        then have "frame_blocked isb ?f = None" using query by (simp add: frame_blocked_def)
        with ih query nb show ?thesis
          unfolding loop split by (simp add: frame_forward_def frame_answer_def frame_names_def to_upstream_def dot_result_def)
      qed
    qed
  qed
qed

lemma dot_run_spec:
  "dot_frames buf = ([], buf) \<Longrightarrow> dot_run isb \<lparr>dot_buf = buf, dot_passthrough = False\<rparr> reads blocked out
    = Some (dot_result isb (buf @ concat reads) blocked out)"
proof (induction reads arbitrary: buf blocked out)
  case Nil
  then show ?case by (simp add: dot_result_def)
next
  case (Cons x xs)
  obtain fs r where fr: "dot_frames (buf @ x) = (fs, r)" by force
  have "dot_frames ((buf @ x) @ []) = (fst (dot_frames (buf @ x)) @ fst (dot_frames (snd (dot_frames (buf @ x)) @ [])),
      snd (dot_frames (snd (dot_frames (buf @ x)) @ [])))" by (rule dot_frames_append)
  then have r: "dot_frames r = ([], r)" using fr by (simp add: prod_eq_iff)
  have "dot_frames ((buf @ x) @ concat xs) = (fs @ fst (dot_frames (r @ concat xs)), snd (dot_frames (r @ concat xs)))"
    using dot_frames_append[of "buf @ x" "concat xs"] fr by simp
  then show ?case
    using Cons.IH[OF r] fr
    by (simp add: dot_on_app_data_def dot_loop_spec dot_result_def case_prod_unfold Let_def)
qed

text \<open>C21: the DoT filter is exact under every TCP segmentation. However the client's stream is cut
  into reads, nothing panics, the resolver receives exactly the complete frames whose query is not
  blocked (and those that do not parse), verbatim and in order, the client receives exactly the
  framed NXDOMAIN replies to the blocked ones, exactly their names are reported, the incomplete tail
  is kept, and the verbatim fallback is never entered.\<close>

theorem dot_filter_exact:
  "dot_run isb dot_new reads [] dns_cross_new =
     (let (frames, tail) = dot_frames (concat reads)
      in Some (\<lparr>dot_buf = tail, dot_passthrough = False\<rparr>,
           map q_name (List.map_filter (frame_blocked isb) frames),
           \<lparr>dc_to_upstream = concat (filter (\<lambda>f. frame_blocked isb f = None) frames),
            dc_to_app = concat (map (frame_answer isb) frames)\<rparr>))"
proof -
  have fwd: "concat (map (frame_forward isb) fs) = concat (filter (\<lambda>f. frame_blocked isb f = None) fs)" for fs
    by (induction fs) (simp_all add: frame_forward_def)
  have names: "concat (map (frame_names isb) fs) = map q_name (List.map_filter (frame_blocked isb) fs)" for fs
    by (induction fs) (auto simp: frame_names_def List.map_filter_simps split: option.splits)
  have "dot_frames [] = ([], [])" by (simp add: dot_frames_wait)
  then show ?thesis
    using dot_run_spec[of "[]" isb reads "[]" dns_cross_new]
    by (simp add: dot_new_def dot_result_def fwd names dns_cross_new_def case_prod_unfold Let_def)
qed

subsection \<open>DNS over HTTPS: requests\<close>

datatype doh_proto = Doh_H2 | Doh_H1

definition PREFACE :: bytes where
  "PREFACE = asc ''PRI * HTTP/2.0'' @ CRLF @ CRLF @ asc ''SM'' @ CRLF @ CRLF"

definition decide_proto :: "bytes \<Rightarrow> doh_proto option" where
  "decide_proto buf =
     (if length buf \<ge> length PREFACE
      then Some (if take (length PREFACE) buf = PREFACE then Doh_H2 else Doh_H1)
      else if prefix buf PREFACE then None else Some Doh_H1)"

datatype extracted = Ex_Wire bytes | Ex_JsonName bytes | Ex_Unknown

definition b64url_val :: "u8 \<Rightarrow> u32 option" where
  "b64url_val c =
     (if 65 \<le> c \<and> c \<le> 90 then Some (ucast (c - 65))
      else if 97 \<le> c \<and> c \<le> 122 then Some (ucast (c - 97 + 26))
      else if 48 \<le> c \<and> c \<le> 57 then Some (ucast (c - 48 + 52))
      else if c = 45 then Some 62
      else if c = 95 then Some 63
      else None)"

fun b64url_loop :: "bytes \<Rightarrow> u32 \<Rightarrow> nat \<Rightarrow> bytes \<Rightarrow> bytes option" where
  "b64url_loop [] acc bits out = Some out"
| "b64url_loop (c # cs) acc bits out =
     (case b64url_val c of
        None \<Rightarrow> None
      | Some v \<Rightarrow>
          let acc = push_bit 6 acc OR v; bits = bits + 6
          in if bits \<ge> 8 then b64url_loop cs acc (bits - 8) (out @ [ucast (drop_bit (bits - 8) acc)])
             else b64url_loop cs acc bits out)"

definition b64url_decode :: "bytes \<Rightarrow> bytes option" where
  "b64url_decode s =
     (let s = trim_end_char 61 s in if s = [] then None else b64url_loop s 0 0 [])"

definition hex_val :: "u8 \<Rightarrow> u8 option" where
  "hex_val c =
     (if 48 \<le> c \<and> c \<le> 57 then Some (c - 48)
      else if 97 \<le> c \<and> c \<le> 102 then Some (c - 97 + 10)
      else if 65 \<le> c \<and> c \<le> 70 then Some (c - 65 + 10) else None)"

fun percent_bytes :: "bytes \<Rightarrow> bytes" where
  "percent_bytes [] = []"
| "percent_bytes (c # cs) =
     (case cs of
        x # y # rest \<Rightarrow>
          (case (c = 37, hex_val x, hex_val y) of
             (True, Some h, Some l) \<Rightarrow> (h * 16 + l) # percent_bytes rest
           | _ \<Rightarrow> (if c = 43 then 32 else c) # percent_bytes cs)
      | _ \<Rightarrow> (if c = 43 then 32 else c) # percent_bytes cs)"

definition percent_decode :: "bytes \<Rightarrow> bytes" where
  "percent_decode s = utf8_lossy (percent_bytes s)"

fun extract_params :: "bytes list \<Rightarrow> extracted" where
  "extract_params [] = Ex_Unknown"
| "extract_params (kv # kvs) =
     (let (k, v) = (case split_once 61 kv of None \<Rightarrow> (kv, []) | Some p \<Rightarrow> p)
      in if k = asc ''dns'' then
           (case b64url_decode v of Some wire \<Rightarrow> Ex_Wire wire | None \<Rightarrow> extract_params kvs)
         else if k = asc ''name'' then Ex_JsonName (to_lower (percent_decode v))
         else extract_params kvs)"

definition extract_query :: "bytes \<Rightarrow> bytes \<Rightarrow> bytes \<Rightarrow> bytes \<Rightarrow> extracted" where
  "extract_query meth path ct body =
     (if eq_ignore_case meth (asc ''POST'') then
        if prefix (asc ''application/dns-message'') ct \<or> body \<noteq> [] then Ex_Wire body else Ex_Unknown
      else
        let query = (case split_once 63 path of None \<Rightarrow> [] | Some (_, q) \<Rightarrow> q)
        in extract_params (split_on 38 query))"

definition block_wire :: "(bytes \<Rightarrow> bool) \<Rightarrow> bytes \<Rightarrow> (bytes \<times> bytes) option option" where
  "block_wire isb wire = do {
     r \<leftarrow> parse_query wire;
     case r of
       None \<Rightarrow> Some None
     | Some q \<Rightarrow>
         if isb (q_name q) then do { answer \<leftarrow> synthesize_nxdomain wire q; Some (Some (q_name q, answer)) }
         else Some None
   }"

fun json_escape :: "bytes \<Rightarrow> bytes" where
  \<comment> \<open>\<open>replace\<close> of every backslash, then of every quote\<close>
  "json_escape [] = []"
| "json_escape (c # cs) = (if c = 92 then [92, 92] else if c = 34 then [92, 34] else [c]) @ json_escape cs"

definition json_nxdomain :: "bytes \<Rightarrow> bytes" where
  "json_nxdomain name =
     asc ''{\"Status\":3,\"TC\":false,\"RD\":true,\"RA\":true,\"AD\":false,\"CD\":false,\"Question\":[{\"name\":\"''
     @ json_escape name @ asc ''\",\"type\":1}],\"Answer\":[]}''"

definition h1_response :: "bytes \<Rightarrow> bytes \<Rightarrow> bytes" where
  "h1_response ct body =
     asc ''HTTP/1.1 200 OK'' @ CRLF @ asc ''Content-Type: '' @ ct @ CRLF
     @ asc ''Content-Length: '' @ dec_str (length body) @ CRLF
     @ asc ''Connection: keep-alive'' @ CRLF @ CRLF @ body"

subsection \<open>DNS over HTTPS: the HTTP/1.1 client side\<close>

record doh =
  doh_buf :: bytes
  doh_authority :: bytes
  doh_passthrough :: bool

definition wrap64 :: "nat \<Rightarrow> nat" where
  "wrap64 n = n mod 2 ^ 64"

definition or_empty :: "bytes option \<Rightarrow> bytes" where
  "or_empty s = (case s of None \<Rightarrow> [] | Some v \<Rightarrow> v)"

definition doh_answer ::
  "(bytes \<Rightarrow> bool) \<Rightarrow> bytes \<Rightarrow> extracted \<Rightarrow> bytes list \<Rightarrow> dns_cross \<Rightarrow> (bytes list \<times> dns_cross) option" where
  \<comment> \<open>one request: answered here when blocked, else forwarded as it is\<close>
  "doh_answer isb req ex blocked out =
     (case ex of
        Ex_Wire wire \<Rightarrow> do {
          r \<leftarrow> block_wire isb wire;
          case r of
            Some (name, answer) \<Rightarrow>
              Some (blocked @ [name], to_app (h1_response (asc ''application/dns-message'') answer) out)
          | None \<Rightarrow> Some (blocked, to_upstream req out)
        }
      | Ex_JsonName name \<Rightarrow>
          if isb name
          then Some (blocked @ [name], to_app (h1_response (asc ''application/dns-json'') (json_nxdomain name)) out)
          else Some (blocked, to_upstream req out)
      | Ex_Unknown \<Rightarrow> Some (blocked, to_upstream req out))"

definition enter_passthrough :: "doh \<Rightarrow> dns_cross \<Rightarrow> doh \<times> dns_cross" where
  "enter_passthrough d out = (d\<lparr>doh_passthrough := True, doh_buf := []\<rparr>, to_upstream (doh_buf d) out)"

datatype doh_next =
    Dn_Wait \<comment> \<open>the head or the body is still incomplete\<close>
  | Dn_Bad \<comment> \<open>unparseable, or a body that is not framed by its length\<close>
  | Dn_Request nat nat bytes bytes headers \<comment> \<open>total and head length, method, target, headers\<close>

definition doh_h1_next :: "bytes \<Rightarrow> doh_next" where
  \<comment> \<open>the loop body up to \<open>drain\<close>\<close>
  "doh_h1_next buf =
     (case find_header_end buf of
        None \<Rightarrow> Dn_Wait
      | Some hend \<Rightarrow>
      (case parse_head_fields (take hend buf) of
         None \<Rightarrow> Dn_Bad
       | Some (start, hs) \<Rightarrow>
      (case parse_request_line start of
         None \<Rightarrow> Dn_Bad
       | Some (meth, target, _) \<Rightarrow>
      (case (case request_framing hs of None \<Rightarrow> Some 0 | Some (Fr_Length n) \<Rightarrow> Some n | Some _ \<Rightarrow> None) of
         None \<Rightarrow> Dn_Bad
       | Some body_len \<Rightarrow>
           let tot = wrap64 (hend + body_len)
           in if length buf < tot then Dn_Wait else Dn_Request tot hend meth target hs))))"

lemma doh_h1_next_hend: "doh_h1_next buf = Dn_Request tot hend m t hs \<Longrightarrow> 4 \<le> hend \<and> hend \<le> length buf"
  by (auto simp: doh_h1_next_def find_header_end_def Let_def dest: find_sub_bound
      split: option.splits prod.splits framing.splits if_splits)

function doh_h1_loop ::
  "(bytes \<Rightarrow> bool) \<Rightarrow> doh \<Rightarrow> bytes list \<Rightarrow> dns_cross \<Rightarrow> (doh \<times> bytes list \<times> dns_cross) option" where
  "doh_h1_loop isb d blocked out =
     (case doh_h1_next (doh_buf d) of
        Dn_Wait \<Rightarrow> Some (d, blocked, out)
      | Dn_Bad \<Rightarrow> (let (d', out') = enter_passthrough d out in Some (d', blocked, out'))
      | Dn_Request tot hend meth target hs \<Rightarrow>
          let req = take tot (doh_buf d)
          in (case slice req hend (length req) of
                None \<Rightarrow> None
              | Some body \<Rightarrow>
                  let ct = or_empty (header hs (asc ''content-type''));
                      d' = d\<lparr>doh_buf := drop tot (doh_buf d),
                             doh_authority := (if doh_authority d = [] then or_empty (header hs (asc ''host''))
                                               else doh_authority d)\<rparr>
                  in (case doh_answer isb req (extract_query meth target ct body) blocked out of
                        None \<Rightarrow> None
                      | Some (blocked', out') \<Rightarrow> doh_h1_loop isb d' blocked' out')))"
  by pat_completeness auto
termination
  by (relation "measure (\<lambda>(_, d, _). length (doh_buf d))")
    (auto simp: slice_def split: if_splits dest!: doh_h1_next_hend)

declare doh_h1_loop.simps [simp del]

definition doh_h1_feed ::
  "(bytes \<Rightarrow> bool) \<Rightarrow> doh \<Rightarrow> bytes \<Rightarrow> bytes list \<Rightarrow> dns_cross \<Rightarrow> (doh \<times> bytes list \<times> dns_cross) option" where
  "doh_h1_feed isb d data blocked out =
     (let d = d\<lparr>doh_buf := doh_buf d @ data\<rparr>
      in if doh_passthrough d then Some (d\<lparr>doh_buf := []\<rparr>, blocked, to_upstream (doh_buf d) out)
         else doh_h1_loop isb d blocked out)"

definition doh_new :: doh where
  "doh_new = \<lparr>doh_buf = [], doh_authority = [], doh_passthrough = False\<rparr>"

subsubsection \<open>An unchecked length\<close>

definition bad_length_request :: bytes where
  "bad_length_request = asc ''POST /dns-query HTTP/1.1'' @ CRLF @ asc ''Content-Length: 18446744073709551615'' @ CRLF @ CRLF"

text \<open>A hostile \<open>Content-Length\<close> panics the DoH filter. The code adds the announced length to
  the head's length without a check, so a client of an intercepted flow that sends
  \<open>Content-Length: 18446744073709551615\<close> makes the sum wrap below the head's length, and the slice
  that cuts off the body is out of range, whatever the blocklist.\<close>

theorem doh_length_overflow_panics:
  "doh_h1_feed isb doh_new bad_length_request [] dns_cross_new = None"
proof -
  have "doh_h1_next bad_length_request = Dn_Request 65 66 (asc ''POST'') (asc ''/dns-query'')
      [(asc ''Content-Length'', asc ''18446744073709551615'')]"
    by code_simp
  moreover have "length bad_length_request = 66" by code_simp
  ultimately show ?thesis
    by (simp add: doh_h1_feed_def doh_new_def doh_h1_loop.simps[of isb "\<lparr>doh_buf = bad_length_request, doh_authority = [], doh_passthrough = False\<rparr>"]
        slice_def Let_def)
qed

subsubsection \<open>Requests of a well-behaved client\<close>

fun doh_run :: "(bytes \<Rightarrow> bool) \<Rightarrow> doh \<Rightarrow> bytes list \<Rightarrow> bytes list \<Rightarrow> dns_cross \<Rightarrow> (doh \<times> bytes list \<times> dns_cross) option"
where
  "doh_run isb d [] blocked out = Some (d, blocked, out)"
| "doh_run isb d (x # xs) blocked out =
     Option.bind (doh_h1_feed isb d x blocked out) (\<lambda>(d, blocked, out). doh_run isb d xs blocked out)"

lemma doh_find_header_end_append: "find_header_end buf = Some e \<Longrightarrow> find_header_end (buf @ b) = Some e \<and> e \<le> length buf"
  by (auto simp: find_header_end_def find_sub_append_Some dest: find_sub_bound)

lemma doh_h1_next_append: "doh_h1_next buf \<noteq> Dn_Wait \<Longrightarrow> doh_h1_next (buf @ b) = doh_h1_next buf"
proof (cases "find_header_end buf")
  case None
  moreover assume "doh_h1_next buf \<noteq> Dn_Wait"
  ultimately show ?thesis by (simp add: doh_h1_next_def)
next
  case (Some e)
  moreover assume "doh_h1_next buf \<noteq> Dn_Wait"
  ultimately show ?thesis
    using doh_find_header_end_append[OF Some, of b]
    by (auto simp: doh_h1_next_def Let_def split: option.splits prod.splits framing.splits if_splits)
qed

definition doh_block :: "(bytes \<Rightarrow> bool) \<Rightarrow> extracted \<Rightarrow> (bytes \<times> bytes) option" where
  \<comment> \<open>the reported name and the reply of a blocked query\<close>
  "doh_block isb ex =
     (case ex of
        Ex_Wire w \<Rightarrow>
          (case parse_query w of
             Some (Some q) \<Rightarrow>
               if isb (q_name q)
               then Some (q_name q, h1_response (asc ''application/dns-message'') (response_of w (q_end q) 3 0 []))
               else None
           | _ \<Rightarrow> None)
      | Ex_JsonName n \<Rightarrow>
          if isb n then Some (n, h1_response (asc ''application/dns-json'') (json_nxdomain n)) else None
      | Ex_Unknown \<Rightarrow> None)"

lemma doh_answer_eq:
  "doh_answer isb req ex blocked out =
    Some (case doh_block isb ex of Some (n, a) \<Rightarrow> (blocked @ [n], to_app a out) | None \<Rightarrow> (blocked, to_upstream req out))"
proof (cases ex)
  case (Ex_Wire w)
  show ?thesis
    by (cases rule: dot_step_total[of w]) (simp_all add: Ex_Wire doh_answer_def doh_block_def block_wire_def)
qed (simp_all add: doh_answer_def doh_block_def)

definition doh_step :: "(bytes \<Rightarrow> bool) \<Rightarrow> bytes \<Rightarrow> extracted \<Rightarrow> bytes list \<times> dns_cross \<Rightarrow> bytes list \<times> dns_cross" where
  "doh_step isb req ex s =
     (case doh_block isb ex of
        Some (n, a) \<Rightarrow> (fst s @ [n], to_app a (snd s)) | None \<Rightarrow> (fst s, to_upstream req (snd s)))"

definition doh_after :: "doh \<Rightarrow> headers \<Rightarrow> bytes \<Rightarrow> doh" where
  "doh_after d hs rest =
     d\<lparr>doh_buf := rest,
       doh_authority := (if doh_authority d = [] then or_empty (header hs (asc ''host'')) else doh_authority d)\<rparr>"

lemma doh_after_simps [simp]:
  "doh_buf (doh_after d hs r) = r" "doh_passthrough (doh_after d hs r) = doh_passthrough d"
  "doh_after (d\<lparr>doh_buf := x\<rparr>) hs r = doh_after d hs r"
  "(doh_after d hs r)\<lparr>doh_buf := y\<rparr> = doh_after d hs y"
  by (simp_all add: doh_after_def)

definition doh_ex :: "bytes \<Rightarrow> nat \<Rightarrow> bytes \<Rightarrow> bytes \<Rightarrow> headers \<Rightarrow> extracted" where
  "doh_ex req hend m t hs = extract_query m t (or_empty (header hs (asc ''content-type''))) (drop hend req)"

lemma doh_h1_loop_cases:
  "doh_h1_next (doh_buf d) = Dn_Wait \<Longrightarrow> doh_h1_loop isb d blocked out = Some (d, blocked, out)"
  "doh_h1_next (doh_buf d) = Dn_Bad \<Longrightarrow> doh_h1_loop isb d blocked out =
     Some (d\<lparr>doh_passthrough := True, doh_buf := []\<rparr>, blocked, to_upstream (doh_buf d) out)"
  by (subst doh_h1_loop.simps, simp add: enter_passthrough_def)+

lemma doh_h1_loop_request:
  assumes "doh_h1_next (doh_buf d) = Dn_Request tot hend m t hs"
  shows "doh_h1_loop isb d blocked out =
    (if hend \<le> length (take tot (doh_buf d))
     then let s = doh_step isb (take tot (doh_buf d)) (doh_ex (take tot (doh_buf d)) hend m t hs) (blocked, out)
          in doh_h1_loop isb (doh_after d hs (drop tot (doh_buf d))) (fst s) (snd s)
     else None)"
proof -
  define req where "req = take tot (doh_buf d)"
  show ?thesis
    unfolding req_def[symmetric]
    by (subst doh_h1_loop.simps)
      (simp add: assms req_def[symmetric] Let_def slice_def doh_answer_eq doh_step_def doh_after_def doh_ex_def
        split: option.splits)
qed

lemma doh_h1_next_total: "doh_h1_next buf = Dn_Request tot hend m t hs \<Longrightarrow> tot \<le> length buf"
  by (auto simp: doh_h1_next_def Let_def split: option.splits prod.splits framing.splits if_splits)

text \<open>A request that is complete is handled alike with more bytes behind it.\<close>

lemma doh_h1_loop_request_append:
  assumes "doh_h1_next (doh_buf d) = Dn_Request tot hend m t hs"
  shows "doh_h1_loop isb (d\<lparr>doh_buf := doh_buf d @ b\<rparr>) blocked out =
    (if hend \<le> length (take tot (doh_buf d))
     then let s = doh_step isb (take tot (doh_buf d)) (doh_ex (take tot (doh_buf d)) hend m t hs) (blocked, out);
              d' = doh_after d hs (drop tot (doh_buf d))
          in doh_h1_loop isb (d'\<lparr>doh_buf := doh_buf d' @ b\<rparr>) (fst s) (snd s)
     else None)"
proof -
  have "doh_h1_next (doh_buf (d\<lparr>doh_buf := doh_buf d @ b\<rparr>)) = Dn_Request tot hend m t hs"
    using doh_h1_next_append[of "doh_buf d" b] assms by simp
  from doh_h1_loop_request[OF this, of isb blocked out] doh_h1_next_total[OF assms]
  show ?thesis by (simp add: Let_def)
qed

lemma doh_h1_loop_append:
  "\<not> doh_passthrough d \<Longrightarrow> doh_h1_loop isb (d\<lparr>doh_buf := doh_buf d @ b\<rparr>) blocked out =
     (case doh_h1_loop isb d blocked out of
        None \<Rightarrow> None | Some (d', blocked', out') \<Rightarrow> doh_h1_feed isb d' b blocked' out')"
proof (induction "length (doh_buf d)" arbitrary: d blocked out rule: less_induct)
  case less
  show ?case
  proof (cases "doh_h1_next (doh_buf d)")
    case Dn_Wait
    with less.prems show ?thesis by (simp add: doh_h1_loop_cases(1) doh_h1_feed_def)
  next
    case Dn_Bad
    then have "doh_h1_next (doh_buf (d\<lparr>doh_buf := doh_buf d @ b\<rparr>)) = Dn_Bad"
      using doh_h1_next_append[of "doh_buf d" b] by simp
    from doh_h1_loop_cases(2)[OF this, of isb blocked out] Dn_Bad show ?thesis
      by (simp add: doh_h1_loop_cases(2) doh_h1_feed_def to_upstream_def Let_def)
  next
    case (Dn_Request tot hend m t hs)
    show ?thesis
    proof (cases "hend \<le> length (take tot (doh_buf d))")
      case False
      then show ?thesis
        unfolding doh_h1_loop_request_append[OF Dn_Request] doh_h1_loop_request[OF Dn_Request] if_not_P[OF False]
        by (simp del: length_take)
    next
      case True
      let ?d = "doh_after d hs (drop tot (doh_buf d))"
      have "length (doh_buf ?d) < length (doh_buf d)"
        using doh_h1_next_hend[OF Dn_Request] True by (auto simp: min_def split: if_splits)
      from less.hyps[OF this] less.prems True show ?thesis
        unfolding doh_h1_loop_request_append[OF Dn_Request] doh_h1_loop_request[OF Dn_Request]
        by (simp add: Let_def del: length_take)
    qed
  qed
qed

lemma doh_h1_feed_append:
  "doh_h1_feed isb d (a @ b) blocked out =
     (case doh_h1_feed isb d a blocked out of
        None \<Rightarrow> None | Some (d', blocked', out') \<Rightarrow> doh_h1_feed isb d' b blocked' out')"
proof (cases "doh_passthrough d")
  case True
  then show ?thesis by (simp add: doh_h1_feed_def to_upstream_def Let_def)
next
  case False
  with doh_h1_loop_append[of "d\<lparr>doh_buf := doh_buf d @ a\<rparr>" isb b blocked out]
  show ?thesis by (simp add: doh_h1_feed_def Let_def)
qed

lemma doh_run_concat:
  "doh_h1_feed isb d [] blocked out = Some (d, blocked, out) \<Longrightarrow>
   doh_run isb d reads blocked out = doh_h1_feed isb d (concat reads) blocked out"
proof (induction reads arbitrary: d blocked out)
  case Nil
  then show ?case by simp
next
  case (Cons x xs)
  show ?case
  proof (cases "doh_h1_feed isb d x blocked out")
    case None
    then show ?thesis by (simp add: doh_h1_feed_append[of isb d x "concat xs"])
  next
    case (Some p)
    obtain d1 bl o1 where p: "p = (d1, bl, o1)" by (cases p)
    have "doh_h1_feed isb d1 [] bl o1 = Some (d1, bl, o1)"
      using doh_h1_feed_append[of isb d x "[]" blocked out] Some p by simp
    from Cons.IH[OF this] Some p show ?thesis by (simp add: doh_h1_feed_append[of isb d x "concat xs"])
  qed
qed

definition doh_request :: "bytes \<Rightarrow> extracted \<Rightarrow> bool" where
  \<comment> \<open>the bytes of one complete request with a body framed by its length, and the query it carries\<close>
  "doh_request r ex \<longleftrightarrow>
     (\<exists>hend m t hs. doh_h1_next r = Dn_Request (length r) hend m t hs
        \<and> ex = doh_ex r hend m t hs)"

lemma doh_h1_loop_requests:
  assumes "list_all2 doh_request rs exs" and "doh_buf d = concat rs" and "\<not> doh_passthrough d"
  shows "\<exists>d'. doh_h1_loop isb d blocked out =
      Some (d', blocked @ map fst (List.map_filter (doh_block isb) exs),
        \<lparr>dc_to_upstream = dc_to_upstream out @ concat (map fst (filter (\<lambda>(r, ex). doh_block isb ex = None) (zip rs exs))),
         dc_to_app = dc_to_app out @ concat (map snd (List.map_filter (doh_block isb) exs))\<rparr>)
    \<and> doh_buf d' = [] \<and> \<not> doh_passthrough d'"
  using assms
proof (induction arbitrary: d blocked out rule: list_all2_induct)
  case Nil
  then have "doh_h1_next (doh_buf d) = Dn_Wait" by (simp add: doh_h1_next_def find_header_end_def)
  with Nil show ?case by (intro exI[of _ d]) (simp add: doh_h1_loop_cases(1) List.map_filter_simps)
next
  case (Cons r rs ex exs)
  from Cons.hyps(1) obtain hend m t hs where r: "doh_h1_next r = Dn_Request (length r) hend m t hs"
    "ex = doh_ex r hend m t hs"
    by (auto simp: doh_request_def)
  have n: "doh_h1_next (doh_buf d) = Dn_Request (length r) hend m t hs"
    using doh_h1_next_append[of r "concat rs"] r(1) Cons.prems(1) by simp
  have tk: "take (length r) (doh_buf d) = r" "drop (length r) (doh_buf d) = concat rs" using Cons.prems by simp_all
  have l: "doh_h1_loop isb d blocked out = doh_h1_loop isb (doh_after d hs (concat rs))
      (fst (doh_step isb r ex (blocked, out))) (snd (doh_step isb r ex (blocked, out)))"
    using doh_h1_next_hend[OF r(1)] unfolding doh_h1_loop_request[OF n] tk by (simp add: Let_def r(2))
  have prem: "doh_buf (doh_after d hs (concat rs)) = concat rs" "\<not> doh_passthrough (doh_after d hs (concat rs))"
    using Cons.prems by simp_all
  show ?case
    using Cons.IH[OF prem, of "fst (doh_step isb r ex (blocked, out))" "snd (doh_step isb r ex (blocked, out))"]
    unfolding l by (cases "doh_block isb ex") (auto simp: doh_step_def to_upstream_def to_app_def List.map_filter_simps)
qed

text \<open>C22: the DoH filter is exact on HTTP/1.1. For any pipeline of requests with length-framed
  bodies, however it is cut into reads, nothing panics; the resolver receives exactly the requests
  whose query is not blocked, verbatim and in order; the client receives exactly the replies to the
  blocked ones; exactly their names are reported; and the filter stays in force.\<close>

theorem doh_filter_exact:
  assumes "list_all2 doh_request rs exs" and "concat reads = concat rs"
  shows "\<exists>d. doh_run isb doh_new reads [] dns_cross_new =
      Some (d, map fst (List.map_filter (doh_block isb) exs),
        \<lparr>dc_to_upstream = concat (map fst (filter (\<lambda>(r, ex). doh_block isb ex = None) (zip rs exs))),
         dc_to_app = concat (map snd (List.map_filter (doh_block isb) exs))\<rparr>)
    \<and> doh_buf d = [] \<and> \<not> doh_passthrough d"
proof -
  from doh_h1_loop_requests[OF assms(1), of "doh_new\<lparr>doh_buf := concat rs\<rparr>" isb "[]" dns_cross_new]
  obtain d where d: "doh_h1_loop isb (doh_new\<lparr>doh_buf := concat rs\<rparr>) [] dns_cross_new =
      Some (d, map fst (List.map_filter (doh_block isb) exs),
        \<lparr>dc_to_upstream = concat (map fst (filter (\<lambda>(r, ex). doh_block isb ex = None) (zip rs exs))),
         dc_to_app = concat (map snd (List.map_filter (doh_block isb) exs))\<rparr>)"
    "doh_buf d = []" "\<not> doh_passthrough d"
    by (auto simp: doh_new_def dns_cross_new_def)
  have "doh_h1_feed isb doh_new [] [] dns_cross_new = Some (doh_new, [], dns_cross_new)"
    by (simp add: doh_h1_feed_def doh_new_def doh_h1_loop.simps doh_h1_next_def find_header_end_def)
  moreover have "doh_h1_feed isb doh_new (concat reads) [] dns_cross_new =
      doh_h1_loop isb (doh_new\<lparr>doh_buf := concat rs\<rparr>) [] dns_cross_new"
    by (simp add: doh_h1_feed_def assms(2) doh_new_def)
  ultimately show ?thesis using doh_run_concat[of isb doh_new "[]" dns_cross_new reads] d by simp
qed

text \<open>A JSON lookup of a blocked name and a request that is no query, in one pipeline cut in the
  middle of the second request line.\<close>

definition doh_sample_blocked :: bytes where
  "doh_sample_blocked = asc ''GET /r?name=t.co HTTP/1.1'' @ CRLF @ CRLF"

definition doh_sample_clean :: bytes where
  "doh_sample_clean = asc ''GET /r HTTP/1.1'' @ CRLF @ CRLF"

lemma doh_sample_heads:
  "doh_h1_next doh_sample_blocked = Dn_Request (length doh_sample_blocked) (length doh_sample_blocked)
     (asc ''GET'') (asc ''/r?name=t.co'') []"
  "doh_h1_next doh_sample_clean = Dn_Request (length doh_sample_clean) (length doh_sample_clean)
     (asc ''GET'') (asc ''/r'') []"
  by code_simp+

lemma doh_sample_queries:
  "extract_query (asc ''GET'') (asc ''/r?name=t.co'') [] [] = Ex_JsonName (asc ''t.co'')"
  "extract_query (asc ''GET'') (asc ''/r'') [] [] = Ex_Unknown"
  by code_simp+

lemma doh_sample_requests:
  "doh_request doh_sample_blocked (Ex_JsonName (asc ''t.co''))"
  "doh_request doh_sample_clean (Ex_Unknown)"
  unfolding doh_request_def doh_sample_heads
  by (simp_all only: doh_ex_def header_def find.simps option.map or_empty_def option.case
      drop_all order_refl doh_sample_queries doh_next.inject conj_assoc simp_thms ex_simps)

lemma doh_filter_exact_witness:
  "\<exists>d. doh_run (\<lambda>n. n = asc ''t.co'') doh_new
        [doh_sample_blocked @ take 9 doh_sample_clean, drop 9 doh_sample_clean] [] dns_cross_new =
      Some (d, [asc ''t.co''],
        \<lparr>dc_to_upstream = doh_sample_clean,
         dc_to_app = h1_response (asc ''application/dns-json'') (json_nxdomain (asc ''t.co''))\<rparr>)
    \<and> doh_buf d = [] \<and> \<not> doh_passthrough d"
proof -
  let ?exs = "[Ex_JsonName (asc ''t.co''), Ex_Unknown]"
  let ?rs = "[doh_sample_blocked, doh_sample_clean]"
  let ?reads = "[doh_sample_blocked @ take 9 doh_sample_clean, drop 9 doh_sample_clean]"
  have "list_all2 doh_request ?rs ?exs" by (simp only: list_all2_Cons list_all2_Nil doh_sample_requests simp_thms)
  moreover have "concat ?reads = concat ?rs" by simp
  ultimately show ?thesis
    using doh_filter_exact[of ?rs ?exs ?reads "\<lambda>n. n = asc ''t.co''"]
    by (simp only: doh_block_def List.map_filter_simps extracted.case option.case if_True if_False
        simp_thms zip_Cons_Cons zip_Nil filter.simps list.map fst_conv snd_conv concat.simps append_Nil2 append_Nil
        case_prod_conv refl option.distinct)
qed

end
