(* ===== verification/Http_Tap.thy ===== *)
theory Http_Tap
  imports Http_Head
begin

section \<open>The HAR tap: pairing HTTP transactions\<close>

text \<open>
  \<open>HttpTap\<close> of \<open>rust/tls/src/har.rs\<close>: the observer that is fed the decrypted bytes of both
  directions of a connection and emits request/response pairs. Every field of the struct is a field
  of the record. Wall-clock readings come from the clock \<open>clk\<close>: the n-th call of \<open>now_ms\<close> in the life
  of the tap returns \<open>clk n\<close>, and the extra field \<open>tap_reads\<close> counts the calls.
\<close>

record http_request =
  rq_method :: bytes
  rq_target :: bytes
  rq_version :: bytes
  rq_headers :: headers
  rq_body :: bytes
  rq_body_size :: nat
  rq_headers_size :: nat
  rq_truncated :: bool

record http_response =
  rs_status :: nat
  rs_text :: bytes
  rs_version :: bytes
  rs_headers :: headers
  rs_body :: bytes
  rs_body_size :: nat
  rs_headers_size :: nat
  rs_truncated :: bool

record transaction =
  tx_host :: "bytes option"
  tx_started :: nat
  tx_duration :: nat
  tx_request :: http_request
  tx_response :: http_response

record pending =
  p_request :: http_request
  p_head :: bool
  p_start :: nat

record http_tap =
  tap_sni :: "bytes option"
  tap_disabled :: bool
  tap_req_buf :: bytes
  tap_req_partial :: "(http_request \<times> framing \<times> body_cap) option"
  tap_resp_buf :: bytes
  tap_resp_partial :: "(http_response \<times> framing \<times> body_cap) option"
  tap_pending :: "pending list"
  tap_completed :: "transaction list"
  tap_reads :: nat

definition tap_new :: http_tap where
  "tap_new = \<lparr>tap_sni = None, tap_disabled = False, tap_req_buf = [], tap_req_partial = None,
     tap_resp_buf = [], tap_resp_partial = None, tap_pending = [], tap_completed = [], tap_reads = 0\<rparr>"

definition set_host :: "bytes \<Rightarrow> http_tap \<Rightarrow> http_tap" where
  "set_host h t = (if tap_sni t = None then t\<lparr>tap_sni := Some h\<rparr> else t)"

definition tap_disable :: "http_tap \<Rightarrow> http_tap" where
  "tap_disable t = t\<lparr>tap_disabled := True, tap_req_buf := [], tap_resp_buf := [],
     tap_req_partial := None, tap_resp_partial := None\<rparr>"

definition host_of :: "http_request \<Rightarrow> bytes option" where
  "host_of r = header (rq_headers r) (asc ''host'')"

definition push_pending :: "(nat \<Rightarrow> nat) \<Rightarrow> http_request \<Rightarrow> http_tap \<Rightarrow> http_tap" where
  "push_pending clk r t =
     t\<lparr>tap_pending := tap_pending t @
          [\<lparr>p_request = r, p_head = eq_ignore_case (rq_method r) (asc ''HEAD''), p_start = clk (tap_reads t)\<rparr>],
       tap_reads := tap_reads t + 1\<rparr>"

definition complete_response :: "(nat \<Rightarrow> nat) \<Rightarrow> http_response \<Rightarrow> http_tap \<Rightarrow> http_tap" where
  \<comment> \<open>\<open>saturating_sub\<close> is subtraction of naturals\<close>
  "complete_response clk r t =
     (case tap_pending t of
        [] \<Rightarrow> tap_disable t
      | p # ps \<Rightarrow>
          t\<lparr>tap_pending := ps,
            tap_completed := tap_completed t @
              [\<lparr>tx_host = (case host_of (p_request p) of None \<Rightarrow> tap_sni t | Some h \<Rightarrow> Some h),
                tx_started = p_start p, tx_duration = clk (tap_reads t) - p_start p,
                tx_request = p_request p, tx_response = r\<rparr>],
            tap_reads := tap_reads t + 1\<rparr>)"

definition attach_body_req :: "http_request \<Rightarrow> body_cap \<Rightarrow> http_request" where
  "attach_body_req r c =
     r\<lparr>rq_body_size := bc_wire c, rq_truncated := bc_trunc c, rq_body := bc_captured c\<rparr>"

definition attach_body_resp :: "http_response \<Rightarrow> body_cap \<Rightarrow> http_response" where
  "attach_body_resp r c =
     r\<lparr>rs_body_size := bc_wire c, rs_truncated := bc_trunc c, rs_body := bc_captured c\<rparr>"

subsection \<open>The request side\<close>

definition req_body_step :: "(nat \<Rightarrow> nat) \<Rightarrow> http_request \<Rightarrow> framing \<Rightarrow> body_cap \<Rightarrow> http_tap \<Rightarrow> http_tap \<times> bool" where
  \<comment> \<open>the second half of an iteration: drain body bytes; whether the loop goes on\<close>
  "req_body_step clk r fr c t =
     (let (step, fr', buf', c') = body_consume fr (tap_req_buf t) c;
          t' = t\<lparr>tap_req_buf := buf', tap_req_partial := Some (r, fr', c')\<rparr>
      in case step of
           Body_NeedMore \<Rightarrow> (t', False)
         | Body_Error \<Rightarrow> (tap_disable t', False)
         | Body_Done \<Rightarrow> (push_pending clk (attach_body_req r c') (t'\<lparr>tap_req_partial := None\<rparr>), True))"

definition request_of_head :: "parsed_head \<Rightarrow> bytes \<times> bytes \<times> bytes \<Rightarrow> http_request" where
  "request_of_head h line = (case line of (meth, target, version) \<Rightarrow>
     \<lparr>rq_method = meth, rq_target = target, rq_version = version, rq_headers = ph_headers h,
      rq_body = [], rq_body_size = 0, rq_headers_size = ph_size h, rq_truncated = False\<rparr>)"

definition req_start :: "(nat \<Rightarrow> nat) \<Rightarrow> http_request \<Rightarrow> http_tap \<Rightarrow> http_tap \<times> bool" where
  \<comment> \<open>a request head has been read: complete, or followed by its body\<close>
  "req_start clk r t =
     (case request_framing (rq_headers r) of
        Some fr \<Rightarrow> req_body_step clk r fr body_cap_new t
      | None \<Rightarrow> (push_pending clk r t, True))"

definition req_step :: "(nat \<Rightarrow> nat) \<Rightarrow> http_tap \<Rightarrow> http_tap \<times> bool" where
  \<comment> \<open>one iteration of \<open>drain_requests\<close>\<close>
  "req_step clk t =
     (case tap_req_partial t of
        Some (r, fr, c) \<Rightarrow> req_body_step clk r fr c t
      | None \<Rightarrow>
          (let (hd_step, buf') = take_head (tap_req_buf t); t1 = t\<lparr>tap_req_buf := buf'\<rparr>
           in case hd_step of
                Head_NeedMore \<Rightarrow> (t1, False)
              | Head_Error \<Rightarrow> (tap_disable t1, False)
              | Head_Ok h \<Rightarrow>
                  (case parse_request_line (ph_start h) of
                     None \<Rightarrow> (tap_disable t1, False)
                   | Some line \<Rightarrow> req_start clk (request_of_head h line) t1)))"

lemma take_head_shrinks: "take_head buf = (Head_Ok h, buf') \<Longrightarrow> length buf' < length buf"
  by (auto simp: take_head_def find_header_end_def dest!: find_sub_bound split: option.splits if_splits prod.splits)

lemma body_consume_shrinks: "body_consume fr buf c = (step, fr', buf', c') \<Longrightarrow> length buf' \<le> length buf"
  by (auto simp: body_consume_def Let_def split: framing.splits if_splits prod.splits dest: chunk_consume_shrinks)

definition tap_req_measure :: "http_tap \<Rightarrow> nat" where
  "tap_req_measure t = 2 * length (tap_req_buf t) + (if tap_req_partial t = None then 0 else 1)"

lemma req_body_step_goes_on:
  "req_body_step clk r fr c t = (t', True) \<Longrightarrow> tap_req_measure t' \<le> 2 * length (tap_req_buf t)"
  by (auto simp: req_body_step_def tap_req_measure_def push_pending_def Let_def
      split: prod.splits body_step.splits dest: body_consume_shrinks)

lemma req_start_goes_on:
  "req_start clk r t = (t', True) \<Longrightarrow> tap_req_partial t = None \<Longrightarrow> tap_req_measure t' \<le> 2 * length (tap_req_buf t)"
  unfolding req_start_def push_pending_def
  by (auto simp: tap_req_measure_def split: option.split_asm dest!: req_body_step_goes_on)

lemma req_step_goes_on: "req_step clk t = (t', True) \<Longrightarrow> tap_req_measure t' < tap_req_measure t"
  by (auto simp: req_step_def Let_def tap_req_measure_def[of t]
      split: option.split_asm prod.split_asm head_step.split_asm
      dest!: req_body_step_goes_on req_start_goes_on take_head_shrinks)

function drain_requests :: "(nat \<Rightarrow> nat) \<Rightarrow> http_tap \<Rightarrow> http_tap" where
  "drain_requests clk t =
     (case req_step clk t of (t', go) \<Rightarrow> if go then drain_requests clk t' else t')"
  by pat_completeness auto
termination by (relation "measure (\<lambda>(_, t). tap_req_measure t)") (auto dest: req_step_goes_on[OF sym])

declare drain_requests.simps [simp del]

definition feed_request :: "(nat \<Rightarrow> nat) \<Rightarrow> bytes \<Rightarrow> http_tap \<Rightarrow> http_tap" where
  "feed_request clk data t =
     (if tap_disabled t \<or> data = [] then t
      else drain_requests clk (t\<lparr>tap_req_buf := tap_req_buf t @ data\<rparr>))"

subsection \<open>The response side\<close>

definition resp_body_step :: "(nat \<Rightarrow> nat) \<Rightarrow> http_response \<Rightarrow> framing \<Rightarrow> body_cap \<Rightarrow> http_tap \<Rightarrow> http_tap \<times> bool" where
  "resp_body_step clk r fr c t =
     (let (step, fr', buf', c') = body_consume fr (tap_resp_buf t) c;
          t' = t\<lparr>tap_resp_buf := buf', tap_resp_partial := Some (r, fr', c')\<rparr>
      in case step of
           Body_NeedMore \<Rightarrow> (t', False)
         | Body_Error \<Rightarrow> (tap_disable t', False)
         | Body_Done \<Rightarrow> (complete_response clk (attach_body_resp r c') (t'\<lparr>tap_resp_partial := None\<rparr>), True))"

definition response_of_head :: "parsed_head \<Rightarrow> bytes \<times> nat \<times> bytes \<Rightarrow> http_response" where
  "response_of_head h line = (case line of (version, status, text) \<Rightarrow>
     \<lparr>rs_status = status, rs_text = text, rs_version = version, rs_headers = ph_headers h,
      rs_body = [], rs_body_size = 0, rs_headers_size = ph_size h, rs_truncated = False\<rparr>)"

definition resp_start :: "(nat \<Rightarrow> nat) \<Rightarrow> http_response \<Rightarrow> http_tap \<Rightarrow> http_tap \<times> bool" where
  \<comment> \<open>a response head has been read: informational, bodyless, or followed by its body\<close>
  "resp_start clk r t =
     (if 100 \<le> rs_status r \<and> rs_status r \<le> 199 \<and> rs_status r \<noteq> 101 then (t, True)
      else case response_framing (rs_status r) (case tap_pending t of [] \<Rightarrow> False | p # _ \<Rightarrow> p_head p) (rs_headers r) of
        None \<Rightarrow>
          if rs_status r = 101 then (tap_disable (complete_response clk r t), False)
          else (complete_response clk r t, True)
      | Some fr \<Rightarrow> resp_body_step clk r fr body_cap_new t)"

definition resp_step :: "(nat \<Rightarrow> nat) \<Rightarrow> http_tap \<Rightarrow> http_tap \<times> bool" where
  \<comment> \<open>one iteration of \<open>drain_responses\<close>\<close>
  "resp_step clk t =
     (case tap_resp_partial t of
        Some (r, fr, c) \<Rightarrow> resp_body_step clk r fr c t
      | None \<Rightarrow>
          (let (hd_step, buf') = take_head (tap_resp_buf t); t1 = t\<lparr>tap_resp_buf := buf'\<rparr>
           in case hd_step of
                Head_NeedMore \<Rightarrow> (t1, False)
              | Head_Error \<Rightarrow> (tap_disable t1, False)
              | Head_Ok h \<Rightarrow>
                  (case parse_status_line (ph_start h) of
                     None \<Rightarrow> (tap_disable t1, False)
                   | Some line \<Rightarrow> resp_start clk (response_of_head h line) t1)))"

definition tap_resp_measure :: "http_tap \<Rightarrow> nat" where
  "tap_resp_measure t = 2 * length (tap_resp_buf t) + (if tap_resp_partial t = None then 0 else 1)"

lemma complete_response_measure: "tap_resp_measure (complete_response clk r t) \<le> tap_resp_measure t"
  by (auto simp: tap_resp_measure_def complete_response_def tap_disable_def split: list.splits)

lemma resp_body_step_goes_on:
  assumes "resp_body_step clk r fr c t = (t', True)"
  shows "tap_resp_measure t' \<le> 2 * length (tap_resp_buf t)"
proof -
  obtain step fr' buf' c' where b: "body_consume fr (tap_resp_buf t) c = (step, fr', buf', c')"
    by (metis prod_cases4)
  with assms have "t' = complete_response clk (attach_body_resp r c') (t\<lparr>tap_resp_buf := buf', tap_resp_partial := None\<rparr>)"
    by (auto simp: resp_body_step_def Let_def split: body_step.splits)
  then show ?thesis
    using complete_response_measure[of clk "attach_body_resp r c'" "t\<lparr>tap_resp_buf := buf', tap_resp_partial := None\<rparr>"]
      body_consume_shrinks[OF b]
    by (simp add: tap_resp_measure_def)
qed

lemma resp_start_goes_on:
  assumes "resp_start clk r t = (t', True)" and "tap_resp_partial t = None"
  shows "tap_resp_measure t' \<le> 2 * length (tap_resp_buf t)"
proof -
  have "t' = t \<or> t' = complete_response clk r t \<or> (\<exists>fr. resp_body_step clk r fr body_cap_new t = (t', True))"
    using assms(1) by (auto simp: resp_start_def split: if_split_asm option.split_asm)
  moreover have "tap_resp_measure t = 2 * length (tap_resp_buf t)"
    using assms(2) by (simp add: tap_resp_measure_def)
  ultimately show ?thesis
    using complete_response_measure[of clk r t] resp_body_step_goes_on[of clk r _ body_cap_new t t'] by auto
qed

lemma resp_step_goes_on: "resp_step clk t = (t', True) \<Longrightarrow> tap_resp_measure t' < tap_resp_measure t"
  by (auto simp: resp_step_def Let_def tap_resp_measure_def[of t]
      split: option.split_asm prod.split_asm head_step.split_asm
      dest!: resp_body_step_goes_on resp_start_goes_on take_head_shrinks)

function drain_responses :: "(nat \<Rightarrow> nat) \<Rightarrow> http_tap \<Rightarrow> http_tap" where
  "drain_responses clk t =
     (case resp_step clk t of (t', go) \<Rightarrow> if go then drain_responses clk t' else t')"
  by pat_completeness auto
termination by (relation "measure (\<lambda>(_, t). tap_resp_measure t)") (auto dest: resp_step_goes_on[OF sym])

declare drain_responses.simps [simp del]

definition feed_response :: "(nat \<Rightarrow> nat) \<Rightarrow> bytes \<Rightarrow> http_tap \<Rightarrow> http_tap" where
  "feed_response clk data t =
     (if tap_disabled t \<or> data = [] then t
      else drain_responses clk (t\<lparr>tap_resp_buf := tap_resp_buf t @ data\<rparr>))"

definition take_transactions :: "http_tap \<Rightarrow> transaction list \<times> http_tap" where
  "take_transactions t = (tap_completed t, t\<lparr>tap_completed := []\<rparr>)"

definition finish :: "(nat \<Rightarrow> nat) \<Rightarrow> http_tap \<Rightarrow> http_tap" where
  "finish clk t =
     (if tap_disabled t then t
      else
        let t1 = (case tap_resp_partial t of
                    None \<Rightarrow> t
                  | Some (r, fr, c) \<Rightarrow>
                      let t0 = t\<lparr>tap_resp_partial := None\<rparr>
                      in if fr = Fr_UntilClose then complete_response clk (attach_body_resp r c) t0 else t0)
        in t1\<lparr>tap_disabled := True\<rparr>)"

subsection \<open>Runs\<close>

datatype tap_op = Tap_Host bytes | Tap_Request bytes | Tap_Response bytes | Tap_Take | Tap_Finish

fun tap_step :: "(nat \<Rightarrow> nat) \<Rightarrow> tap_op \<Rightarrow> http_tap \<Rightarrow> transaction list \<times> http_tap" where
  "tap_step clk (Tap_Host h) t = ([], set_host h t)"
| "tap_step clk (Tap_Request data) t = ([], feed_request clk data t)"
| "tap_step clk (Tap_Response data) t = ([], feed_response clk data t)"
| "tap_step clk Tap_Take t = take_transactions t"
| "tap_step clk Tap_Finish t = ([], finish clk t)"

fun tap_run :: "(nat \<Rightarrow> nat) \<Rightarrow> tap_op list \<Rightarrow> http_tap \<Rightarrow> transaction list \<times> http_tap" where
  "tap_run clk [] t = ([], t)"
| "tap_run clk (op # ops) t =
     (let (txs, t1) = tap_step clk op t; (txs', t2) = tap_run clk ops t1 in (txs @ txs', t2))"

definition tap_log :: "http_tap \<Rightarrow> http_request list" where
  \<comment> \<open>the requests the tap knows of, the answered ones first\<close>
  "tap_log t = map tx_request (tap_completed t) @ map p_request (tap_pending t)"

definition req_view :: "http_tap \<Rightarrow> bytes \<times> (http_request \<times> framing \<times> body_cap) option" where
  "req_view t = (tap_req_buf t, tap_req_partial t)"

text \<open>The response side neither adds a request nor touches the unfinished one, unless it gives up.\<close>

definition resp_frame :: "http_tap \<Rightarrow> http_tap \<Rightarrow> bool" where
  "resp_frame t t' \<longleftrightarrow> tap_log t' = tap_log t \<and> (tap_disabled t \<longrightarrow> tap_disabled t')
     \<and> (tap_disabled t' \<or> req_view t' = req_view t)"

lemma resp_frame_refl [simp]: "resp_frame t t"
  by (simp add: resp_frame_def)

lemma resp_frame_trans: "resp_frame t t1 \<Longrightarrow> resp_frame t1 t2 \<Longrightarrow> resp_frame t t2"
  by (auto simp: resp_frame_def)

lemma resp_frame_prims [simp]:
  "resp_frame t (t\<lparr>tap_resp_buf := b\<rparr>)"
  "resp_frame t (t\<lparr>tap_resp_partial := p\<rparr>)"
  "resp_frame t (tap_disable t)"
  "resp_frame t (complete_response clk r t)"
  "resp_frame t (t\<lparr>tap_disabled := True\<rparr>)"
  by (auto simp: resp_frame_def tap_log_def req_view_def tap_disable_def complete_response_def split: list.splits)

lemma resp_frame_prims2 [simp]:
  "resp_frame t (t\<lparr>tap_resp_buf := b, tap_resp_partial := p\<rparr>)"
  "resp_frame t (tap_disable (complete_response clk r t))"
  "resp_frame t (tap_disable (t\<lparr>tap_resp_buf := b\<rparr>))"
  "resp_frame t (tap_disable (t\<lparr>tap_resp_buf := b, tap_resp_partial := p\<rparr>))"
  "resp_frame t (complete_response clk r (t\<lparr>tap_resp_buf := b, tap_resp_partial := p\<rparr>))"
  by (auto simp: resp_frame_def tap_log_def req_view_def tap_disable_def complete_response_def split: list.splits)

lemma resp_body_step_frame: "resp_frame t (fst (resp_body_step clk r fr c t))"
  by (auto simp: resp_body_step_def Let_def split: prod.splits body_step.splits)

lemma resp_start_frame: "resp_frame t (fst (resp_start clk r t))"
  by (simp add: resp_start_def resp_body_step_frame split: option.splits)

lemma resp_step_frame: "resp_frame t (fst (resp_step clk t))"
proof (cases "tap_resp_partial t")
  case None
  obtain hs b where h: "take_head (tap_resp_buf t) = (hs, b)" by force
  show ?thesis
  proof (cases hs)
    case (Head_Ok hd)
    then show ?thesis
      using None h resp_frame_trans[OF resp_frame_prims(1)[of t b] resp_start_frame]
      by (simp add: resp_step_def Let_def split: option.splits)
  qed (use None h in \<open>simp_all add: resp_step_def Let_def\<close>)
qed (simp add: resp_step_def resp_body_step_frame split: prod.splits)

lemma drain_responses_frame: "resp_frame t (drain_responses clk t)"
proof (induction clk t rule: drain_responses.induct)
  case (1 clk t)
  obtain t' go where s: "resp_step clk t = (t', go)" by force
  with 1[OF s[symmetric]] resp_step_frame[of t clk] show ?case
    by (subst drain_responses.simps) (auto intro: resp_frame_trans)
qed

lemma feed_response_frame: "resp_frame t (feed_response clk data t)"
  using resp_frame_trans[OF resp_frame_prims(1) drain_responses_frame]
  by (simp add: feed_response_def)

lemma finish_frame: "resp_frame t (finish clk t)"
  by (auto simp: finish_def Let_def split: option.splits
      intro!: resp_frame_trans[OF _ resp_frame_prims(5)] resp_frame_trans[OF resp_frame_prims(2) resp_frame_prims(4)])

text \<open>The request side only looks at its own half, and only appends to the log.\<close>

definition req_alike :: "http_request list \<Rightarrow> http_tap \<Rightarrow> http_tap \<Rightarrow> bool" where
  "req_alike pre t u \<longleftrightarrow> req_view t = req_view u \<and> tap_disabled t = tap_disabled u \<and> tap_log u = pre @ tap_log t"

lemma req_alike_prims:
  "req_alike pre t u \<Longrightarrow> req_alike pre (t\<lparr>tap_req_buf := b\<rparr>) (u\<lparr>tap_req_buf := b\<rparr>)"
  "req_alike pre t u \<Longrightarrow> req_alike pre (tap_disable t) (tap_disable u)"
  "req_alike pre t u \<Longrightarrow> req_alike pre (push_pending clk r t) (push_pending clk' r u)"
  "req_alike pre t u \<Longrightarrow> req_alike pre (t\<lparr>tap_req_buf := b, tap_req_partial := p\<rparr>) (u\<lparr>tap_req_buf := b, tap_req_partial := p\<rparr>)"
  by (auto simp: req_alike_def req_view_def tap_disable_def push_pending_def tap_log_def)

lemma req_alike_pair:
  "req_alike pre t u \<Longrightarrow> req_alike pre (fst (req_body_step clk r fr c t)) (fst (req_body_step clk' r fr c u))
     \<and> snd (req_body_step clk r fr c t) = snd (req_body_step clk' r fr c u)"
proof -
  assume a: "req_alike pre t u"
  then have "tap_req_buf u = tap_req_buf t" by (simp add: req_alike_def req_view_def)
  then show ?thesis
    using req_alike_prims[OF a] req_alike_prims(2)[OF req_alike_prims(4)[OF a]] req_alike_prims(3)[OF req_alike_prims(4)[OF a]]
    by (auto simp: req_body_step_def Let_def split: prod.splits body_step.splits)
qed

lemma req_alike_start:
  "req_alike pre t u \<Longrightarrow> req_alike pre (fst (req_start clk r t)) (fst (req_start clk' r u))
     \<and> snd (req_start clk r t) = snd (req_start clk' r u)"
  by (simp add: req_start_def req_alike_pair req_alike_prims split: option.splits)

lemma req_alike_step:
  assumes a: "req_alike pre t u"
  shows "req_alike pre (fst (req_step clk t)) (fst (req_step clk' u)) \<and> snd (req_step clk t) = snd (req_step clk' u)"
proof -
  from a have eq: "tap_req_buf u = tap_req_buf t" "tap_req_partial u = tap_req_partial t"
    by (simp_all add: req_alike_def req_view_def)
  show ?thesis
  proof (cases "tap_req_partial t")
    case None
    obtain hs b where h: "take_head (tap_req_buf t) = (hs, b)" by force
    note prims = req_alike_prims(1)[OF a, of b] req_alike_prims(2)[OF req_alike_prims(1)[OF a, of b]]
      req_alike_start[OF req_alike_prims(1)[OF a, of b]]
    show ?thesis
    proof (cases hs)
      case (Head_Ok hd)
      with None h eq prims show ?thesis by (simp add: req_step_def Let_def split: option.splits)
    qed (use None h eq prims in \<open>simp_all add: req_step_def Let_def\<close>)
  next
    case (Some p)
    then show ?thesis
      using req_alike_pair[OF a] eq by (cases p) (auto simp: req_step_def)
  qed
qed

lemma drain_requests_alike: "req_alike pre t u \<Longrightarrow> req_alike pre (drain_requests clk t) (drain_requests clk' u)"
proof (induction clk t arbitrary: u rule: drain_requests.induct)
  case (1 clk t)
  obtain t' go where s: "req_step clk t = (t', go)" by force
  obtain u' go' where s': "req_step clk' u = (u', go')" by force
  from req_alike_step[OF "1.prems", of clk clk'] s s' have "req_alike pre t' u'" "go' = go" by simp_all
  with 1(1)[OF s[symmetric]] s s' show ?case by (simp add: drain_requests.simps[of clk t] drain_requests.simps[of clk' u])
qed

lemma feed_request_alike: "req_alike pre t u \<Longrightarrow> req_alike pre (feed_request clk data t) (feed_request clk' data u)"
  by (auto simp: feed_request_def req_alike_def[of pre t u] intro!: drain_requests_alike)
    (auto simp: req_alike_def req_view_def tap_log_def)

lemma push_pending_log: "tap_log (push_pending clk r t) = tap_log t @ [r]"
  by (simp add: push_pending_def tap_log_def)

lemma tap_disable_log [simp]: "tap_log (tap_disable t) = tap_log t" "tap_disabled (tap_disable t)"
  by (simp_all add: tap_disable_def tap_log_def)

lemma req_step_log:
  "prefix (tap_log t) (tap_log (fst (req_step clk t))) \<and> tap_completed (fst (req_step clk t)) = tap_completed t"
  by (auto simp: req_step_def req_start_def req_body_step_def Let_def push_pending_log
      split: option.splits prod.splits head_step.splits body_step.splits)
    (auto simp: tap_log_def push_pending_def tap_disable_def)

lemma drain_requests_log:
  "prefix (tap_log t) (tap_log (drain_requests clk t)) \<and> tap_completed (drain_requests clk t) = tap_completed t"
proof (induction clk t rule: drain_requests.induct)
  case (1 clk t)
  obtain t' go where s: "req_step clk t = (t', go)" by force
  then have "drain_requests clk t = (if go then drain_requests clk t' else t')"
    by (subst drain_requests.simps) simp
  with s 1[OF s[symmetric]] req_step_log[of t clk] show ?case
    by (auto intro: prefix_order.trans)
qed

lemma feed_request_log:
  "prefix (tap_log t) (tap_log (feed_request clk data t))" "tap_completed (feed_request clk data t) = tap_completed t"
proof -
  let ?t = "t\<lparr>tap_req_buf := tap_req_buf t @ data\<rparr>"
  have "tap_log ?t = tap_log t" "tap_completed ?t = tap_completed t" by (simp_all add: tap_log_def)
  with drain_requests_log[of ?t clk]
  show "prefix (tap_log t) (tap_log (feed_request clk data t))" "tap_completed (feed_request clk data t) = tap_completed t"
    by (simp_all add: feed_request_def)
qed

definition is_tap_request :: "tap_op \<Rightarrow> bool" where
  "is_tap_request op = (case op of Tap_Request _ \<Rightarrow> True | _ \<Rightarrow> False)"

lemma requests_complete_nothing:
  "tap_completed (snd (tap_run clk (filter is_tap_request ops) t)) = tap_completed t"
  by (induction ops arbitrary: t)
    (auto simp: is_tap_request_def Let_def case_prod_unfold feed_request_log(2) split: tap_op.splits)

definition req_sim :: "http_request list \<Rightarrow> http_tap \<Rightarrow> http_tap \<Rightarrow> bool" where
  \<comment> \<open>\<open>u\<close> saw only the requests of the run that led \<open>t\<close> here and emitted the pairs of \<open>pre\<close>\<close>
  "req_sim pre t u \<longleftrightarrow> req_alike pre t u \<or> tap_disabled t \<and> prefix (pre @ tap_log t) (tap_log u)"

lemma req_sim_frame: "req_sim pre t u \<Longrightarrow> resp_frame t t' \<Longrightarrow> req_sim pre t' u"
  by (auto simp: req_sim_def resp_frame_def req_alike_def)

lemma req_sim_feed:
  assumes "req_sim pre t u" shows "req_sim pre (feed_request clk data t) (feed_request clk' data u)"
proof (cases "req_alike pre t u")
  case True
  then show ?thesis by (simp add: req_sim_def feed_request_alike)
next
  case False
  with assms have "tap_disabled t" "prefix (pre @ tap_log t) (tap_log u)" by (simp_all add: req_sim_def)
  with feed_request_log(1)[of u clk' data] show ?thesis
    by (auto simp: req_sim_def feed_request_def[of clk data t] intro: prefix_order.trans)
qed

lemma req_sim_step:
  assumes "req_sim pre t u" and "tap_step clk op t = (txs, t')"
  shows "req_sim (pre @ map tx_request txs) t'
      (if is_tap_request op then snd (tap_step clk' op u) else u)"
proof (cases op)
  case (Tap_Request data)
  with assms req_sim_feed[OF assms(1)] show ?thesis by (auto simp: is_tap_request_def)
next
  case Tap_Take
  with assms show ?thesis
    by (auto simp: is_tap_request_def take_transactions_def req_sim_def req_alike_def req_view_def tap_log_def)
next
  case (Tap_Host h)
  have "resp_frame t (set_host h t)"
    by (simp add: set_host_def resp_frame_def tap_log_def req_view_def)
  from req_sim_frame[OF assms(1) this] assms Tap_Host show ?thesis by (auto simp: is_tap_request_def)
next
  case (Tap_Response data)
  with assms req_sim_frame[OF assms(1) feed_response_frame] show ?thesis by (auto simp: is_tap_request_def)
next
  case Tap_Finish
  with assms req_sim_frame[OF assms(1) finish_frame] show ?thesis by (auto simp: is_tap_request_def)
qed

lemma req_sim_run:
  "req_sim pre t u \<Longrightarrow> tap_run clk ops t = (txs, t') \<Longrightarrow>
   req_sim (pre @ map tx_request txs) t' (snd (tap_run clk' (filter is_tap_request ops) u))"
proof (induction ops arbitrary: pre t u txs)
  case (Cons op ops)
  obtain txs1 t1 where s: "tap_step clk op t = (txs1, t1)" by force
  obtain txs2 where r: "tap_run clk ops t1 = (txs2, t')" "txs = txs1 @ txs2"
    using Cons.prems(2) s by (auto simp: Let_def split: prod.splits)
  from Cons.IH[OF req_sim_step[OF Cons.prems(1) s, of clk'] r(1)] r(2) show ?case
    by (cases "is_tap_request op") (simp_all add: Let_def case_prod_unfold)
qed simp

text \<open>C37: transactions pair requests in order. However the reads of the two directions interleave, the
  requests of the emitted transactions, followed by those still waiting, are in order and without
  gap an initial part of the requests that the request direction alone parses to: a response is
  never paired with a request that was overtaken, repeated or altered, whatever the upstream sends.\<close>

theorem tap_pairs_requests_in_order:
  "prefix
     (map tx_request (fst (tap_run clk ops tap_new) @ tap_completed (snd (tap_run clk ops tap_new)))
        @ map p_request (tap_pending (snd (tap_run clk ops tap_new))))
     (map p_request (tap_pending (snd (tap_run clk' (filter is_tap_request ops) tap_new))))"
proof -
  obtain txs t' where r: "tap_run clk ops tap_new = (txs, t')" by force
  have "req_sim [] tap_new tap_new" by (simp add: req_sim_def req_alike_def)
  from req_sim_run[OF this r, of clk'] requests_complete_nothing[of clk' ops tap_new] r show ?thesis
    by (auto simp: req_sim_def req_alike_def tap_log_def tap_new_def)
qed

subsection \<open>Bodies\<close>

definition body_ok :: "bytes \<Rightarrow> nat \<Rightarrow> bool \<Rightarrow> bool" where
  "body_ok body sz trunc \<longleftrightarrow> length body = min sz MAX_BODY_CAPTURE \<and> (trunc \<longleftrightarrow> MAX_BODY_CAPTURE < sz)"

definition cap_ok :: "body_cap \<Rightarrow> bool" where
  "cap_ok c \<longleftrightarrow> body_ok (bc_captured c) (bc_wire c) (bc_trunc c)"

definition req_ok :: "http_request \<Rightarrow> bool" where
  "req_ok r \<longleftrightarrow> body_ok (rq_body r) (rq_body_size r) (rq_truncated r)"

definition resp_ok :: "http_response \<Rightarrow> bool" where
  "resp_ok r \<longleftrightarrow> body_ok (rs_body r) (rs_body_size r) (rs_truncated r)"

definition tx_ok :: "transaction \<Rightarrow> bool" where
  "tx_ok x \<longleftrightarrow> req_ok (tx_request x) \<and> resp_ok (tx_response x)"

definition tap_ok :: "http_tap \<Rightarrow> bool" where
  "tap_ok t \<longleftrightarrow> list_all tx_ok (tap_completed t) \<and> list_all (\<lambda>p. req_ok (p_request p)) (tap_pending t)
     \<and> (case tap_req_partial t of None \<Rightarrow> True | Some (r, _, c) \<Rightarrow> cap_ok c)
     \<and> (case tap_resp_partial t of None \<Rightarrow> True | Some (r, _, c) \<Rightarrow> cap_ok c)"

lemma cap_ok_new: "cap_ok body_cap_new"
  by (simp add: cap_ok_def body_ok_def body_cap_new_def)

lemma push_capped_ok: "cap_ok c \<Longrightarrow> cap_ok (push_capped c d)"
  by (auto simp: cap_ok_def body_ok_def push_capped_def Let_def min_def split: if_splits)

lemma chunk_consume_ok: "cap_ok c \<Longrightarrow> chunk_consume st buf c = (step, st', buf', c') \<Longrightarrow> cap_ok c'"
  by (induction st buf c rule: chunk_induct) (auto simp: chunk_steps push_capped_ok split: if_splits)

lemma body_consume_ok: "cap_ok c \<Longrightarrow> body_consume fr buf c = (step, fr', buf', c') \<Longrightarrow> cap_ok c'"
  by (auto simp: body_consume_def Let_def push_capped_ok dest: chunk_consume_ok
      split: framing.splits if_splits prod.splits)

lemma heads_ok: "req_ok (request_of_head h line)" "resp_ok (response_of_head h line')"
  by (auto simp: req_ok_def resp_ok_def body_ok_def request_of_head_def response_of_head_def split: prod.splits)

lemma attach_ok: "cap_ok c \<Longrightarrow> req_ok (attach_body_req r c)" "cap_ok c \<Longrightarrow> resp_ok (attach_body_resp r' c)"
  by (simp_all add: attach_body_req_def attach_body_resp_def req_ok_def resp_ok_def cap_ok_def)

lemma tap_ok_prims:
  "tap_ok t \<Longrightarrow> tap_ok (t\<lparr>tap_req_buf := b\<rparr>)" "tap_ok t \<Longrightarrow> tap_ok (t\<lparr>tap_resp_buf := b\<rparr>)"
  "tap_ok t \<Longrightarrow> tap_ok (tap_disable t)" "tap_ok t \<Longrightarrow> req_ok r \<Longrightarrow> tap_ok (push_pending clk r t)"
  "tap_ok t \<Longrightarrow> cap_ok c \<Longrightarrow> tap_ok (t\<lparr>tap_req_buf := b, tap_req_partial := Some (r, fr, c)\<rparr>)"
  "tap_ok t \<Longrightarrow> cap_ok c \<Longrightarrow> tap_ok (t\<lparr>tap_resp_buf := b, tap_resp_partial := Some (rs, fr, c)\<rparr>)"
  "tap_ok t \<Longrightarrow> tap_ok (t\<lparr>tap_req_buf := b, tap_req_partial := None\<rparr>)"
  "tap_ok t \<Longrightarrow> tap_ok (t\<lparr>tap_resp_buf := b, tap_resp_partial := None\<rparr>)"
  "tap_ok t \<Longrightarrow> tap_ok (t\<lparr>tap_resp_partial := None\<rparr>)"
  "tap_ok t \<Longrightarrow> tap_ok (t\<lparr>tap_disabled := True\<rparr>)" "tap_ok t \<Longrightarrow> tap_ok (set_host h t)"
  "tap_ok t \<Longrightarrow> resp_ok rs \<Longrightarrow> tap_ok (complete_response clk rs t)"
  by (auto simp: tap_ok_def tap_disable_def push_pending_def complete_response_def set_host_def tx_ok_def
      split: list.splits)

lemma req_body_step_ok: "tap_ok t \<Longrightarrow> cap_ok c \<Longrightarrow> tap_ok (fst (req_body_step clk r fr c t))"
  by (auto simp: req_body_step_def Let_def intro!: tap_ok_prims attach_ok dest: body_consume_ok
      split: prod.splits body_step.splits)

lemma resp_body_step_ok: "tap_ok t \<Longrightarrow> cap_ok c \<Longrightarrow> tap_ok (fst (resp_body_step clk r fr c t))"
  by (auto simp: resp_body_step_def Let_def intro!: tap_ok_prims attach_ok dest: body_consume_ok
      split: prod.splits body_step.splits)

lemma req_step_ok: "tap_ok t \<Longrightarrow> tap_ok (fst (req_step clk t))"
  by (auto simp: req_step_def req_start_def Let_def cap_ok_new heads_ok intro!: tap_ok_prims req_body_step_ok
      split: option.splits prod.splits head_step.splits) (auto simp: tap_ok_def)

lemma resp_start_ok: "tap_ok t \<Longrightarrow> resp_ok r \<Longrightarrow> tap_ok (fst (resp_start clk r t))"
  by (simp add: resp_start_def cap_ok_new tap_ok_prims resp_body_step_ok split: option.splits)

lemma resp_step_ok: "tap_ok t \<Longrightarrow> tap_ok (fst (resp_step clk t))"
  by (auto simp: resp_step_def Let_def heads_ok intro!: tap_ok_prims resp_start_ok resp_body_step_ok
      split: option.splits prod.splits head_step.splits) (auto simp: tap_ok_def)

lemma drain_requests_ok: "tap_ok t \<Longrightarrow> tap_ok (drain_requests clk t)"
proof (induction clk t rule: drain_requests.induct)
  case (1 clk t)
  from 1 req_step_ok[of t clk] show ?case
    by (subst drain_requests.simps) (cases "req_step clk t", auto)
qed

lemma drain_responses_ok: "tap_ok t \<Longrightarrow> tap_ok (drain_responses clk t)"
proof (induction clk t rule: drain_responses.induct)
  case (1 clk t)
  from 1 resp_step_ok[of t clk] show ?case
    by (subst drain_responses.simps) (cases "resp_step clk t", auto)
qed

lemma finish_ok: "tap_ok t \<Longrightarrow> tap_ok (finish clk t)"
  by (auto simp: finish_def Let_def intro!: tap_ok_prims attach_ok split: option.splits)
    (auto simp: tap_ok_def)

lemma tap_step_ok: "tap_ok t \<Longrightarrow> tap_step clk op t = (txs, t') \<Longrightarrow> list_all tx_ok txs \<and> tap_ok t'"
  by (cases op) (auto simp: feed_request_def feed_response_def take_transactions_def
      drain_requests_ok drain_responses_ok finish_ok tap_ok_prims, auto simp: tap_ok_def)

lemma tap_run_ok: "tap_ok t \<Longrightarrow> tap_run clk ops t = (txs, t') \<Longrightarrow> list_all tx_ok txs \<and> tap_ok t'"
proof (induction ops arbitrary: t txs)
  case (Cons op ops)
  obtain txs1 t1 where s: "tap_step clk op t = (txs1, t1)" by force
  from tap_step_ok[OF Cons.prems(1) s] Cons.IH[of t1] Cons.prems(2) s show ?case
    by (auto simp: Let_def split: prod.splits)
qed simp

text \<open>Captured bodies are bounded and honest. In every transaction the tap ever emits, the length of
  the stored body is the number of body bytes seen on the wire or the cap, whichever is less, and the
  body is flagged as truncated exactly when bytes are missing.\<close>

theorem tap_bodies_bounded:
  "list_all (\<lambda>x.
      length (rq_body (tx_request x)) = min (rq_body_size (tx_request x)) MAX_BODY_CAPTURE
    \<and> length (rs_body (tx_response x)) = min (rs_body_size (tx_response x)) MAX_BODY_CAPTURE
    \<and> (rq_truncated (tx_request x) \<longleftrightarrow> MAX_BODY_CAPTURE < rq_body_size (tx_request x))
    \<and> (rs_truncated (tx_response x) \<longleftrightarrow> MAX_BODY_CAPTURE < rs_body_size (tx_response x)))
     (fst (tap_run clk ops tap_new))"
proof -
  have "tap_ok tap_new" by (simp add: tap_ok_def tap_new_def)
  from tap_run_ok[OF this, of clk ops "fst (tap_run clk ops tap_new)" "snd (tap_run clk ops tap_new)"]
  show ?thesis by (simp add: tx_ok_def req_ok_def resp_ok_def body_ok_def list_all_iff)
qed

end
