(* ===== verification/Base64.thy ===== *)
theory Base64
  imports Rust_Text
begin

unbundle bit_operations_syntax

section \<open>Base64 and PEM\<close>

text \<open>
  \<open>base64_encode\<close> of \<open>rust/tls/src/har.rs\<close> and \<open>base64_decode\<close>, \<open>pem_to_der\<close>, \<open>push_hex\<close> of
  \<open>rust/tls/src/lib.rs\<close>. The decoder keeps its accumulator in a \<open>u32\<close> whose upper bits are never
  cleared; the shift wraps them out.
\<close>

definition b64_alphabet :: bytes where
  "b64_alphabet = asc ''ABCDEFGHIJKLMNOPQRSTUVWXYZabcdefghijklmnopqrstuvwxyz0123456789+/''"

definition b64_char :: "u32 \<Rightarrow> u8" where
  "b64_char v = b64_alphabet ! unat (v AND 63)"

fun base64_encode :: "bytes \<Rightarrow> bytes" where
  "base64_encode [] = []"
| "base64_encode [x] =
     (let n = push_bit 16 (ucast x :: u32)
      in [b64_char (drop_bit 18 n), b64_char (drop_bit 12 n), 61, 61])"
| "base64_encode [x, y] =
     (let n = push_bit 16 (ucast x :: u32) OR push_bit 8 (ucast y)
      in [b64_char (drop_bit 18 n), b64_char (drop_bit 12 n), b64_char (drop_bit 6 n), 61])"
| "base64_encode (x # y # z # rest) =
     (let n = push_bit 16 (ucast x :: u32) OR push_bit 8 (ucast y) OR ucast z
      in [b64_char (drop_bit 18 n), b64_char (drop_bit 12 n), b64_char (drop_bit 6 n), b64_char n]
         @ base64_encode rest)"

definition b64_val :: "u8 \<Rightarrow> u32 option" where
  "b64_val c =
     (if 65 \<le> c \<and> c \<le> 90 then Some (ucast (c - 65))
      else if 97 \<le> c \<and> c \<le> 122 then Some (ucast (c - 97 + 26))
      else if 48 \<le> c \<and> c \<le> 57 then Some (ucast (c - 48 + 52))
      else if c = 43 then Some 62
      else if c = 47 then Some 63
      else None)"

fun base64_loop :: "bytes \<Rightarrow> u32 \<Rightarrow> nat \<Rightarrow> bytes \<Rightarrow> bytes option" where
  "base64_loop [] acc bits out = Some out"
| "base64_loop (c # cs) acc bits out =
     (if c = 61 \<or> is_ascii_whitespace c then base64_loop cs acc bits out
      else case b64_val c of
        None \<Rightarrow> None
      | Some v \<Rightarrow>
          let acc = push_bit 6 acc OR v; bits = bits + 6
          in if bits \<ge> 8 then base64_loop cs acc (bits - 8) (out @ [ucast (drop_bit (bits - 8) acc)])
             else base64_loop cs acc bits out)"

definition base64_decode :: "bytes \<Rightarrow> bytes option" where
  "base64_decode s = base64_loop s 0 0 []"

definition strip_line_cr :: "bytes \<Rightarrow> bytes" where
  "strip_line_cr l = (if l \<noteq> [] \<and> last l = 13 then butlast l else l)"

definition str_lines :: "bytes \<Rightarrow> bytes list" where
  \<comment> \<open>\<open>str::lines\<close>: split at line feeds, a final empty piece left out, a trailing CR removed\<close>
  "str_lines s =
     (let ps = split_on 10 s
      in map strip_line_cr (if last ps = [] then butlast ps else ps))"

fun pem_body :: "bool \<Rightarrow> bytes list \<Rightarrow> bytes" where
  "pem_body in_cert [] = []"
| "pem_body in_cert (l # ls) =
     (let line = trim l
      in if prefix (asc ''-----BEGIN CERTIFICATE-----'') line then pem_body True ls
         else if prefix (asc ''-----END CERTIFICATE-----'') line then []
         else (if in_cert then line else []) @ pem_body in_cert ls)"

definition pem_to_der :: "bytes \<Rightarrow> bytes option" where
  "pem_to_der pem =
     (let b64 = pem_body False (str_lines pem)
      in if b64 = [] then None else base64_decode b64)"

definition hex_digits :: bytes where
  "hex_digits = asc ''0123456789abcdef''"

definition push_hex :: "bytes \<Rightarrow> bytes" where
  "push_hex bs = concat (map (\<lambda>b. [hex_digits ! unat (drop_bit 4 b), hex_digits ! unat (b AND 15)]) bs)"

subsection \<open>Decoding what was encoded\<close>

lemma b64_vals: "map b64_val b64_alphabet = map (\<lambda>i. Some (of_nat i)) [0..<64]"
  by code_simp

lemma b64_printable: "list_all (\<lambda>c. 33 \<le> c \<and> c \<le> 126 \<and> c \<noteq> 61) b64_alphabet"
  by code_simp

lemma b64_char_facts:
  "b64_val (b64_char v) = Some (v AND 63)" "b64_char v \<noteq> 61" "\<not> is_ascii_whitespace (b64_char v)"
  "33 \<le> b64_char v" "b64_char v \<le> 126"
proof -
  let ?i = "unat (v AND 63)"
  have i: "?i < 64"
    using word_and_le1[of v "63::u32"] by (simp add: word_le_nat_alt)
  have len: "length b64_alphabet = 64" by (simp add: b64_alphabet_def)
  from arg_cong[OF b64_vals, of "\<lambda>l. l ! ?i"] i len
  show "b64_val (b64_char v) = Some (v AND 63)" by (simp add: b64_char_def)
  from b64_printable i len show c: "33 \<le> b64_char v" "b64_char v \<le> 126" "b64_char v \<noteq> 61"
    by (simp_all add: b64_char_def list_all_length)
  from c(1) show "\<not> is_ascii_whitespace (b64_char v)" by (auto simp: is_ascii_whitespace_def)
qed

lemma base64_loop_char:
  "base64_loop (b64_char v # cs) acc bits out =
     (let acc = push_bit 6 acc OR (v AND 63); bits = bits + 6
      in if bits \<ge> 8 then base64_loop cs acc (bits - 8) (out @ [ucast (drop_bit (bits - 8) acc)])
         else base64_loop cs acc bits out)"
  by (subst base64_loop.simps(2)) (simp only: b64_char_facts if_False option.case simp_thms)

lemma base64_loop_pad: "base64_loop (61 # cs) acc bits out = base64_loop cs acc bits out"
  by (subst base64_loop.simps(2)) simp

declare base64_loop.simps(2) [simp del]

lemma byte_eqI:
  fixes x y :: u8
  assumes "bit x 0 = bit y 0" "bit x 1 = bit y 1" "bit x 2 = bit y 2" "bit x 3 = bit y 3"
    "bit x 4 = bit y 4" "bit x 5 = bit y 5" "bit x 6 = bit y 6" "bit x 7 = bit y 7"
  shows "x = y"
proof (rule bit_word_eqI)
  fix n assume "n < LENGTH(8)"
  then have "n = 0 \<or> n = 1 \<or> n = 2 \<or> n = 3 \<or> n = 4 \<or> n = 5 \<or> n = 6 \<or> n = 7" by auto
  with assms show "bit x n = bit y n" by (elim disjE) simp_all
qed

lemma byte_bit_high: "8 \<le> n \<Longrightarrow> \<not> bit (x :: u8) n"
  using bit_imp_le_length[of x n] by auto

text \<open>The three bytes of a group, from its four characters; the accumulator \<open>acc\<close> is arbitrary.\<close>

lemma b64_bytes:
  fixes x y z :: u8 and acc :: u32
  defines "n \<equiv> push_bit 16 (ucast x :: u32) OR push_bit 8 (ucast y) OR ucast z"
  shows "ucast (drop_bit 4 (push_bit 6 (push_bit 6 acc OR (drop_bit 18 n AND 63)) OR (drop_bit 12 n AND 63))) = x"
    and "ucast (drop_bit 2 (push_bit 6 (push_bit 6 acc OR (drop_bit 12 n AND 63)) OR (drop_bit 6 n AND 63))) = y"
    and "ucast (push_bit 6 (push_bit 6 acc OR (drop_bit 6 n AND 63)) OR (n AND 63)) = z"
  by ((rule byte_eqI; simp add: n_def bit_simps byte_bit_high)[1])+

lemma base64_loop_encode: "base64_loop (base64_encode xs) acc 0 out = Some (out @ xs)"
proof (induction xs arbitrary: acc out rule: base64_encode.induct)
  case 1
  show ?case by simp
next
  case (2 x)
  show ?case using b64_bytes(1)[of acc x 0 0]
    by (simp add: Let_def base64_loop_char base64_loop_pad)
next
  case (3 x y)
  show ?case using b64_bytes(1)[of acc x y 0]
      b64_bytes(2)[of "push_bit 6 acc OR (drop_bit 18 (push_bit 16 (ucast x :: u32) OR push_bit 8 (ucast y)) AND 63)" x y 0]
    by (simp add: Let_def base64_loop_char base64_loop_pad)
next
  case (4 x y z rest)
  let ?n = "push_bit 16 (ucast x :: u32) OR push_bit 8 (ucast y) OR ucast z"
  let ?a1 = "push_bit 6 acc OR (drop_bit 18 ?n AND 63)"
  let ?a2 = "push_bit 6 ?a1 OR (drop_bit 12 ?n AND 63)"
  show ?case using b64_bytes(1)[of acc x y z] b64_bytes(2)[of ?a1 x y z] b64_bytes(3)[of ?a2 x y z] 4
    by (simp add: Let_def base64_loop_char base64_loop_pad)
qed

lemma base64_roundtrip: "base64_decode (base64_encode xs) = Some xs"
  by (simp add: base64_decode_def base64_loop_encode)

subsection \<open>Certificates in PEM\<close>

lemma b64_no_dash: "list_all (\<lambda>c. c \<noteq> 45 \<and> c \<noteq> 10) b64_alphabet"
  by code_simp

lemma b64_char_no_dash: "b64_char v \<noteq> 45" "b64_char v \<noteq> 10"
proof -
  have "unat (v AND 63) < 64"
    using word_and_le1[of v "63::u32"] by (simp add: word_le_nat_alt)
  moreover have "length b64_alphabet = 64" by (simp add: b64_alphabet_def)
  ultimately show "b64_char v \<noteq> 45" "b64_char v \<noteq> 10"
    using b64_no_dash by (simp_all add: b64_char_def list_all_length)
qed

lemma base64_encode_chars: "c \<in> set (base64_encode xs) \<Longrightarrow> 33 \<le> c \<and> c \<le> 126 \<and> c \<noteq> 45 \<and> c \<noteq> 10"
  by (induction xs rule: base64_encode.induct) (auto simp: Let_def b64_char_facts b64_char_no_dash)

lemma base64_encode_Nil_iff: "base64_encode xs = [] \<longleftrightarrow> xs = []"
  by (cases xs rule: base64_encode.cases) (simp_all add: Let_def)

definition pem_of_lines :: "bytes list \<Rightarrow> bytes" where
  \<comment> \<open>a PEM file whose body has these lines\<close>
  "pem_of_lines ls =
     asc ''-----BEGIN CERTIFICATE-----'' @ 10 # concat (map (\<lambda>l. l @ [10]) ls)
       @ asc ''-----END CERTIFICATE-----'' @ [10]"

lemma split_on_lines:
  "\<forall>l\<in>set ls. 10 \<notin> set l \<Longrightarrow>
   split_on 10 (concat (map (\<lambda>l. l @ [10]) ls) @ rest) = ls @ split_on (10::u8) rest"
  by (induction ls) (simp_all add: split_on_sep)

definition pem_begin :: bytes where
  "pem_begin = asc ''-----BEGIN CERTIFICATE-----''"

definition pem_end :: bytes where
  "pem_end = asc ''-----END CERTIFICATE-----''"

lemma pem_marks:
  "trim pem_begin = pem_begin" "trim pem_end = pem_end" "10 \<notin> set pem_begin" "10 \<notin> set pem_end"
  "last pem_begin \<noteq> 13" "last pem_end \<noteq> 13" "\<not> prefix pem_begin pem_end" "pem_begin \<noteq> []" "pem_end \<noteq> []"
  by (code_simp, code_simp) (simp_all add: pem_begin_def pem_end_def)

lemma pem_lines:
  assumes "\<forall>l\<in>set ls. 10 \<notin> set l \<and> 13 \<notin> set l"
  shows "str_lines (pem_of_lines ls) = pem_begin # ls @ [pem_end]"
proof -
  have "split_on 10 (pem_of_lines ls) = pem_begin # ls @ [pem_end, []]"
    using split_on_sep[OF pem_marks(3), of "concat (map (\<lambda>l. l @ [10]) ls) @ pem_end @ [10]"]
      split_on_lines[of ls "pem_end @ [10]"] split_on_sep[OF pem_marks(4), of "[]"] assms
    by (simp add: pem_of_lines_def pem_begin_def[symmetric] pem_end_def[symmetric] del: asc_Cons)
  moreover have "map strip_line_cr ls = ls"
    using assms last_in_set by (fastforce intro!: map_idI simp: strip_line_cr_def)
  ultimately show ?thesis
    using pem_marks by (simp add: str_lines_def strip_line_cr_def butlast_append)
qed

lemma pem_body_lines:
  "\<forall>l\<in>set ls. printable l \<and> 45 \<notin> set l \<Longrightarrow> pem_body True (ls @ [pem_end]) = concat ls"
proof (induction ls)
  case Nil
  show ?case using pem_marks by (simp add: pem_begin_def[symmetric] pem_end_def[symmetric] del: asc_Cons)
next
  case (Cons l ls)
  have "hd pem_begin = 45" "hd pem_end = 45" by (simp_all add: pem_begin_def pem_end_def)
  then have "\<not> prefix pem_begin l" "\<not> prefix pem_end l"
    using Cons.prems pem_marks(8,9) by (auto simp: prefix_def) (metis hd_in_set)+
  with Cons show ?case
    by (simp add: trim_printable Let_def pem_begin_def[symmetric] pem_end_def[symmetric] del: asc_Cons)
qed

text \<open>A certificate survives its PEM armour. However the Base64 text of the DER bytes is broken into
  lines, \<open>pem_to_der\<close> recovers exactly the bytes the user installed.\<close>

theorem pem_to_der_roundtrip:
  assumes "concat ls = base64_encode der" and "der \<noteq> []"
  shows "pem_to_der (pem_of_lines ls) = Some der"
proof -
  have chars: "\<forall>l\<in>set ls. \<forall>c\<in>set l. 33 \<le> c \<and> c \<le> 126 \<and> c \<noteq> 45 \<and> c \<noteq> 10"
    using base64_encode_chars[of _ der] assms(1)[symmetric] by fastforce
  then have "\<forall>l\<in>set ls. 10 \<notin> set l \<and> 13 \<notin> set l" "\<forall>l\<in>set ls. printable l \<and> 45 \<notin> set l"
    by (fastforce simp: printable_def list_all_iff)+
  from pem_lines[OF this(1)] pem_body_lines[OF this(2)]
  have "pem_body False (str_lines (pem_of_lines ls)) = base64_encode der"
    using pem_marks assms(1) by (simp add: pem_begin_def[symmetric] del: asc_Cons)
  with assms(2) show ?thesis
    by (simp add: pem_to_der_def base64_encode_Nil_iff base64_roundtrip)
qed

end
