(* ===== verification/Calendar.thy ===== *)
theory Calendar
  imports Rust_Text
begin

section \<open>Calendar dates of HAR timestamps\<close>

text \<open>
  \<open>iso8601\<close> and \<open>civil_from_days\<close> of \<open>rust/tls/src/har.rs\<close>. The reference is the calendar itself:
  starting from 1970-01-01, \<open>next_day\<close> steps to the following day by the month lengths and the
  leap-year rule.
\<close>

definition civil_from_days :: "int \<Rightarrow> int \<times> nat \<times> nat" where
  \<comment> \<open>Rust's \<open>/\<close> on a negative numerator rounds towards zero\<close>
  "civil_from_days z0 =
     (let z = z0 + 719468;
          era = (if z \<ge> 0 then z div 146097 else - ((146096 - z) div 146097));
          doe = nat (z - era * 146097);
          yoe = (doe - doe div 1460 + doe div 36524 - doe div 146096) div 365;
          y = int yoe + era * 400;
          doy = doe - (365 * yoe + yoe div 4 - yoe div 100);
          mp = (5 * doy + 2) div 153;
          d = doy - (153 * mp + 2) div 5 + 1;
          m = (if mp < 10 then mp + 3 else mp - 9)
      in (if m \<le> 2 then y + 1 else y, m, d))"

definition pad0 :: "nat \<Rightarrow> bytes \<Rightarrow> bytes" where
  \<comment> \<open>\<open>{:0w}\<close>\<close>
  "pad0 w s = replicate (w - length s) 48 @ s"

definition iso8601 :: "nat \<Rightarrow> bytes" where
  "iso8601 unix_ms =
     (let secs = unix_ms div 1000; millis = unix_ms mod 1000;
          days = int (secs div 86400); rem = secs mod 86400;
          hour = rem div 3600; mn = rem mod 3600 div 60; sec = rem mod 60;
          (year, month, day) = civil_from_days days
      in pad0 4 (dec_str (nat year)) @ [45] @ pad0 2 (dec_str month) @ [45] @ pad0 2 (dec_str day) @ [84]
         @ pad0 2 (dec_str hour) @ [58] @ pad0 2 (dec_str mn) @ [58] @ pad0 2 (dec_str sec) @ [46]
         @ pad0 3 (dec_str millis) @ [90])"

subsection \<open>The calendar\<close>

definition leap :: "int \<Rightarrow> bool" where
  "leap y \<longleftrightarrow> y mod 4 = 0 \<and> (y mod 100 \<noteq> 0 \<or> y mod 400 = 0)"

definition month_days :: "int \<Rightarrow> nat \<Rightarrow> nat" where
  "month_days y m = (if m = 2 then if leap y then 29 else 28 else if m \<in> {4, 6, 9, 11} then 30 else 31)"

fun next_day :: "int \<times> nat \<times> nat \<Rightarrow> int \<times> nat \<times> nat" where
  "next_day (y, m, d) =
     (if d < month_days y m then (y, m, d + 1)
      else if m < 12 then (y, m + 1, 1) else (y + 1, 1, 1))"

subsection \<open>Years of an era, days of a year\<close>

definition year_start :: "nat \<Rightarrow> nat" where
  "year_start y = 365 * y + y div 4 - y div 100"

definition yoe_of :: "nat \<Rightarrow> nat" where
  "yoe_of doe = (doe - doe div 1460 + doe div 36524 - doe div 146096) div 365"

definition year_len :: "nat \<Rightarrow> nat" where
  "year_len y = 365 + (if leap (int y + 1) then 1 else 0)"

lemma year_start_Suc: "y < 399 \<Longrightarrow> year_start (Suc y) = year_start y + year_len y"
proof -
  assume y: "y < 399"
  have d4: "Suc y div 4 = y div 4 + (if Suc y mod 4 = 0 then 1 else 0)"
    and d100: "Suc y div 100 = y div 100 + (if Suc y mod 100 = 0 then 1 else 0)"
    by (simp_all add: div_Suc)
  have le: "y div 100 \<le> y div 4" by (simp add: div_le_mono2)
  have m400: "Suc y mod 400 \<noteq> 0" using y by simp
  have m: "Suc y mod 100 = 0 \<Longrightarrow> Suc y mod 4 = 0" by presburger
  have year_mod: "(int y + 1) mod 4 = int (Suc y mod 4)" "(int y + 1) mod 100 = int (Suc y mod 100)"
    "(int y + 1) mod 400 = int (Suc y mod 400)"
    by (simp_all add: zmod_int add.commute)
  have lp: "leap (int y + 1) \<longleftrightarrow> Suc y mod 4 = 0 \<and> Suc y mod 100 \<noteq> 0"
    using m400 year_mod by (simp add: leap_def)
  show ?thesis
    using le m by (auto simp: year_start_def year_len_def lp d4 d100) linarith?
qed

text \<open>A year of the era, written as century, olympiad and year in it.\<close>

lemma year_parts:
  fixes y :: nat
  assumes "y < 400"
  obtains q s t where "y = 100 * q + 4 * s + t" "q \<le> 3" "s \<le> 24" "t \<le> 3"
    "year_start y = 36524 * q + 1461 * s + 365 * t"
    "leap (int y + 1) \<longleftrightarrow> t = 3 \<and> (s < 24 \<or> q = 3)"
proof -
  define q where "q = y div 100"
  define s where "s = y mod 100 div 4"
  define t where "t = y mod 100 mod 4"
  have r: "y mod 100 = 4 * s + t" by (simp add: s_def t_def)
  have y: "y = 100 * q + 4 * s + t" using r by (metis add.assoc mult_div_mod_eq q_def)
  have b: "q \<le> 3" "s \<le> 24" "t \<le> 3" using assms r by (simp_all add: q_def s_def t_def)
  have "y div 4 = 25 * q + s" using y b by (intro div_nat_eqI) simp_all
  moreover have "y div 100 = q" by (simp add: q_def)
  ultimately have st: "year_start y = 36524 * q + 1461 * s + 365 * t"
    using y by (simp add: year_start_def)
  have year_mod: "(int y + 1) mod 4 = int (Suc y mod 4)" "(int y + 1) mod 100 = int (Suc y mod 100)"
    "(int y + 1) mod 400 = int (Suc y mod 400)"
    by (simp_all add: zmod_int add.commute)
  have lp: "leap (int y + 1) \<longleftrightarrow> t = 3 \<and> (s < 24 \<or> q = 3)"
  proof (cases "t = 3")
    case False
    then have "(t + 1) mod 4 \<noteq> 0" using b by simp
    moreover have "Suc y mod 4 = (t + 1) mod 4" using y by presburger
    ultimately have "(int y + 1) mod 4 \<noteq> 0" by presburger
    with False show ?thesis by (simp add: leap_def)
  next
    case True
    then have y1: "int y + 1 = 4 * (25 * int q + int s + 1)" using y by simp
    show ?thesis
    proof (cases "s = 24")
      case True
      with y1 have "int y + 1 = 100 * (int q + 1)" by simp
      moreover have "q = 0 \<or> q = 1 \<or> q = 2 \<or> q = 3" using b by linarith
      ultimately show ?thesis using \<open>t = 3\<close> True by (auto simp: leap_def)
    next
      case False
      then have "s < 24" using b by simp
      have "int y + 1 = 4 * (int s + 1) + 100 * int q" using y1 by simp
      then have "(int y + 1) mod 100 = 4 * (int s + 1) mod 100" by (simp only: mod_mult_self2)
      then have "(int y + 1) mod 100 = 4 * (int s + 1)" using \<open>s < 24\<close> by simp
      with y1 \<open>t = 3\<close> \<open>s < 24\<close> show ?thesis by (simp add: leap_def)
    qed
  qed
  show thesis by (rule that[OF y b st lp])
qed

lemma yoe_of_year:
  assumes "y < 400" and "off < year_len y"
  shows "yoe_of (year_start y + off) = y"
proof -
  from assms(1) obtain q s t where p: "y = 100 * q + 4 * s + t" "q \<le> 3" "s \<le> 24" "t \<le> 3"
    "year_start y = 36524 * q + 1461 * s + 365 * t"
    "leap (int y + 1) \<longleftrightarrow> t = 3 \<and> (s < 24 \<or> q = 3)"
    by (rule year_parts)
  have off: "off \<le> 365" "off = 365 \<Longrightarrow> t = 3 \<and> (s < 24 \<or> q = 3)"
    using assms(2) p(6) by (auto simp: year_len_def split: if_splits)
  let ?d = "36524 * q + 1461 * s + 365 * t + off"
  show ?thesis
  proof (cases "?d = 146096")
    case True
    have q: "q = 3" using True p off by (cases "q = 3") simp_all
    have s: "s = 24" using True p off q by (cases "s = 24") simp_all
    have t: "t = 3" using True p off q s by (cases "t = 3") simp_all
    have "y = 399" using p q s t by simp
    with True p(5) show ?thesis by (simp add: yoe_of_def)
  next
    case False
    have e: "1461 * s + 365 * t + off < 36524"
    proof (cases "off = 365")
      case False
      with off(1) have "off \<le> 364" by simp
      with p(3,4) show ?thesis by linarith
    next
      case off365: True
      with off(2) have t: "t = 3" and "s < 24 \<or> q = 3" by simp_all
      with off365 False p(3) show ?thesis by (cases "s = 24") simp_all
    qed
    have d1: "?d div 36524 = q" using e by (intro div_nat_eqI) simp_all
    have d2: "?d div 146096 = 0" using e p(2) False by simp
    define c where "c = (if 24 * q + s + 365 * t + off \<ge> 1460 then 1 else 0 :: nat)"
    have small: "24 * q + s + 365 * t + off < 2920" using p(2-4) off(1) by linarith
    have d3: "?d div 1460 = 25 * q + s + c"
      using small by (intro div_nat_eqI) (simp_all add: c_def)
    have c1: "c \<le> off"
    proof (cases "off = 0")
      case True
      with p(2-4) have "24 * q + s + 365 * t + off < 1460" by linarith
      then show ?thesis by (simp add: c_def)
    qed (simp add: c_def)
    have c2: "off - c < 365"
      using off by (cases "off = 365") (simp_all add: c_def)
    have "?d - (25 * q + s + c) + q = 365 * y + (off - c)"
      using c1 p(1) by simp
    then have "(?d - ?d div 1460 + ?d div 36524 - ?d div 146096) div 365 = y"
      unfolding d1 d2 d3 using c2 by simp
    with p(5) show ?thesis by (simp add: yoe_of_def)
  qed
qed

subsection \<open>Months\<close>

definition month_day :: "nat \<Rightarrow> nat \<times> nat" where
  \<comment> \<open>the day of a year that starts in March\<close>
  "month_day doy =
     (let mp = (5 * doy + 2) div 153
      in (if mp < 10 then mp + 3 else mp - 9, doy - (153 * mp + 2) div 5 + 1))"

lemma month_day_of:
  assumes "153 * mp \<le> 5 * doy + 2" and "5 * doy + 2 < 153 * Suc mp"
  shows "month_day doy = (if mp < 10 then mp + 3 else mp - 9, doy - (153 * mp + 2) div 5 + 1)"
proof -
  have "(5 * doy + 2) div 153 = mp" using assms by (intro div_nat_eqI) simp_all
  then show ?thesis by (simp add: month_day_def Let_def)
qed

lemma month_day_cases:
  "doy < 31 \<Longrightarrow> month_day doy = (3, doy + 1)"
  "31 \<le> doy \<Longrightarrow> doy < 61 \<Longrightarrow> month_day doy = (4, doy - 30)"
  "61 \<le> doy \<Longrightarrow> doy < 92 \<Longrightarrow> month_day doy = (5, doy - 60)"
  "92 \<le> doy \<Longrightarrow> doy < 122 \<Longrightarrow> month_day doy = (6, doy - 91)"
  "122 \<le> doy \<Longrightarrow> doy < 153 \<Longrightarrow> month_day doy = (7, doy - 121)"
  "153 \<le> doy \<Longrightarrow> doy < 184 \<Longrightarrow> month_day doy = (8, doy - 152)"
  "184 \<le> doy \<Longrightarrow> doy < 214 \<Longrightarrow> month_day doy = (9, doy - 183)"
  "214 \<le> doy \<Longrightarrow> doy < 245 \<Longrightarrow> month_day doy = (10, doy - 213)"
  "245 \<le> doy \<Longrightarrow> doy < 275 \<Longrightarrow> month_day doy = (11, doy - 244)"
  "275 \<le> doy \<Longrightarrow> doy < 306 \<Longrightarrow> month_day doy = (12, doy - 274)"
  "306 \<le> doy \<Longrightarrow> doy < 337 \<Longrightarrow> month_day doy = (1, doy - 305)"
  "337 \<le> doy \<Longrightarrow> doy < 366 \<Longrightarrow> month_day doy = (2, doy - 336)"
  using month_day_of[of 0 doy] month_day_of[of 1 doy] month_day_of[of 2 doy] month_day_of[of 3 doy]
    month_day_of[of 4 doy] month_day_of[of 5 doy] month_day_of[of 6 doy] month_day_of[of 7 doy]
    month_day_of[of 8 doy] month_day_of[of 9 doy] month_day_of[of 10 doy] month_day_of[of 11 doy]
  by simp_all

lemma civil_of_parts:
  assumes "z + 719468 = 146097 * e + int (year_start y + off)" and "0 \<le> e" and "y < 400" and "off < year_len y"
  shows "civil_from_days z =
    (let (m, d) = month_day off in (int y + 400 * e + (if m \<le> 2 then 1 else 0), m, d))"
proof -
  have "y div 4 \<le> 99" "year_start y \<le> 365 * y + y div 4" "off \<le> 365"
    using assms(3,4) by (auto simp: year_start_def year_len_def split: if_splits)
  moreover have "y = 399 \<Longrightarrow> year_start y = 145731" by (simp add: year_start_def)
  ultimately have b: "year_start y + off < 146097" using assms(3) by (cases "y = 399") simp_all
  then have era: "(z + 719468) div 146097 = e" and doe: "nat (z + 719468 - e * 146097) = year_start y + off"
    using assms(1) by (simp_all add: assms(1))
  have le: "year_start y = 365 * y + y div 4 - y div 100" by (simp add: year_start_def)
  have nonneg: "z + 719468 \<ge> 0" using assms(1,2) by simp
  show ?thesis
    using yoe_of_year[OF assms(3,4)]
    unfolding civil_from_days_def Let_def era doe if_P[OF nonneg] yoe_of_def[symmetric]
    by (simp add: le[symmetric] month_day_def Let_def)
qed

definition at_day :: "int \<Rightarrow> int \<Rightarrow> nat \<Rightarrow> nat \<Rightarrow> bool" where
  \<comment> \<open>day \<open>off\<close> of year \<open>y\<close> of era \<open>e\<close>, the years starting in March\<close>
  "at_day z e y off \<longleftrightarrow> z + 719468 = 146097 * e + int (year_start y + off) \<and> 0 \<le> e \<and> y < 400 \<and> off < year_len y"

lemma leap_era: "leap (a + 400 * e) = leap a"
proof -
  have "a + 400 * e = a + (e * 100) * 4" "a + 400 * e = a + (e * 4) * 100" "a + 400 * e = a + e * 400" by simp_all
  then have "(a + 400 * e) mod 4 = a mod 4" "(a + 400 * e) mod 100 = a mod 100" "(a + 400 * e) mod 400 = a mod 400"
    by (metis mod_mult_self1)+
  then show ?thesis by (simp add: leap_def)
qed

definition civ :: "int \<Rightarrow> nat \<Rightarrow> int \<times> nat \<times> nat" where
  \<comment> \<open>the civil date of a day of a year that starts in March\<close>
  "civ y off = (let (m, d) = month_day off in (y + (if m \<le> 2 then 1 else 0), m, d))"

lemma civ_step:
  assumes "a \<le> off" and "off < b" and "month_days (y + (if m \<le> 2 then 1 else 0)) m = b - a" and "0 < m" and "m \<le> 12"
    and "\<And>k. a \<le> k \<Longrightarrow> k < b \<Longrightarrow> month_day k = (m, k + 1 - a)"
    and "off + 1 = b \<Longrightarrow> month_day (off + 1) = (if m < 12 then m + 1 else 1, 1) \<and> m \<noteq> 2"
  shows "next_day (civ y off) = civ y (off + 1)"
  using assms(1-5) assms(6)[of off] assms(6)[of "off + 1"] assms(7) by (cases "off + 1 = b") (auto simp: civ_def)

lemma civ_within:
  assumes "off + 1 < 365 + (if leap (y + 1) then 1 else 0)"
  shows "next_day (civ y off) = civ y (off + 1)"
proof -
  have o: "off < 365" using assms by (simp split: if_splits)
  note c = month_day_cases
  consider "off < 31" | "31 \<le> off" "off < 61" | "61 \<le> off" "off < 92" | "92 \<le> off" "off < 122"
    | "122 \<le> off" "off < 153" | "153 \<le> off" "off < 184" | "184 \<le> off" "off < 214" | "214 \<le> off" "off < 245"
    | "245 \<le> off" "off < 275" | "275 \<le> off" "off < 306" | "306 \<le> off" "off < 337" | "337 \<le> off" by linarith
  then show ?thesis
  proof cases
    case 1
    then show ?thesis by (intro civ_step[of 0 off 31 y 3]) (simp_all add: month_days_def c(1) c(2))
  next
    case 2
    then show ?thesis by (intro civ_step[of 31 off 61 y 4]) (simp_all add: month_days_def c(2) c(3))
  next
    case 3
    then show ?thesis by (intro civ_step[of 61 off 92 y 5]) (simp_all add: month_days_def c(3) c(4))
  next
    case 4
    then show ?thesis by (intro civ_step[of 92 off 122 y 6]) (simp_all add: month_days_def c(4) c(5))
  next
    case 5
    then show ?thesis by (intro civ_step[of 122 off 153 y 7]) (simp_all add: month_days_def c(5) c(6))
  next
    case 6
    then show ?thesis by (intro civ_step[of 153 off 184 y 8]) (simp_all add: month_days_def c(6) c(7))
  next
    case 7
    then show ?thesis by (intro civ_step[of 184 off 214 y 9]) (simp_all add: month_days_def c(7) c(8))
  next
    case 8
    then show ?thesis by (intro civ_step[of 214 off 245 y 10]) (simp_all add: month_days_def c(8) c(9))
  next
    case 9
    then show ?thesis by (intro civ_step[of 245 off 275 y 11]) (simp_all add: month_days_def c(9) c(10))
  next
    case 10
    then show ?thesis by (intro civ_step[of 275 off 306 y 12]) (simp_all add: month_days_def c(10) c(11))
  next
    case 11
    then show ?thesis by (intro civ_step[of 306 off 337 y 1]) (simp_all add: month_days_def c(11) c(12))
  next
    case 12
    with assms o show ?thesis
      by (intro civ_step[of 337 off "337 + month_days (y + 1) 2" y 2]) (simp_all add: month_days_def c(12) split: if_splits)
  qed
qed

lemma civ_new_year: "next_day (civ y (364 + (if leap (y + 1) then 1 else 0))) = civ (y + 1) 0"
  by (simp add: civ_def month_day_cases month_days_def)

lemma at_day_civil: "at_day z e y off \<Longrightarrow> civil_from_days z = civ (int y + 400 * e) off"
  unfolding at_day_def civ_def using civil_of_parts[of z e y off] by blast

lemma at_day_step:
  assumes "at_day z e y off"
  shows "\<exists>e' y' off'. at_day (z + 1) e' y' off'
    \<and> next_day (civ (int y + 400 * e) off) = civ (int y' + 400 * e') off'"
proof -
  have lp: "leap (int y + 400 * e + 1) = leap (int y + 1)"
    using leap_era[of "int y + 1" e] by (simp add: algebra_simps)
  have len: "year_len y = 365 + (if leap (int y + 400 * e + 1) then 1 else 0)"
    by (simp add: year_len_def lp)
  show ?thesis
  proof (cases "off + 1 < year_len y")
    case True
    with assms have "at_day (z + 1) e y (off + 1)" by (simp add: at_day_def)
    moreover have "next_day (civ (int y + 400 * e) off) = civ (int y + 400 * e) (off + 1)"
      using True len by (intro civ_within) simp
    ultimately show ?thesis by blast
  next
    case False
    with assms have "off = 364 + (if leap (int y + 400 * e + 1) then 1 else 0)"
      by (simp add: at_day_def len split: if_splits)
    then have nx: "next_day (civ (int y + 400 * e) off) = civ (int y + 400 * e + 1) 0"
      by (simp only: civ_new_year)
    show ?thesis
    proof (cases "y < 399")
      case True
      with assms False have "at_day (z + 1) e (Suc y) 0"
        by (simp add: at_day_def year_start_Suc) (simp add: year_len_def)
      moreover have "int (Suc y) + 400 * e = int y + 400 * e + 1" by simp
      ultimately show ?thesis using nx by metis
    next
      case F2: False
      with assms have y: "y = 399" by (simp add: at_day_def)
      have "leap 400" "leap (400::int) = True" by (simp_all add: leap_def)
      with assms False y have "at_day (z + 1) (e + 1) 0 0"
        by (simp add: at_day_def year_len_def year_start_def)
      moreover have "int 0 + 400 * (e + 1) = int y + 400 * e + 1" using y by simp
      ultimately show ?thesis using nx by metis
    qed
  qed
qed

lemma civil_is_calendar_aux:
  "\<exists>e y off. at_day (int n) e y off \<and> (next_day ^^ n) (1970, 1, 1) = civ (int y + 400 * e) off"
proof (induction n)
  case 0
  have "at_day 0 4 369 306" by (simp add: at_day_def year_start_def year_len_def)
  moreover have "civ (int 369 + 400 * 4) 306 = (1970, 1, 1)" by (simp add: civ_def month_day_cases)
  ultimately show ?case by (intro exI[of _ 4] exI[of _ 369] exI[of _ 306]) simp
next
  case (Suc n)
  then obtain e y off where "at_day (int n) e y off" "(next_day ^^ n) (1970, 1, 1) = civ (int y + 400 * e) off" by blast
  with at_day_step[of "int n" e y off] show ?case by (auto simp: add.commute)
qed

lemma civil_is_calendar: "civil_from_days (int n) = (next_day ^^ n) (1970, 1, 1)"
  using civil_is_calendar_aux[of n] at_day_civil by metis

text \<open>HAR timestamps are right. The time stamp written for a moment is the date reached from
  1970-01-01 by stepping the calendar day by day, month lengths and leap years included, followed
  by the time of that day.\<close>

theorem iso8601_is_calendar:
  "iso8601 ms =
     (let (year, month, day) = (next_day ^^ (ms div 86400000)) (1970, 1, 1);
          t = ms mod 86400000
      in pad0 4 (dec_str (nat year)) @ [45] @ pad0 2 (dec_str month) @ [45] @ pad0 2 (dec_str day) @ [84]
         @ pad0 2 (dec_str (t div 3600000)) @ [58] @ pad0 2 (dec_str (t div 60000 mod 60)) @ [58]
         @ pad0 2 (dec_str (t div 1000 mod 60)) @ [46] @ pad0 3 (dec_str (t mod 1000)) @ [90])"
proof -
  have d: "ms div 1000 div 86400 = ms div 86400000" by (simp add: div_mult2_eq)
  have t: "ms mod 86400000 = 1000 * (ms div 1000 mod 86400) + ms mod 1000"
    using mod_mult2_eq[of ms 1000 86400] by simp
  define r where "r = ms div 1000 mod 86400"
  define u where "u = ms mod 1000"
  have u: "u < 1000" by (simp add: u_def)
  have t1: "(1000 * r + u) div 1000 = r" "(1000 * r + u) mod 1000 = u" using u by simp_all
  have t2: "(1000 * r + u) div 3600000 = r div 3600" "(1000 * r + u) div 60000 = r div 60"
    using div_mult2_eq[of "1000 * r + u" 1000 3600] div_mult2_eq[of "1000 * r + u" 1000 60] t1 by simp_all
  have t3: "r mod 3600 div 60 = r div 60 mod 60"
    using mod_mult2_eq[of r 60 60] by simp
  show ?thesis
    unfolding iso8601_def Let_def d civil_is_calendar t r_def[symmetric] u_def[symmetric] t1 t2 t3
    by simp
qed

end
