(* ===== verification/Har_Export.thy ===== *)
theory Har_Export
  imports Http_Tap Base64 Calendar
begin

section \<open>HAR 1.2 documents\<close>

text \<open>
  The export half of \<open>rust/tls/src/har.rs\<close>: what \<open>write_har\<close> hands to the JSON serialiser, which is
  \<open>serde_json\<close> and not modelled. The structs are records; an \<open>Option\<close> field skipped when absent is
  an \<open>option\<close>. The crate version is a parameter.
\<close>

record name_value =
  nv_name :: bytes
  nv_value :: bytes

record post_data =
  pd_mime :: bytes
  pd_text :: bytes
  pd_encoding :: "bytes option"
  pd_comment :: "bytes option"

record har_content =
  hc_size :: nat
  hc_mime :: bytes
  hc_text :: "bytes option"
  hc_encoding :: "bytes option"
  hc_comment :: "bytes option"

record req_json =
  rj_method :: bytes
  rj_url :: bytes
  rj_version :: bytes
  rj_cookies :: "unit list"
  rj_headers :: "name_value list"
  rj_query :: "name_value list"
  rj_post :: "post_data option"
  rj_headers_size :: nat
  rj_body_size :: nat

record resp_json =
  sj_status :: nat
  sj_text :: bytes
  sj_version :: bytes
  sj_cookies :: "unit list"
  sj_headers :: "name_value list"
  sj_content :: har_content
  sj_redirect :: bytes
  sj_headers_size :: nat
  sj_body_size :: nat

record timings =
  tm_send :: nat
  tm_wait :: nat
  tm_receive :: nat

record har_entry =
  he_started :: bytes
  he_time :: nat
  he_request :: req_json
  he_response :: resp_json
  he_cache :: unit
  he_timings :: timings

record har_log =
  hl_version :: bytes
  hl_creator :: "bytes \<times> bytes"
  hl_entries :: "har_entry list"

definition name_values :: "headers \<Rightarrow> name_value list" where
  "name_values hs = map (\<lambda>(k, v). \<lparr>nv_name = k, nv_value = v\<rparr>) hs"

definition query_params :: "bytes \<Rightarrow> name_value list" where
  "query_params target =
     (case split_once 63 target of
        None \<Rightarrow> []
      | Some (_, q) \<Rightarrow>
          map (\<lambda>pair. case split_once 61 pair of
                 Some (n, v) \<Rightarrow> \<lparr>nv_name = n, nv_value = v\<rparr>
               | None \<Rightarrow> \<lparr>nv_name = pair, nv_value = []\<rparr>)
            (filter (\<lambda>p. p \<noteq> []) (split_on 38 q)))"

definition content_type :: "headers \<Rightarrow> bytes" where
  "content_type hs =
     (case header hs (asc ''content-type'') of None \<Rightarrow> asc ''application/octet-stream'' | Some v \<Rightarrow> v)"

definition body_text :: "bytes \<Rightarrow> bytes \<times> bytes option" where
  "body_text body = (if utf8_valid body then (body, None) else (base64_encode body, Some (asc ''base64'')))"

definition truncated_comment :: "bool \<Rightarrow> bytes option" where
  "truncated_comment truncated =
     (if truncated then Some (asc ''body truncated by Adwarden capture cap'') else None)"

definition req_json_of :: "transaction \<Rightarrow> req_json" where
  "req_json_of txn =
     (let req = tx_request txn;
          query = query_params (rq_target req);
          authority = (case tx_host txn of None \<Rightarrow> asc ''unknown'' | Some h \<Rightarrow> h);
          url = asc ''https://'' @ authority @ rq_target req;
          post = (if rq_body_size req > 0 \<or> rq_body req \<noteq> [] then
                    let (text, encoding) = body_text (rq_body req)
                    in Some \<lparr>pd_mime = content_type (rq_headers req), pd_text = text, pd_encoding = encoding,
                         pd_comment = truncated_comment (rq_truncated req)\<rparr>
                  else None)
      in \<lparr>rj_method = rq_method req, rj_url = url, rj_version = rq_version req, rj_cookies = [],
          rj_headers = name_values (rq_headers req), rj_query = query, rj_post = post,
          rj_headers_size = rq_headers_size req, rj_body_size = rq_body_size req\<rparr>)"

definition resp_json_of :: "transaction \<Rightarrow> resp_json" where
  "resp_json_of txn =
     (let resp = tx_response txn;
          content =
            (if rs_body resp = [] \<and> rs_body_size resp = 0 then
               \<lparr>hc_size = 0, hc_mime = content_type (rs_headers resp), hc_text = None, hc_encoding = None,
                hc_comment = None\<rparr>
             else
               let (text, encoding) = body_text (rs_body resp)
               in \<lparr>hc_size = rs_body_size resp, hc_mime = content_type (rs_headers resp), hc_text = Some text,
                   hc_encoding = encoding, hc_comment = truncated_comment (rs_truncated resp)\<rparr>)
      in \<lparr>sj_status = rs_status resp, sj_text = rs_text resp, sj_version = rs_version resp, sj_cookies = [],
          sj_headers = name_values (rs_headers resp), sj_content = content,
          sj_redirect = (case header (rs_headers resp) (asc ''location'') of None \<Rightarrow> [] | Some v \<Rightarrow> v),
          sj_headers_size = rs_headers_size resp, sj_body_size = rs_body_size resp\<rparr>)"

definition har_entry_of :: "transaction \<Rightarrow> har_entry" where
  "har_entry_of txn =
     \<lparr>he_started = iso8601 (tx_started txn), he_time = tx_duration txn, he_request = req_json_of txn,
      he_response = resp_json_of txn, he_cache = (),
      he_timings = \<lparr>tm_send = 0, tm_wait = tx_duration txn, tm_receive = 0\<rparr>\<rparr>"

definition har_document :: "bytes \<Rightarrow> transaction list \<Rightarrow> har_log" where
  "har_document crate_version entries =
     \<lparr>hl_version = asc ''1.2'', hl_creator = (asc ''Adwarden'', crate_version),
      hl_entries = map har_entry_of entries\<rparr>"

subsection \<open>Reading a document back\<close>

definition text_bytes :: "bytes \<Rightarrow> bytes option \<Rightarrow> bytes option" where
  \<comment> \<open>the body a HAR reader sees: Base64 text when so marked, plain text otherwise\<close>
  "text_bytes text enc = (if enc = Some (asc ''base64'') then base64_decode text else Some text)"

definition entry_request_body :: "har_entry \<Rightarrow> bytes option" where
  "entry_request_body e =
     (case rj_post (he_request e) of None \<Rightarrow> Some [] | Some p \<Rightarrow> text_bytes (pd_text p) (pd_encoding p))"

definition entry_response_body :: "har_entry \<Rightarrow> bytes option" where
  "entry_response_body e =
     (case hc_text (sj_content (he_response e)) of
        None \<Rightarrow> Some [] | Some t \<Rightarrow> text_bytes t (hc_encoding (sj_content (he_response e))))"

definition entry_text_valid :: "har_entry \<Rightarrow> bool" where
  \<comment> \<open>the body texts are JSON strings: valid UTF-8\<close>
  "entry_text_valid e \<longleftrightarrow>
     (case rj_post (he_request e) of None \<Rightarrow> True | Some p \<Rightarrow> utf8_valid (pd_text p))
   \<and> (case hc_text (sj_content (he_response e)) of None \<Rightarrow> True | Some t \<Rightarrow> utf8_valid t)"

lemma body_text_back: "text_bytes (fst (body_text b)) (snd (body_text b)) = Some b"
  by (simp add: body_text_def text_bytes_def base64_roundtrip del: asc_Cons)

lemma body_text_valid: "utf8_valid (fst (body_text b))"
proof -
  have "utf8_valid (base64_encode b)"
    using base64_encode_chars[of _ b] by (intro utf8_valid_ascii) (fastforce simp: word_le_nat_alt word_less_nat_alt)
  then show ?thesis by (simp add: body_text_def)
qed

text \<open>C38: the export loses nothing of the captured messages. Entry by entry and in order, a HAR reader
  gets back the method, the status, every header with its repetitions, the response size and the exact captured body bytes of both messages, binary bodies included; and every body
  text is valid UTF-8, as a JSON string must be.\<close>

theorem har_export_lossless:
  "list_all2 (\<lambda>txn e.
       rj_method (he_request e) = rq_method (tx_request txn)
     \<and> map (\<lambda>nv. (nv_name nv, nv_value nv)) (rj_headers (he_request e)) = rq_headers (tx_request txn)
     \<and> entry_request_body e = Some (rq_body (tx_request txn))
     \<and> sj_status (he_response e) = rs_status (tx_response txn)
     \<and> map (\<lambda>nv. (nv_name nv, nv_value nv)) (sj_headers (he_response e)) = rs_headers (tx_response txn)
     \<and> entry_response_body e = Some (rs_body (tx_response txn))
     \<and> hc_size (sj_content (he_response e)) = rs_body_size (tx_response txn)
     \<and> entry_text_valid e)
     entries (hl_entries (har_document ver entries))"
proof -
  have nv: "map (\<lambda>nv. (nv_name nv, nv_value nv)) (name_values hs) = hs" for hs
    by (induction hs) (auto simp: name_values_def)
  have req: "entry_request_body (har_entry_of x) = Some (rq_body (tx_request x))" for x
    using body_text_back[of "rq_body (tx_request x)"]
    by (auto simp: entry_request_body_def har_entry_of_def req_json_of_def Let_def case_prod_unfold)
  have resp: "entry_response_body (har_entry_of x) = Some (rs_body (tx_response x))" for x
    using body_text_back[of "rs_body (tx_response x)"]
    by (auto simp: entry_response_body_def har_entry_of_def resp_json_of_def Let_def case_prod_unfold)
  have valid: "entry_text_valid (har_entry_of x)" for x
    by (auto simp: entry_text_valid_def har_entry_of_def req_json_of_def resp_json_of_def Let_def
        case_prod_unfold body_text_valid)
  have sz: "hc_size (sj_content (he_response (har_entry_of x))) = rs_body_size (tx_response x)" for x
    by (simp add: har_entry_of_def resp_json_of_def Let_def case_prod_unfold)
  show ?thesis
    unfolding har_document_def
    by (simp add: list_all2_map2 list_all2_same req resp valid sz)
      (simp add: har_entry_of_def req_json_of_def resp_json_of_def Let_def nv)
qed

end
