(* ===== verification/Rewriter.thy ===== *)
theory Rewriter
  imports Http_Head
begin

section \<open>The cosmetic HTTP rewriter\<close>

text \<open>
  \<open>rust/tls/src/rewriter.rs\<close>: the editor of the decrypted plaintext, which forces
  \<open>Accept-Encoding: identity\<close> on requests and injects a style and script blob into HTML responses.
  The struct's fields are the record's; a function with an \<open>&mut\<close> output appends to its result, so
  each step here returns the bytes it emits. A step that ends a drive loop returns \<open>False\<close>.
  The chunked decoder is that of \<open>Http_Head\<close>; its \<open>captured\<close> vector is fresh in every call.
\<close>

definition MAX_ANCHOR_SCAN :: nat where
  "MAX_ANCHOR_SCAN = 64 * 1024"

definition MARKER :: bytes where
  "MARKER = asc ''adw-cosmetic''"

datatype req_state = Rq_Head | Rq_Body nat

datatype body_kind = Bk_Length nat | Bk_Chunked chunk_state | Bk_Close

record body_scan =
  bs_head :: bytes
  bs_scan :: bytes
  bs_body :: body_kind
  bs_cl :: "nat option"
  bs_done :: bool

datatype resp_state = Rp_Head | Rp_Buffer body_scan | Rp_Stream body_kind | Rp_Pass body_kind

record rewriter =
  rw_active :: bool
  rw_blob :: bytes
  rw_disabled :: bool
  rw_req :: req_state
  rw_req_buf :: bytes
  rw_resp :: resp_state
  rw_resp_buf :: bytes
  rw_pending_head :: "bool list"

definition rw_new :: rewriter where
  "rw_new = \<lparr>rw_active = False, rw_blob = [], rw_disabled = False, rw_req = Rq_Head, rw_req_buf = [],
     rw_resp = Rp_Head, rw_resp_buf = [], rw_pending_head = []\<rparr>"

definition set_cosmetic :: "bytes \<Rightarrow> bytes \<Rightarrow> rewriter \<Rightarrow> rewriter" where
  "set_cosmetic css js w =
     (let has_css = css \<noteq> []; has_js = js \<noteq> []; w = w\<lparr>rw_active := has_css \<or> has_js\<rparr>
      in if rw_active w then
           w\<lparr>rw_blob := asc ''<!--adw-cosmetic-->''
               @ (if has_js then asc ''<script>'' @ js @ asc ''</script>'' else [])
               @ (if has_css then asc ''<style id=\"adw-cosmetic\">'' @ css @ asc ''</style>'' else [])\<rparr>
         else w)"

subsection \<open>Head editing\<close>

fun crlf_go :: "bytes \<Rightarrow> bytes \<Rightarrow> bytes list" where
  \<comment> \<open>the line being read, in order, and the rest\<close>
  "crlf_go cur (a # b # r) =
     (if a = 13 \<and> b = 10 then cur # crlf_go [] r else crlf_go (cur @ [a]) (b # r))"
| "crlf_go cur rest = (if cur @ rest = [] then [] else [cur @ rest])"

definition crlf_lines :: "bytes \<Rightarrow> bytes list" where
  "crlf_lines flds = crlf_go [] flds"

definition line_name :: "bytes \<Rightarrow> bytes" where
  "line_name line = (case position (\<lambda>b. b = 58) line of Some c \<Rightarrow> take c line | None \<Rightarrow> line)"

definition ascii_trim :: "bytes \<Rightarrow> bytes" where
  "ascii_trim s = rev (dropWhile is_ascii_whitespace (rev (dropWhile is_ascii_whitespace s)))"

definition name_is :: "bytes \<Rightarrow> bytes \<Rightarrow> bool" where
  "name_is line target = eq_ignore_case (ascii_trim (line_name line)) target"

definition is_continuation :: "bytes \<Rightarrow> bool" where
  "is_continuation line = (case line of [] \<Rightarrow> False | c # _ \<Rightarrow> c = 32 \<or> c = 9)"

definition is_csp :: "bytes \<Rightarrow> bool" where
  "is_csp line \<longleftrightarrow> name_is line (asc ''content-security-policy'')
     \<or> name_is line (asc ''content-security-policy-report-only'')
     \<or> name_is line (asc ''x-content-security-policy'')"

definition emit_line :: "bytes \<Rightarrow> bytes" where
  "emit_line line = line @ CRLF"

fun edit_request_lines :: "bool \<Rightarrow> bytes list \<Rightarrow> bytes" where
  \<comment> \<open>the lines after the first; whether the previous header was dropped\<close>
  "edit_request_lines dropped [] = []"
| "edit_request_lines dropped (line # ls) =
     (if is_continuation line then (if dropped then [] else emit_line line) @ edit_request_lines dropped ls
      else if name_is line (asc ''accept-encoding'') then edit_request_lines True ls
      else emit_line line @ edit_request_lines False ls)"

definition edit_request_head :: "bytes \<Rightarrow> bytes" where
  "edit_request_head raw_head =
     (let lines = crlf_lines (take (length raw_head - 4) raw_head)
      in (case lines of [] \<Rightarrow> [] | l # ls \<Rightarrow> emit_line l @ edit_request_lines False ls)
         @ asc ''Accept-Encoding: identity'' @ CRLF @ CRLF)"

fun edit_response_lines :: "nat option \<Rightarrow> bool \<Rightarrow> bytes list \<Rightarrow> bytes" where
  "edit_response_lines set_cl dropped [] = []"
| "edit_response_lines set_cl dropped (line # ls) =
     (if is_continuation line then (if dropped then [] else emit_line line) @ edit_response_lines set_cl dropped ls
      else if is_csp line then edit_response_lines set_cl True ls
      else case (set_cl, name_is line (asc ''content-length'')) of
        (Some n, True) \<Rightarrow>
          line_name line @ asc '': '' @ dec_str n @ CRLF @ edit_response_lines set_cl False ls
      | _ \<Rightarrow> emit_line line @ edit_response_lines set_cl False ls)"

definition edit_response_head :: "bytes \<Rightarrow> nat option \<Rightarrow> bytes" where
  "edit_response_head raw_head set_cl =
     (let lines = crlf_lines (take (length raw_head - 4) raw_head)
      in (case lines of [] \<Rightarrow> [] | l # ls \<Rightarrow> emit_line l @ edit_response_lines set_cl False ls) @ CRLF)"

subsection \<open>Anchor search\<close>

definition find_ci :: "bytes \<Rightarrow> bytes \<Rightarrow> bool \<Rightarrow> nat option" where
  "find_ci hay needle tag =
     (if needle = [] then None
      else map_option (\<lambda>i. if tag then i + length needle else i)
        (find (\<lambda>i. let matches = eq_ignore_case (take (length needle) (drop i hay)) needle;
                       lt_ok = (\<not> tag \<or> i > 0 \<and> hay ! (i - 1) = 60)
                   in matches \<and> (\<not> tag \<or> lt_ok \<and> lower_u8 (hd needle) = lower_u8 (hay ! i)))
          [0..<length hay + 1 - length needle]))"

definition is_name_end :: "u8 \<Rightarrow> bool" where
  "is_name_end c \<longleftrightarrow> c = 62 \<or> c = 32 \<or> c = 9 \<or> c = 13 \<or> c = 10 \<or> c = 12 \<or> c = 47"

lemma find_ci_bound:
  assumes "find_ci hay needle True = Some p" shows "length needle < p \<and> p \<le> length hay"
proof -
  from assms obtain i where i: "i < length hay + 1 - length needle" "0 < i" "p = i + length needle"
    by (auto simp: find_ci_def Let_def find_Some_iff split: if_splits)
  then show ?thesis by linarith
qed

function tag_start_from :: "bytes \<Rightarrow> bytes \<Rightarrow> nat \<Rightarrow> nat option" where
  "tag_start_from hay name from =
     (case find_ci (drop from hay) name True of
        None \<Rightarrow> None
      | Some rel \<Rightarrow>
          (let at = from + rel; tag_at = at - length name - 1
           in case index hay at of
                Some c \<Rightarrow> if is_name_end c then Some tag_at else tag_start_from hay name at
              | None \<Rightarrow> None))"
  by pat_completeness auto
termination
  by (relation "measure (\<lambda>(hay, _, from). length hay - from)") (auto dest!: find_ci_bound simp: index_def split: if_splits)

declare tag_start_from.simps [simp del]

definition tag_start :: "bytes \<Rightarrow> bytes \<Rightarrow> nat option" where
  "tag_start hay name = tag_start_from hay name 0"

definition tag_open_end :: "bytes \<Rightarrow> bytes \<Rightarrow> nat option" where
  "tag_open_end hay name =
     (case tag_start hay name of
        None \<Rightarrow> None
      | Some start \<Rightarrow> map_option (\<lambda>gt. start + gt + 1) (position (\<lambda>b. b = 62) (drop start hay)))"

definition doctype_end :: "bytes \<Rightarrow> nat option" where
  "doctype_end hay =
     (case find_ci hay (asc ''<!doctype'') False of
        None \<Rightarrow> None
      | Some rel \<Rightarrow> map_option (\<lambda>gt. rel + gt + 1) (position (\<lambda>b. b = 62) (drop rel hay)))"

definition anchor_streaming :: "bytes \<Rightarrow> nat option" where
  "anchor_streaming scan =
     (case (tag_open_end scan (asc ''head''), tag_start scan (asc ''body'')) of
        (Some h, Some b) \<Rightarrow> Some (if h \<le> b then h else b)
      | (Some h, None) \<Rightarrow> Some h
      | (None, Some b) \<Rightarrow> Some b
      | (None, None) \<Rightarrow> None)"

definition or_else :: "'a option \<Rightarrow> 'a option \<Rightarrow> 'a option" where
  "or_else a b = (case a of None \<Rightarrow> b | Some x \<Rightarrow> Some x)"

definition anchor_final :: "bytes \<Rightarrow> nat option" where
  "anchor_final scan =
     or_else (tag_open_end scan (asc ''head''))
       (or_else (tag_start scan (asc ''body''))
         (or_else (tag_open_end scan (asc ''html'')) (doctype_end scan)))"

definition contains :: "bytes \<Rightarrow> bytes \<Rightarrow> bool" where
  "contains hay needle \<longleftrightarrow> find_sub needle hay \<noteq> None"

subsection \<open>Which responses are edited\<close>

definition trim_quotes :: "bytes \<Rightarrow> bytes" where
  "trim_quotes s = rev (dropWhile (\<lambda>c. c = 34) (rev (dropWhile (\<lambda>c. c = 34) s)))"

definition strip_prefix :: "bytes \<Rightarrow> bytes \<Rightarrow> bytes option" where
  "strip_prefix p s = (if prefix p s then Some (drop (length p) s) else None)"

fun charset_in :: "bytes list \<Rightarrow> bytes option" where
  "charset_in [] = None"
| "charset_in (param # ps) =
     (case strip_prefix (asc ''charset'') (trim param) of
        None \<Rightarrow> charset_in ps
      | Some rest \<Rightarrow>
          (case strip_prefix [61] (trim_start rest) of
             None \<Rightarrow> charset_in ps
           | Some val \<Rightarrow> Some (trim_quotes (trim val))))"

definition charset_of :: "bytes \<Rightarrow> bytes option" where
  "charset_of ct = charset_in (tl (split_on 59 ct))"

definition injectable :: "nat \<Rightarrow> headers \<Rightarrow> bool" where
  "injectable status hs =
     (if status = 206 then False
      else
        let ct = (case header hs (asc ''content-type'') of None \<Rightarrow> [] | Some v \<Rightarrow> v);
            media = trim (hd (split_on 59 ct))
        in if \<not> eq_ignore_case media (asc ''text/html'') then False
           else if (case header hs (asc ''content-encoding'') of
                      None \<Rightarrow> False
                    | Some ce \<Rightarrow> trim ce \<noteq> [] \<and> \<not> eq_ignore_case (trim ce) (asc ''identity'')) then False
           else (case charset_of ct of
                   None \<Rightarrow> True
                 | Some charset \<Rightarrow> \<not> prefix (asc ''utf-16'') (to_lower charset)))"

definition framing_to_kind :: "framing \<Rightarrow> body_kind" where
  "framing_to_kind fr = (case fr of Fr_Length n \<Rightarrow> Bk_Length n | Fr_Chunked r \<Rightarrow> Bk_Chunked r | Fr_UntilClose \<Rightarrow> Bk_Close)"

subsection \<open>Chunked helpers\<close>

definition chunked_decode :: "chunk_state \<Rightarrow> bytes \<Rightarrow> body_step \<times> chunk_state \<times> bytes \<times> bytes" where
  \<comment> \<open>step, decoder, buffer left, decoded bytes\<close>
  "chunked_decode st buf =
     (let (step, st', buf', c) = chunk_consume st buf body_cap_new in (step, st', buf', bc_captured c))"

definition chunked_verbatim :: "chunk_state \<Rightarrow> bytes \<Rightarrow> body_step \<times> chunk_state \<times> bytes \<times> bytes" where
  \<comment> \<open>step, decoder, buffer left, consumed bytes\<close>
  "chunked_verbatim st buf =
     (let (step, st', buf', c) = chunk_consume st buf body_cap_new
      in (step, st', buf', take (length buf - length buf') buf))"

definition rechunk :: "bytes \<Rightarrow> bytes" where
  "rechunk data = (if data = [] then [] else hex_str (length data) @ CRLF @ data @ CRLF)"

definition last_chunk :: bytes where
  "last_chunk = asc ''0'' @ CRLF @ CRLF"

subsection \<open>The request side\<close>

definition disable_flush_req :: "rewriter \<Rightarrow> bytes \<times> rewriter" where
  "disable_flush_req w = (rw_req_buf w, w\<lparr>rw_disabled := True, rw_req_buf := []\<rparr>)"

definition route_request :: "bytes \<Rightarrow> bytes \<Rightarrow> headers \<Rightarrow> rewriter \<Rightarrow> bytes \<times> rewriter \<times> bool" where
  \<comment> \<open>a head that no longer lies in the buffer\<close>
  "route_request raw_head meth hs w =
     (let edited = edit_request_head raw_head;
          w1 = w\<lparr>rw_pending_head := rw_pending_head w @ [eq_ignore_case meth (asc ''HEAD'')]\<rparr>
      in case request_framing hs of
           None \<Rightarrow> (edited, w1\<lparr>rw_req := Rq_Head\<rparr>, True)
         | Some (Fr_Length n) \<Rightarrow> (edited, w1\<lparr>rw_req := Rq_Body n\<rparr>, True)
         | Some _ \<Rightarrow> (let (o1, w2) = disable_flush_req w1 in (edited @ o1, w2, False)))"

definition rw_req_step :: "rewriter \<Rightarrow> bytes \<times> rewriter \<times> bool" where
  \<comment> \<open>one iteration of \<open>drive_request\<close>: emitted bytes, state, whether the loop goes on\<close>
  "rw_req_step w =
     (case rw_req w of
        Rq_Head \<Rightarrow>
          (case find_header_end (rw_req_buf w) of
             None \<Rightarrow>
               if length (rw_req_buf w) > MAX_HEADER_BYTES
               then (let (o1, w') = disable_flush_req w in (o1, w', False))
               else ([], w, False)
           | Some e \<Rightarrow>
               (case parse_head_fields (take (e - 4) (rw_req_buf w)) of
                  None \<Rightarrow> (let (o1, w') = disable_flush_req w in (o1, w', False))
                | Some (start_line, hs) \<Rightarrow>
                    (case parse_request_line start_line of
                       None \<Rightarrow> (let (o1, w') = disable_flush_req w in (o1, w', False))
                     | Some (meth, _, _) \<Rightarrow>
                         route_request (take e (rw_req_buf w)) meth hs (w\<lparr>rw_req_buf := drop e (rw_req_buf w)\<rparr>))))
      | Rq_Body remaining \<Rightarrow>
          (let n = min remaining (length (rw_req_buf w));
               o1 = take n (rw_req_buf w);
               w1 = w\<lparr>rw_req_buf := drop n (rw_req_buf w)\<rparr>;
               remaining' = remaining - n
           in if remaining' = 0 then (o1, w1\<lparr>rw_req := Rq_Head\<rparr>, True)
              else (o1, w1\<lparr>rw_req := Rq_Body remaining'\<rparr>, False)))"

lemma route_request_goes_on: "route_request raw meth hs w = (out, w', True) \<Longrightarrow> rw_req_buf w' = rw_req_buf w"
  by (auto simp: route_request_def disable_flush_req_def Let_def split: option.split_asm framing.split_asm)

lemma find_header_end_bound: "find_header_end buf = Some e \<Longrightarrow> 4 \<le> e \<and> e \<le> length buf"
  by (auto simp: find_header_end_def dest: find_sub_bound)

lemma rw_req_step_goes_on:
  assumes "rw_req_step w = (out, w', True)"
  shows "length (rw_req_buf w') < length (rw_req_buf w)
     \<or> length (rw_req_buf w') \<le> length (rw_req_buf w) \<and> rw_req w' = Rq_Head \<and> rw_req w \<noteq> Rq_Head"
proof (cases "rw_req w")
  case Rq_Head
  with assms show ?thesis
    by (auto simp: rw_req_step_def disable_flush_req_def
        split: option.split_asm if_split_asm prod.split_asm dest!: route_request_goes_on find_header_end_bound)
next
  case (Rq_Body n)
  with assms show ?thesis by (auto simp: rw_req_step_def Let_def split: if_split_asm)
qed

function drive_request :: "rewriter \<Rightarrow> bytes \<times> rewriter" where
  "drive_request w =
     (case rw_req_step w of (o1, w', go) \<Rightarrow>
        if go then (let (o2, w'') = drive_request w' in (o1 @ o2, w'')) else (o1, w'))"
  by pat_completeness auto
termination
  by (relation "measures [\<lambda>w. length (rw_req_buf w), \<lambda>w. if rw_req w = Rq_Head then 0 else 1]")
    (auto dest!: rw_req_step_goes_on[OF sym])

declare drive_request.simps [simp del]

definition rw_feed_request :: "bytes \<Rightarrow> rewriter \<Rightarrow> bytes \<times> rewriter" where
  "rw_feed_request data w =
     (if \<not> rw_active w \<or> rw_disabled w then (rw_req_buf w @ data, w\<lparr>rw_req_buf := []\<rparr>)
      else drive_request (w\<lparr>rw_req_buf := rw_req_buf w @ data\<rparr>))"

subsection \<open>The response side\<close>

definition disable_flush_resp :: "rewriter \<Rightarrow> bytes \<times> rewriter" where
  "disable_flush_resp w = (rw_resp_buf w, w\<lparr>rw_disabled := True, rw_resp_buf := []\<rparr>)"

definition route_response :: "bytes \<Rightarrow> nat \<Rightarrow> headers \<Rightarrow> rewriter \<Rightarrow> bytes \<times> rewriter \<times> bool" where
  \<comment> \<open>a head that no longer lies in the buffer\<close>
  "route_response raw_head status hs w =
     (if 100 \<le> status \<and> status \<le> 199 \<and> status \<noteq> 101 then (raw_head, w\<lparr>rw_resp := Rp_Head\<rparr>, True)
      else
        let method_is_head = (case rw_pending_head w of [] \<Rightarrow> False | b # _ \<Rightarrow> b);
            w2 = w\<lparr>rw_pending_head := tl (rw_pending_head w)\<rparr>
        in if status = 101 then (let (o1, w3) = disable_flush_resp w2 in (raw_head @ o1, w3, False))
           else
             (case response_framing status method_is_head hs of
                None \<Rightarrow> (raw_head, w2\<lparr>rw_resp := Rp_Head\<rparr>, True)
              | Some fr \<Rightarrow>
                  if injectable status hs
                  then ([], w2\<lparr>rw_resp := Rp_Buffer
                    \<lparr>bs_head = raw_head, bs_scan = [], bs_body = framing_to_kind fr,
                     bs_cl = content_length hs, bs_done = False\<rparr>\<rparr>, True)
                  else (raw_head, w2\<lparr>rw_resp := Rp_Pass (framing_to_kind fr)\<rparr>, True)))"

definition step_response_head :: "rewriter \<Rightarrow> bytes \<times> rewriter \<times> bool" where
  "step_response_head w =
     (case find_header_end (rw_resp_buf w) of
        None \<Rightarrow>
          if length (rw_resp_buf w) > MAX_HEADER_BYTES
          then (let (o1, w') = disable_flush_resp w in (o1, w', False))
          else ([], w, False)
      | Some e \<Rightarrow>
          (case parse_head_fields (take (e - 4) (rw_resp_buf w)) of
             None \<Rightarrow> (let (o1, w') = disable_flush_resp w in (o1, w', False))
           | Some (start_line, hs) \<Rightarrow>
               (case parse_status_line start_line of
                  None \<Rightarrow> (let (o1, w') = disable_flush_resp w in (o1, w', False))
                | Some (_, status, _) \<Rightarrow>
                    route_response (take e (rw_resp_buf w)) status hs (w\<lparr>rw_resp_buf := drop e (rw_resp_buf w)\<rparr>))))"

definition pull_body :: "body_scan \<Rightarrow> bytes \<Rightarrow> (body_scan + bytes) \<times> bytes" where
  \<comment> \<open>what is available goes into the scan buffer; malformed chunking gives the bytes read so far\<close>
  "pull_body bs buf =
     (case bs_body bs of
        Bk_Length remaining \<Rightarrow>
          (let n = min remaining (length buf); remaining' = remaining - n
           in (Inl (bs\<lparr>bs_scan := bs_scan bs @ take n buf, bs_body := Bk_Length remaining',
                 bs_done := (remaining' = 0 \<or> bs_done bs)\<rparr>), drop n buf))
      | Bk_Chunked reader \<Rightarrow>
          (let (step, reader', buf', decoded) = chunked_decode reader buf
           in case step of
                Body_Error \<Rightarrow> (Inr (bs_scan bs @ decoded), buf')
              | _ \<Rightarrow> (Inl (bs\<lparr>bs_scan := bs_scan bs @ decoded, bs_body := Bk_Chunked reader',
                        bs_done := (step = Body_Done \<or> bs_done bs)\<rparr>), buf'))
      | Bk_Close \<Rightarrow> (Inl (bs\<lparr>bs_scan := bs_scan bs @ buf\<rparr>), []))"

definition choose_anchor :: "body_scan \<Rightarrow> nat option option" where
  \<comment> \<open>\<open>None\<close>: keep buffering\<close>
  "choose_anchor bs =
     (let bom16 = prefix [0xFF, 0xFE] (bs_scan bs) \<or> prefix [0xFE, 0xFF] (bs_scan bs);
          already = contains (bs_scan bs) MARKER
      in if bom16 \<or> already then Some None
         else case anchor_streaming (bs_scan bs) of
                Some a \<Rightarrow> Some (Some a)
              | None \<Rightarrow>
                  if bs_done bs \<or> length (bs_scan bs) \<ge> MAX_ANCHOR_SCAN then Some (anchor_final (bs_scan bs))
                  else None)"

definition is_chunked_kind :: "body_kind \<Rightarrow> bool" where
  "is_chunked_kind k = (case k of Bk_Chunked _ \<Rightarrow> True | _ \<Rightarrow> False)"

definition emit_scan :: "bytes \<Rightarrow> body_scan \<Rightarrow> nat option \<Rightarrow> bytes" where
  \<comment> \<open>the head, edited on injection, and the buffered prefix with the blob; \<open>usize\<close> addition wraps\<close>
  "emit_scan blob bs anchor =
     (case anchor of
        Some a \<Rightarrow>
          (let new_cl = map_option (\<lambda>cl. (cl + length blob) mod 2 ^ 64) (bs_cl bs);
               body = take a (bs_scan bs) @ blob @ drop a (bs_scan bs)
           in edit_response_head (bs_head bs) new_cl @ (if is_chunked_kind (bs_body bs) then rechunk body else body))
      | None \<Rightarrow> bs_head bs @ (if is_chunked_kind (bs_body bs) then rechunk (bs_scan bs) else bs_scan bs))"

definition continue_body :: "body_scan \<Rightarrow> rewriter \<Rightarrow> bytes \<times> rewriter" where
  \<comment> \<open>the remaining body is streamed, or the message is finished\<close>
  "continue_body bs w =
     (case bs_body bs of
        Bk_Length remaining \<Rightarrow>
          ([], w\<lparr>rw_resp := (if remaining = 0 then Rp_Head else Rp_Stream (Bk_Length remaining))\<rparr>)
      | Bk_Chunked reader \<Rightarrow>
          if bs_done bs then (last_chunk, w\<lparr>rw_resp := Rp_Head\<rparr>)
          else ([], w\<lparr>rw_resp := Rp_Stream (Bk_Chunked reader)\<rparr>)
      | Bk_Close \<Rightarrow> ([], w\<lparr>rw_resp := Rp_Stream Bk_Close\<rparr>))"

definition step_response_buffer :: "body_scan \<Rightarrow> rewriter \<Rightarrow> bytes \<times> rewriter \<times> bool" where
  "step_response_buffer bs w =
     (case pull_body bs (rw_resp_buf w) of
        (Inr scan, buf') \<Rightarrow>
          (bs_head bs @ rechunk scan @ last_chunk, w\<lparr>rw_resp := Rp_Head, rw_resp_buf := buf', rw_disabled := True\<rparr>, False)
      | (Inl bs', buf') \<Rightarrow>
          (case choose_anchor bs' of
             None \<Rightarrow> ([], w\<lparr>rw_resp_buf := buf', rw_resp := Rp_Buffer bs'\<rparr>, False)
           | Some anchor \<Rightarrow>
               (let (o2, w2) = continue_body bs' (w\<lparr>rw_resp_buf := buf'\<rparr>)
                in (emit_scan (rw_blob w) bs' anchor @ o2, w2, True))))"

definition step_response_stream :: "body_kind \<Rightarrow> rewriter \<Rightarrow> bytes \<times> rewriter \<times> bool" where
  "step_response_stream kind w =
     (case kind of
        Bk_Length remaining \<Rightarrow>
          (let n = min remaining (length (rw_resp_buf w)); remaining' = remaining - n;
               w1 = w\<lparr>rw_resp_buf := drop n (rw_resp_buf w)\<rparr>
           in if remaining' = 0 then (take n (rw_resp_buf w), w1\<lparr>rw_resp := Rp_Head\<rparr>, True)
              else (take n (rw_resp_buf w), w1\<lparr>rw_resp := Rp_Stream (Bk_Length remaining')\<rparr>, False))
      | Bk_Chunked reader \<Rightarrow>
          (let (step, reader', buf', decoded) = chunked_decode reader (rw_resp_buf w);
               w1 = w\<lparr>rw_resp_buf := buf'\<rparr>
           in case step of
                Body_NeedMore \<Rightarrow> (rechunk decoded, w1\<lparr>rw_resp := Rp_Stream (Bk_Chunked reader')\<rparr>, False)
              | Body_Done \<Rightarrow> (rechunk decoded @ last_chunk, w1\<lparr>rw_resp := Rp_Head\<rparr>, True)
              | Body_Error \<Rightarrow> (rechunk decoded @ last_chunk, w1\<lparr>rw_resp := Rp_Head, rw_disabled := True\<rparr>, False))
      | Bk_Close \<Rightarrow> (rw_resp_buf w, w\<lparr>rw_resp_buf := [], rw_resp := Rp_Stream Bk_Close\<rparr>, False))"

definition step_response_pass :: "body_kind \<Rightarrow> rewriter \<Rightarrow> bytes \<times> rewriter \<times> bool" where
  "step_response_pass kind w =
     (case kind of
        Bk_Length remaining \<Rightarrow>
          (let n = min remaining (length (rw_resp_buf w)); remaining' = remaining - n;
               w1 = w\<lparr>rw_resp_buf := drop n (rw_resp_buf w)\<rparr>
           in if remaining' = 0 then (take n (rw_resp_buf w), w1\<lparr>rw_resp := Rp_Head\<rparr>, True)
              else (take n (rw_resp_buf w), w1\<lparr>rw_resp := Rp_Pass (Bk_Length remaining')\<rparr>, False))
      | Bk_Chunked reader \<Rightarrow>
          (let (step, reader', buf', eaten) = chunked_verbatim reader (rw_resp_buf w);
               w1 = w\<lparr>rw_resp_buf := buf'\<rparr>
           in case step of
                Body_NeedMore \<Rightarrow> (eaten, w1\<lparr>rw_resp := Rp_Pass (Bk_Chunked reader')\<rparr>, False)
              | Body_Done \<Rightarrow> (eaten, w1\<lparr>rw_resp := Rp_Head\<rparr>, True)
              | Body_Error \<Rightarrow>
                  (let (o1, w2) = disable_flush_resp (w1\<lparr>rw_resp := Rp_Head\<rparr>) in (eaten @ o1, w2, False)))
      | Bk_Close \<Rightarrow> (rw_resp_buf w, w\<lparr>rw_resp_buf := [], rw_resp := Rp_Pass Bk_Close\<rparr>, False))"

definition rw_resp_step :: "rewriter \<Rightarrow> bytes \<times> rewriter \<times> bool" where
  \<comment> \<open>one iteration of \<open>drive_response\<close>; the state is replaced by \<open>Head\<close> before it is handled\<close>
  "rw_resp_step w =
     (let w0 = w\<lparr>rw_resp := Rp_Head\<rparr>
      in case rw_resp w of
           Rp_Head \<Rightarrow> step_response_head w0
         | Rp_Buffer bs \<Rightarrow> step_response_buffer bs w0
         | Rp_Stream kind \<Rightarrow> step_response_stream kind w0
         | Rp_Pass kind \<Rightarrow> step_response_pass kind w0)"

definition resp_rank :: "rewriter \<Rightarrow> nat" where
  "resp_rank w = (case rw_resp w of Rp_Head \<Rightarrow> 0 | Rp_Buffer _ \<Rightarrow> 2 | _ \<Rightarrow> 1)"

lemma route_response_goes_on: "route_response raw status hs w = (out, w', True) \<Longrightarrow> rw_resp_buf w' = rw_resp_buf w"
  by (auto simp: route_response_def disable_flush_resp_def Let_def split: if_split_asm option.split_asm)

lemma step_response_head_goes_on:
  "step_response_head w = (out, w', True) \<Longrightarrow> length (rw_resp_buf w') < length (rw_resp_buf w)"
  by (auto simp: step_response_head_def disable_flush_resp_def split: option.split_asm if_split_asm prod.split_asm
      dest!: route_response_goes_on find_header_end_bound)

lemma chunked_decode_shrinks: "chunked_decode st buf = (step, st', buf', d) \<Longrightarrow> length buf' \<le> length buf"
  by (auto simp: chunked_decode_def dest: chunk_consume_shrinks split: prod.splits)

lemma chunked_verbatim_conserves:
  "chunked_verbatim st buf = (step, st', buf', d) \<Longrightarrow> length buf' \<le> length buf"
  by (auto simp: chunked_verbatim_def dest: chunk_consume_shrinks split: prod.splits)

lemma pull_body_shrinks: "pull_body bs buf = (r, buf') \<Longrightarrow> length buf' \<le> length buf"
  by (auto simp: pull_body_def Let_def dest: chunked_decode_shrinks
      split: body_kind.splits prod.splits body_step.splits)

lemma continue_body_facts:
  "continue_body bs w = (out, w') \<Longrightarrow> rw_resp_buf w' = rw_resp_buf w \<and> resp_rank w' \<le> 1"
  by (auto simp: continue_body_def resp_rank_def split: body_kind.splits if_splits)

lemma step_response_buffer_goes_on:
  assumes "step_response_buffer bs w = (out, w', True)"
  shows "length (rw_resp_buf w') \<le> length (rw_resp_buf w) \<and> resp_rank w' \<le> 1"
  using assms by (auto simp: step_response_buffer_def dest!: pull_body_shrinks continue_body_facts
      split: prod.split_asm sum.split_asm option.split_asm)

lemma step_response_stream_goes_on:
  "step_response_stream k w = (out, w', True) \<Longrightarrow> length (rw_resp_buf w') \<le> length (rw_resp_buf w) \<and> rw_resp w' = Rp_Head"
  by (auto simp: step_response_stream_def Let_def dest: chunked_decode_shrinks
      split: body_kind.splits prod.splits body_step.splits if_splits)

lemma step_response_pass_goes_on:
  "step_response_pass k w = (out, w', True) \<Longrightarrow> length (rw_resp_buf w') \<le> length (rw_resp_buf w) \<and> rw_resp w' = Rp_Head"
  by (auto simp: step_response_pass_def Let_def disable_flush_resp_def dest: chunked_verbatim_conserves
      split: body_kind.splits prod.splits body_step.splits if_splits)

lemma rw_resp_step_goes_on:
  assumes "rw_resp_step w = (out, w', True)"
  shows "length (rw_resp_buf w') < length (rw_resp_buf w)
     \<or> length (rw_resp_buf w') \<le> length (rw_resp_buf w) \<and> resp_rank w' < resp_rank w"
proof (cases "rw_resp w")
  case Rp_Head
  with assms step_response_head_goes_on show ?thesis by (fastforce simp: rw_resp_step_def)
next
  case (Rp_Buffer bs)
  with assms step_response_buffer_goes_on[of bs "w\<lparr>rw_resp := Rp_Head\<rparr>" out w'] show ?thesis
    by (auto simp: rw_resp_step_def resp_rank_def[of w])
next
  case (Rp_Stream k)
  with assms step_response_stream_goes_on[of k "w\<lparr>rw_resp := Rp_Head\<rparr>" out w'] show ?thesis
    by (auto simp: rw_resp_step_def resp_rank_def)
next
  case (Rp_Pass k)
  with assms step_response_pass_goes_on[of k "w\<lparr>rw_resp := Rp_Head\<rparr>" out w'] show ?thesis
    by (auto simp: rw_resp_step_def resp_rank_def)
qed

function drive_response :: "rewriter \<Rightarrow> bytes \<times> rewriter" where
  "drive_response w =
     (case rw_resp_step w of (o1, w', go) \<Rightarrow>
        if go then (let (o2, w'') = drive_response w' in (o1 @ o2, w'')) else (o1, w'))"
  by pat_completeness auto
termination
  by (relation "measures [\<lambda>w. length (rw_resp_buf w), resp_rank]") (auto dest!: rw_resp_step_goes_on[OF sym])

declare drive_response.simps [simp del]

definition rw_feed_response :: "bytes \<Rightarrow> rewriter \<Rightarrow> bytes \<times> rewriter" where
  "rw_feed_response data w =
     (if \<not> rw_active w \<or> rw_disabled w then (rw_resp_buf w @ data, w\<lparr>rw_resp_buf := []\<rparr>)
      else drive_response (w\<lparr>rw_resp_buf := rw_resp_buf w @ data\<rparr>))"

subsection \<open>Requests: only heads are edited\<close>

datatype piece = Verbatim bytes | Head_edited bytes

fun piece_in :: "piece \<Rightarrow> bytes" where
  "piece_in (Verbatim b) = b" | "piece_in (Head_edited h) = h"

fun piece_out :: "piece \<Rightarrow> bytes" where
  "piece_out (Verbatim b) = b" | "piece_out (Head_edited h) = edit_request_head h"

fun piece_ok :: "piece \<Rightarrow> bool" where
  "piece_ok (Verbatim b) = True" | "piece_ok (Head_edited h) = (find_header_end h = Some (length h))"

definition conserves :: "bytes \<Rightarrow> bytes \<Rightarrow> bool" where
  "conserves inp out \<longleftrightarrow>
     (\<exists>ps. inp = concat (map piece_in ps) \<and> out = concat (map piece_out ps) \<and> list_all piece_ok ps)"

lemma conserves_refl [simp]: "conserves b b"
  unfolding conserves_def by (intro exI[of _ "[Verbatim b]"]) simp

lemma conserves_head: "find_header_end h = Some (length h) \<Longrightarrow> conserves h (edit_request_head h)"
  unfolding conserves_def by (intro exI[of _ "[Head_edited h]"]) simp

lemma conserves_append:
  assumes "conserves a x" "conserves b y" shows "conserves (a @ b) (x @ y)"
proof -
  from assms obtain ps qs where
    "a = concat (map piece_in ps)" "x = concat (map piece_out ps)" "list_all piece_ok ps"
    "b = concat (map piece_in qs)" "y = concat (map piece_out qs)" "list_all piece_ok qs"
    unfolding conserves_def by blast
  then show ?thesis unfolding conserves_def by (intro exI[of _ "ps @ qs"]) simp
qed

lemma find_sub_take: "pat \<noteq> [] \<Longrightarrow> find_sub pat buf = Some p \<Longrightarrow> find_sub pat (take (p + length pat) buf) = Some p"
proof (induction pat buf arbitrary: p rule: find_sub.induct)
  case (2 pat x xs)
  show ?case
  proof (cases "prefix pat (x # xs)")
    case True
    with 2 have "p = 0" by simp
    with True 2 have "take (p + length pat) (x # xs) = pat" by (auto simp: prefix_def)
    with \<open>p = 0\<close> \<open>pat \<noteq> []\<close> show ?thesis by (cases pat) auto
  next
    case False
    with 2 obtain q where q: "p = Suc q" "find_sub pat xs = Some q" by auto
    have "\<not> prefix pat (x # take (q + length pat) xs)"
      using False by (metis prefix_order.trans take_Suc_Cons take_is_prefix)
    with q 2(1)[OF False \<open>pat \<noteq> []\<close> q(2)] show ?thesis by simp
  qed
qed simp

lemma find_header_end_take: "find_header_end buf = Some e \<Longrightarrow> find_header_end (take e buf) = Some e"
  using find_sub_take[of "[13, 10, 13, 10]" buf] by (auto simp: find_header_end_def eval_nat_numeral)

lemma route_request_conserves:
  assumes "route_request raw meth hs w = (out, w', go)" and "find_header_end raw = Some (length raw)"
  shows "\<exists>c. raw @ rw_req_buf w = c @ rw_req_buf w' \<and> conserves c out"
proof -
  note h = conserves_head[OF assms(2)]
  from assms(1) consider "out = edit_request_head raw" "rw_req_buf w' = rw_req_buf w"
    | "out = edit_request_head raw @ rw_req_buf w" "rw_req_buf w' = []"
    by (auto simp: route_request_def disable_flush_req_def Let_def split: option.split_asm framing.split_asm)
  then show ?thesis
  proof cases
    case 1
    with h show ?thesis by auto
  next
    case 2
    with conserves_append[OF h conserves_refl] show ?thesis by auto
  qed
qed

lemma rw_req_step_conserves:
  assumes "rw_req_step w = (out, w', go)"
  shows "\<exists>c. rw_req_buf w = c @ rw_req_buf w' \<and> conserves c out"
proof (cases "rw_req w")
  case (Rq_Body n)
  let ?k = "min n (length (rw_req_buf w))"
  from assms Rq_Body have "out = take ?k (rw_req_buf w)" "rw_req_buf w' = drop ?k (rw_req_buf w)"
    by (auto simp: rw_req_step_def Let_def split: if_split_asm)
  then show ?thesis by (intro exI[of _ "take ?k (rw_req_buf w)"]) simp
next
  case Rq_Head
  show ?thesis
  proof (cases "\<exists>e start hs meth r. find_header_end (rw_req_buf w) = Some e
      \<and> parse_head_fields (take (e - 4) (rw_req_buf w)) = Some (start, hs) \<and> parse_request_line start = Some (meth, r)")
    case True
    then obtain e start hs meth r where e: "find_header_end (rw_req_buf w) = Some e"
      "parse_head_fields (take (e - 4) (rw_req_buf w)) = Some (start, hs)" "parse_request_line start = Some (meth, r)"
      by blast
    then have step: "route_request (take e (rw_req_buf w)) meth hs (w\<lparr>rw_req_buf := drop e (rw_req_buf w)\<rparr>) = (out, w', go)"
      using assms Rq_Head by (simp add: rw_req_step_def case_prod_unfold)
    have "find_header_end (take e (rw_req_buf w)) = Some (length (take e (rw_req_buf w)))"
      using find_header_end_take[OF e(1)] find_header_end_bound[OF e(1)] by simp
    from route_request_conserves[OF step this] show ?thesis by simp
  next
    case False
    with assms Rq_Head have "out = rw_req_buf w \<and> rw_req_buf w' = [] \<or> out = [] \<and> w' = w"
      by (auto simp: rw_req_step_def disable_flush_req_def split: option.split_asm if_split_asm prod.split_asm)
    then show ?thesis by auto
  qed
qed

lemma drive_request_conserves:
  "drive_request w = (out, w') \<Longrightarrow> \<exists>c. rw_req_buf w = c @ rw_req_buf w' \<and> conserves c out"
proof (induction w arbitrary: out w' rule: drive_request.induct)
  case (1 w)
  obtain o1 w1 go where s: "rw_req_step w = (o1, w1, go)" by (metis prod_cases3)
  from rw_req_step_conserves[OF s] obtain c where c: "rw_req_buf w = c @ rw_req_buf w1" "conserves c o1" by blast
  show ?case
  proof (cases go)
    case False
    with "1.prems" s c show ?thesis by (auto simp: drive_request.simps[of w])
  next
    case True
    obtain o2 w2 where d: "drive_request w1 = (o2, w2)" by force
    with "1.prems" s True have eq: "out = o1 @ o2" "w' = w2" by (simp_all add: drive_request.simps[of w])
    from "1.IH"[OF s[symmetric] refl True d] obtain c2 where "rw_req_buf w1 = c2 @ rw_req_buf w2" "conserves c2 o2" by blast
    with c eq conserves_append[OF c(2)] show ?thesis by auto
  qed
qed

lemma feed_request_conserves:
  "rw_feed_request data w = (out, w') \<Longrightarrow> \<exists>c. rw_req_buf w @ data = c @ rw_req_buf w' \<and> conserves c out"
  using drive_request_conserves[of "w\<lparr>rw_req_buf := rw_req_buf w @ data\<rparr>" out w']
  by (auto simp: rw_feed_request_def split: if_splits)

fun rw_requests :: "bytes list \<Rightarrow> rewriter \<Rightarrow> bytes \<times> rewriter" where
  "rw_requests [] w = ([], w)"
| "rw_requests (d # ds) w =
     (let (o1, w1) = rw_feed_request d w; (o2, w2) = rw_requests ds w1 in (o1 @ o2, w2))"

lemma rw_requests_conserve:
  "rw_requests reads w = (out, w') \<Longrightarrow> \<exists>c. rw_req_buf w @ concat reads = c @ rw_req_buf w' \<and> conserves c out"
proof (induction reads arbitrary: w out)
  case Nil
  then show ?case by simp
next
  case (Cons d ds)
  obtain o1 w1 where s: "rw_feed_request d w = (o1, w1)" by force
  obtain o2 where r: "rw_requests ds w1 = (o2, w')" "out = o1 @ o2"
    using Cons.prems s by (auto simp: Let_def split: prod.splits)
  from feed_request_conserves[OF s] obtain c1 where c1: "rw_req_buf w @ d = c1 @ rw_req_buf w1" "conserves c1 o1" by blast
  from Cons.IH[OF r(1)] obtain c2 where c2: "rw_req_buf w1 @ concat ds = c2 @ rw_req_buf w'" "conserves c2 o2" by blast
  have "rw_req_buf w @ concat (d # ds) = (c1 @ c2) @ rw_req_buf w'"
    using c1(1) c2(1) by (simp flip: append_assoc) (simp)
  with conserves_append[OF c1(2) c2(2)] r(2) show ?case by blast
qed


subsection \<open>What the head editor does\<close>

fun crlf_free :: "bytes \<Rightarrow> bool" where
  "crlf_free (a # b # r) = (\<not> (a = 13 \<and> b = 10) \<and> crlf_free (b # r))"
| "crlf_free _ = True"

lemma crlf_free_snoc: "crlf_free (xs @ [a]) \<Longrightarrow> \<not> (a = 13 \<and> b = 10) \<Longrightarrow> crlf_free (xs @ [a, b])"
  by (induction xs rule: crlf_free.induct) auto

lemma crlf_go_free:
  "crlf_free cur \<Longrightarrow> (rest \<noteq> [] \<Longrightarrow> crlf_free (cur @ [hd rest])) \<Longrightarrow> l \<in> set (crlf_go cur rest) \<Longrightarrow> crlf_free l"
proof (induction cur rest rule: crlf_go.induct)
  case (1 cur a b r)
  show ?case
  proof (cases "a = 13 \<and> b = 10")
    case True
    with 1 show ?thesis by (auto split: if_splits)
  next
    case False
    have "crlf_free (cur @ [a])" using "1.prems"(2) by simp
    with False crlf_free_snoc have "crlf_free (cur @ [a, b])" by blast
    with False 1 \<open>crlf_free (cur @ [a])\<close> show ?thesis by auto
  qed
qed (auto split: if_splits)

lemma crlf_lines_free: "l \<in> set (crlf_lines b) \<Longrightarrow> crlf_free l"
  using crlf_go_free[of "[]" b l] by (simp add: crlf_lines_def)

lemma crlf_go_line: "crlf_free l \<Longrightarrow> crlf_go cur (l @ 13 # 10 # r) = (cur @ l) # crlf_go [] r"
  by (induction l arbitrary: cur rule: crlf_free.induct) auto

lemma crlf_go_last: "crlf_free l \<Longrightarrow> cur @ l \<noteq> [] \<Longrightarrow> crlf_go cur l = [cur @ l]"
  by (induction l arbitrary: cur rule: crlf_free.induct) auto

lemma crlf_lines_join:
  "list_all crlf_free ls \<Longrightarrow> crlf_free l \<Longrightarrow> l \<noteq> [] \<Longrightarrow>
   crlf_lines (concat (map emit_line ls) @ l) = ls @ [l]"
  by (induction ls) (auto simp: crlf_lines_def emit_line_def CRLF_def crlf_go_line crlf_go_last)

fun keep_lines :: "bool \<Rightarrow> bytes list \<Rightarrow> bytes list" where
  "keep_lines dropped [] = []"
| "keep_lines dropped (line # ls) =
     (if is_continuation line then (if dropped then [] else [line]) @ keep_lines dropped ls
      else if name_is line (asc ''accept-encoding'') then keep_lines True ls
      else line # keep_lines False ls)"

lemma edit_request_lines_keep: "edit_request_lines d ls = concat (map emit_line (keep_lines d ls))"
  by (induction d ls rule: keep_lines.induct) auto

lemma keep_lines_subseq: "subseq (keep_lines d ls) ls"
  by (induction ls arbitrary: d) (auto intro: subseq_Cons2 list_emb_Cons simp del: asc_Cons)

lemma keep_lines_set: "set (keep_lines d ls) \<subseteq> set ls"
  by (induction ls arbitrary: d) (fastforce split: if_splits simp del: asc_Cons)+

lemma keep_lines_names:
  "\<forall>l\<in>set (keep_lines d ls). is_continuation l \<or> \<not> name_is l (asc ''accept-encoding'')"
  by (induction d ls rule: keep_lines.induct) auto

lemma keep_lines_others:
  "filter (\<lambda>l. \<not> is_continuation l) (keep_lines d ls)
     = filter (\<lambda>l. \<not> is_continuation l \<and> \<not> name_is l (asc ''accept-encoding'')) ls"
  by (induction d ls rule: keep_lines.induct) (auto simp del: asc_Cons)

definition identity_line :: bytes where
  "identity_line = asc ''Accept-Encoding: identity''"

lemma identity_line_facts: "crlf_free identity_line" "identity_line \<noteq> []" "name_is identity_line (asc ''accept-encoding'')"
  "\<not> is_continuation identity_line"
  by code_simp+

text \<open>The edited request head asks for the identity coding and is otherwise the head it was. Its
  lines are the lines received, in order, less every \<open>Accept-Encoding\<close> header and its continuation
  lines, plus one: \<open>Accept-Encoding: identity\<close> is its only header of that name.\<close>

theorem edit_request_head_exact:
  assumes "crlf_lines (take (length raw - 4) raw) = request_line # hdrs"
  shows "\<exists>kept.
      crlf_lines (take (length (edit_request_head raw) - 4) (edit_request_head raw)) = request_line # kept @ [identity_line]
    \<and> drop (length (edit_request_head raw) - 4) (edit_request_head raw) = [13, 10, 13, 10]
    \<and> subseq kept hdrs
    \<and> filter (\<lambda>l. \<not> is_continuation l) kept
        = filter (\<lambda>l. \<not> is_continuation l \<and> \<not> name_is l (asc ''accept-encoding'')) hdrs
    \<and> filter (\<lambda>l. \<not> is_continuation l \<and> name_is l (asc ''accept-encoding'')) (kept @ [identity_line]) = [identity_line]"
proof -
  let ?k = "keep_lines False hdrs"
  let ?body = "concat (map emit_line (request_line # ?k)) @ identity_line"
  have out: "edit_request_head raw = ?body @ [13, 10, 13, 10]"
    using assms by (simp add: edit_request_head_def edit_request_lines_keep identity_line_def CRLF_def)
  have "list_all crlf_free (request_line # hdrs)"
    using assms crlf_lines_free by (metis list_all_iff)
  then have "list_all crlf_free (request_line # ?k)"
    using keep_lines_set by (auto simp: list_all_iff)
  from crlf_lines_join[OF this identity_line_facts(1,2)]
  have "crlf_lines ?body = request_line # ?k @ [identity_line]" by simp
  with out keep_lines_subseq[of False hdrs] keep_lines_others[of False hdrs] keep_lines_names[of False hdrs] identity_line_facts
  show ?thesis by (intro exI[of _ ?k]) (auto simp: filter_empty_conv)
qed

lemma edit_request_head_exact_witness:
  "\<exists>kept.
      crlf_lines (take (length (edit_request_head (asc ''GET / HTTP/1.1'' @ CRLF @ asc ''accept-encoding: br'' @ CRLF @ asc ''A: b'' @ CRLF @ CRLF)) - 4)
        (edit_request_head (asc ''GET / HTTP/1.1'' @ CRLF @ asc ''accept-encoding: br'' @ CRLF @ asc ''A: b'' @ CRLF @ CRLF)))
        = asc ''GET / HTTP/1.1'' # kept @ [identity_line]
    \<and> subseq kept [asc ''accept-encoding: br'', asc ''A: b'']"
proof -
  let ?raw = "asc ''GET / HTTP/1.1'' @ CRLF @ asc ''accept-encoding: br'' @ CRLF @ asc ''A: b'' @ CRLF @ CRLF"
  have "crlf_lines (take (length ?raw - 4) ?raw) = asc ''GET / HTTP/1.1'' # [asc ''accept-encoding: br'', asc ''A: b'']"
    by code_simp
  from edit_request_head_exact[OF this] show ?thesis by blast
qed

subsection \<open>Responses that are not edited\<close>

definition head_read :: "rewriter \<Rightarrow> (nat \<times> headers) list" where
  \<comment> \<open>the response head, if any, that the next iteration parses\<close>
  "head_read w =
     (case (rw_resp w, find_header_end (rw_resp_buf w)) of
        (Rp_Head, Some e) \<Rightarrow>
          (case parse_head_fields (take (e - 4) (rw_resp_buf w)) of
             None \<Rightarrow> []
           | Some (start_line, hs) \<Rightarrow>
               (case parse_status_line start_line of None \<Rightarrow> [] | Some (_, status, _) \<Rightarrow> [(status, hs)]))
      | _ \<Rightarrow> [])"

function heads_driven :: "rewriter \<Rightarrow> (nat \<times> headers) list" where
  "heads_driven w =
     head_read w @ (case rw_resp_step w of (_, w', go) \<Rightarrow> if go then heads_driven w' else [])"
  by pat_completeness auto
termination
  by (relation "measures [\<lambda>w. length (rw_resp_buf w), resp_rank]") (auto dest!: rw_resp_step_goes_on[OF sym])

declare heads_driven.simps [simp del]

definition heads_fed :: "bytes \<Rightarrow> rewriter \<Rightarrow> (nat \<times> headers) list" where
  "heads_fed data w =
     (if \<not> rw_active w \<or> rw_disabled w then [] else heads_driven (w\<lparr>rw_resp_buf := rw_resp_buf w @ data\<rparr>))"

fun rw_responses :: "bytes list \<Rightarrow> rewriter \<Rightarrow> bytes \<times> rewriter" where
  "rw_responses [] w = ([], w)"
| "rw_responses (d # ds) w =
     (let (o1, w1) = rw_feed_response d w; (o2, w2) = rw_responses ds w1 in (o1 @ o2, w2))"

fun heads_seen :: "bytes list \<Rightarrow> rewriter \<Rightarrow> (nat \<times> headers) list" where
  "heads_seen [] w = []"
| "heads_seen (d # ds) w = heads_fed d w @ heads_seen ds (snd (rw_feed_response d w))"

definition plain_state :: "rewriter \<Rightarrow> bool" where
  "plain_state w = (case rw_resp w of Rp_Head \<Rightarrow> True | Rp_Pass _ \<Rightarrow> True | _ \<Rightarrow> False)"

definition no_html :: "(nat \<times> headers) list \<Rightarrow> bool" where
  "no_html hds = list_all (\<lambda>(status, hs). \<not> injectable status hs) hds"

lemma no_html_append [simp]: "no_html (a @ b) \<longleftrightarrow> no_html a \<and> no_html b"
  by (simp add: no_html_def)

lemma chunk_consume_suffix: "chunk_consume st buf c = (step, st', buf', c') \<Longrightarrow> suffix buf' buf"
  by (induction st buf c rule: chunk_induct)
    (auto simp: chunk_steps split: if_splits intro: suffix_ConsI suffix_order.trans[OF _ suffix_drop])

lemma chunked_verbatim_exact: "chunked_verbatim st buf = (step, st', buf', eaten) \<Longrightarrow> eaten @ buf' = buf"
  by (auto simp: chunked_verbatim_def suffix_def dest!: chunk_consume_suffix split: prod.splits)

lemma step_response_pass_plain:
  "step_response_pass k w = (out, w', go) \<Longrightarrow> out @ rw_resp_buf w' = rw_resp_buf w \<and> plain_state w'"
  by (cases k) (auto simp: step_response_pass_def Let_def disable_flush_resp_def plain_state_def
      dest: chunked_verbatim_exact split: prod.splits body_step.splits if_splits)

lemma route_response_plain:
  assumes "route_response raw status hs w = (out, w', go)" and "\<not> injectable status hs" and "rw_resp w = Rp_Head"
  shows "out @ rw_resp_buf w' = raw @ rw_resp_buf w \<and> plain_state w'"
proof (cases "100 \<le> status \<and> status \<le> 199")
  case True
  with assms(1) show ?thesis
    by (cases "status = 101") (auto simp: route_response_def Let_def disable_flush_resp_def plain_state_def assms(3))
next
  case False
  then have ns: "\<not> (100 \<le> status \<and> status \<le> 199 \<and> status \<noteq> 101)" "status \<noteq> 101" by auto
  let ?mh = "case rw_pending_head w of [] \<Rightarrow> False | b # _ \<Rightarrow> b"
  show ?thesis
  proof (cases "response_framing status ?mh hs")
    case None
    with assms(1) ns show ?thesis by (auto simp: route_response_def plain_state_def)
  next
    case (Some fr)
    with assms(1,2) ns show ?thesis by (auto simp: route_response_def plain_state_def)
  qed
qed

lemma step_response_head_plain:
  assumes "step_response_head w = (out, w', go)" and "no_html (head_read w)" and "rw_resp w = Rp_Head"
  shows "out @ rw_resp_buf w' = rw_resp_buf w \<and> plain_state w'"
proof (cases "\<exists>e start hs v status r. find_header_end (rw_resp_buf w) = Some e
      \<and> parse_head_fields (take (e - 4) (rw_resp_buf w)) = Some (start, hs) \<and> parse_status_line start = Some (v, status, r)")
  case True
  then obtain e start hs v status r where e: "find_header_end (rw_resp_buf w) = Some e"
    "parse_head_fields (take (e - 4) (rw_resp_buf w)) = Some (start, hs)" "parse_status_line start = Some (v, status, r)"
    by blast
  from assms e have "route_response (take e (rw_resp_buf w)) status hs (w\<lparr>rw_resp_buf := drop e (rw_resp_buf w)\<rparr>) = (out, w', go)"
    "\<not> injectable status hs"
    by (simp_all add: step_response_head_def head_read_def no_html_def)
  from route_response_plain[OF this] assms(3) show ?thesis by simp
next
  case False
  with assms have "out = rw_resp_buf w \<and> rw_resp_buf w' = [] \<and> rw_resp w' = Rp_Head \<or> out = [] \<and> w' = w"
    by (auto simp: step_response_head_def disable_flush_resp_def split: option.split_asm if_split_asm prod.split_asm)
  with assms(3) show ?thesis by (auto simp: plain_state_def)
qed

lemma rw_resp_step_plain:
  assumes "rw_resp_step w = (out, w', go)" and "no_html (head_read w)" and "plain_state w"
  shows "out @ rw_resp_buf w' = rw_resp_buf w \<and> plain_state w'"
proof (cases "rw_resp w")
  case Rp_Head
  then have "w\<lparr>rw_resp := Rp_Head\<rparr> = w" by simp
  with assms Rp_Head step_response_head_plain[of w out w' go] show ?thesis by (simp add: rw_resp_step_def)
next
  case (Rp_Pass k)
  with assms step_response_pass_plain[of k "w\<lparr>rw_resp := Rp_Head\<rparr>" out w' go] show ?thesis
    by (simp add: rw_resp_step_def)
qed (use assms in \<open>simp_all add: plain_state_def\<close>)

lemma drive_response_plain:
  "drive_response w = (out, w') \<Longrightarrow> no_html (heads_driven w) \<Longrightarrow> plain_state w \<Longrightarrow>
   out @ rw_resp_buf w' = rw_resp_buf w \<and> plain_state w'"
proof (induction w arbitrary: out w' rule: drive_response.induct)
  case (1 w)
  obtain o1 w1 go where s: "rw_resp_step w = (o1, w1, go)" by (metis prod_cases3)
  have h: "no_html (head_read w)" "go \<Longrightarrow> no_html (heads_driven w1)"
    using "1.prems"(2) s by (simp_all add: heads_driven.simps[of w])
  from rw_resp_step_plain[OF s h(1) "1.prems"(3)] have st: "o1 @ rw_resp_buf w1 = rw_resp_buf w" "plain_state w1" by simp_all
  show ?case
  proof (cases go)
    case False
    with "1.prems"(1) s st show ?thesis by (simp add: drive_response.simps[of w])
  next
    case True
    obtain o2 w2 where d: "drive_response w1 = (o2, w2)" by force
    with "1.prems"(1) s True have eq: "out = o1 @ o2" "w' = w2" by (simp_all add: drive_response.simps[of w])
    from "1.IH"[OF s[symmetric] refl True d h(2)[OF True] st(2)] eq st(1) show ?thesis by auto
  qed
qed

lemma feed_response_plain:
  "rw_feed_response data w = (out, w') \<Longrightarrow> no_html (heads_fed data w) \<Longrightarrow> plain_state w \<Longrightarrow>
   out @ rw_resp_buf w' = rw_resp_buf w @ data \<and> plain_state w'"
  using drive_response_plain[of "w\<lparr>rw_resp_buf := rw_resp_buf w @ data\<rparr>" out w']
  by (auto simp: rw_feed_response_def heads_fed_def plain_state_def split: if_splits)

lemma rw_responses_plain:
  "rw_responses reads w = (out, w') \<Longrightarrow> no_html (heads_seen reads w) \<Longrightarrow> plain_state w \<Longrightarrow>
   out @ rw_resp_buf w' = rw_resp_buf w @ concat reads"
proof (induction reads arbitrary: w out)
  case (Cons d ds)
  obtain o1 w1 where s: "rw_feed_response d w = (o1, w1)" by force
  obtain o2 where r: "rw_responses ds w1 = (o2, w')" "out = o1 @ o2"
    using Cons.prems s by (auto simp: Let_def split: prod.splits)
  have f: "o1 @ rw_resp_buf w1 = rw_resp_buf w @ d" "plain_state w1"
    using feed_response_plain[OF s] Cons.prems s by simp_all
  from Cons.IH[OF r(1)] Cons.prems s f(2) have "o2 @ rw_resp_buf w' = rw_resp_buf w1 @ concat ds" by simp
  with r(2) f(1) show ?case by (metis append_assoc concat.simps(2))
qed simp

text \<open>C33: identity unless an HTML response is met. While no response head that the rewriter parses is
  injectable, whatever the reads, the payload and the framing (chunked and until-close bodies,
  malformed heads, upgrades included), the response bytes forwarded and those still buffered are the
  bytes received.\<close>

theorem rewriter_identity_without_html:
  assumes "list_all (\<lambda>(status, hs). \<not> injectable status hs) (heads_seen reads (set_cosmetic css js rw_new))"
  shows "fst (rw_responses reads (set_cosmetic css js rw_new))
      @ rw_resp_buf (snd (rw_responses reads (set_cosmetic css js rw_new))) = concat reads"
proof -
  have "plain_state (set_cosmetic css js rw_new)" "rw_resp_buf (set_cosmetic css js rw_new) = []"
    by (simp_all add: set_cosmetic_def rw_new_def Let_def plain_state_def)
  with rw_responses_plain[of reads "set_cosmetic css js rw_new"] assms show ?thesis
    by (simp add: no_html_def prod_eq_iff)
qed

lemma rewriter_identity_without_html_witness:
  "fst (rw_responses [asc ''HTTP/1.1 204 N'' @ CRLF, CRLF @ asc ''x''] (set_cosmetic (asc ''p'') [] rw_new))
      @ rw_resp_buf (snd (rw_responses [asc ''HTTP/1.1 204 N'' @ CRLF, CRLF @ asc ''x''] (set_cosmetic (asc ''p'') [] rw_new)))
    = asc ''HTTP/1.1 204 N'' @ CRLF @ CRLF @ asc ''x''"
proof -
  have "list_all (\<lambda>(status, hs). \<not> injectable status hs)
      (heads_seen [asc ''HTTP/1.1 204 N'' @ CRLF, CRLF @ asc ''x''] (set_cosmetic (asc ''p'') [] rw_new))"
    by code_simp
  from rewriter_identity_without_html[OF this] show ?thesis by simp
qed

subsection \<open>An HTML page with a declared length\<close>

lemma tag_start_from_bound: "tag_start_from hay name k = Some p \<Longrightarrow> p \<le> length hay"
proof (induction hay name k rule: tag_start_from.induct)
  case (1 hay name from0)
  from "1.prems" show ?case
    unfolding tag_start_from.simps[of hay name from0]
    by (auto simp: Let_def index_eq_Some_iff dest: "1.IH" split: option.splits if_splits)
qed

lemma tag_bounds: "tag_start hay name = Some p \<Longrightarrow> p \<le> length hay" "tag_open_end hay name = Some p \<Longrightarrow> p \<le> length hay"
  "doctype_end hay = Some p \<Longrightarrow> p \<le> length hay"
  by (auto simp: tag_start_def tag_open_end_def doctype_end_def position_Some_iff dest: tag_start_from_bound
      split: option.splits)

lemma choose_anchor_bound: "choose_anchor bs = Some (Some a) \<Longrightarrow> a \<le> length (bs_scan bs)"
  by (auto simp: choose_anchor_def anchor_streaming_def anchor_final_def or_else_def Let_def dest!: tag_bounds
      split: if_splits option.splits)

lemma choose_anchor_done: "bs_done bs \<Longrightarrow> choose_anchor bs \<noteq> None"
  by (auto simp: choose_anchor_def Let_def split: option.splits)

definition page_edits :: "bytes \<Rightarrow> bytes \<Rightarrow> nat \<Rightarrow> bytes \<Rightarrow> bytes set" where
  \<comment> \<open>what may have been forwarded of a page after \<open>s\<close> of its body: all verbatim, or with the blob once\<close>
  "page_edits blob h n s =
     {h @ s} \<union> {edit_response_head h (Some ((n + length blob) mod 2 ^ 64)) @ take a s @ blob @ drop a s |a. a \<le> length s}"

lemma page_edits_append:
  assumes "x \<in> page_edits blob h n s" shows "x @ d \<in> page_edits blob h n (s @ d)"
proof (cases "x = h @ s")
  case False
  with assms obtain a where "x = edit_response_head h (Some ((n + length blob) mod 2 ^ 64)) @ take a s @ blob @ drop a s"
    "a \<le> length s" by (auto simp: page_edits_def)
  then show ?thesis unfolding page_edits_def by (intro UnI2 CollectI exI[of _ a]) simp
qed (simp add: page_edits_def)

definition page_inv :: "rewriter \<Rightarrow> bytes \<Rightarrow> nat \<Rightarrow> bytes \<Rightarrow> bytes \<Rightarrow> rewriter \<Rightarrow> bool" where
  "page_inv w0 h n s out w \<longleftrightarrow>
     length s < n \<and> out = [] \<and>
       w = w0\<lparr>rw_resp := Rp_Buffer \<lparr>bs_head = h, bs_scan = s, bs_body = Bk_Length (n - length s), bs_cl = Some n, bs_done = False\<rparr>\<rparr>
   \<or> length s < n \<and> out \<in> page_edits (rw_blob w0) h n s \<and> w = w0\<lparr>rw_resp := Rp_Stream (Bk_Length (n - length s))\<rparr>
   \<or> length s = n \<and> out \<in> page_edits (rw_blob w0) h n s \<and> w = w0"

definition idle :: "rewriter \<Rightarrow> bool" where
  \<comment> \<open>between responses, with nothing buffered\<close>
  "idle w \<longleftrightarrow> rw_active w \<and> \<not> rw_disabled w \<and> rw_resp w = Rp_Head \<and> rw_resp_buf w = []"

lemma idle_update: "idle w \<Longrightarrow> w\<lparr>rw_resp_buf := [], rw_resp := Rp_Head\<rparr> = w" "idle w \<Longrightarrow> w\<lparr>rw_resp_buf := []\<rparr> = w"
  by (simp_all add: idle_def)

lemma drive_idle: "idle w \<Longrightarrow> drive_response w = ([], w)"
  by (subst drive_response.simps)
    (simp add: idle_def rw_resp_step_def step_response_head_def find_header_end_def)

lemma drive_stream:
  assumes "idle w0" and "length d \<le> r" and "0 < r"
  shows "drive_response (w0\<lparr>rw_resp := Rp_Stream (Bk_Length r), rw_resp_buf := d\<rparr>) =
    (d, if length d = r then w0 else w0\<lparr>rw_resp := Rp_Stream (Bk_Length (r - length d))\<rparr>)"
proof -
  have w0: "w0\<lparr>rw_resp := Rp_Head, rw_resp_buf := []\<rparr> = w0" using assms(1) by (simp add: idle_def)
  show ?thesis
    using assms(2,3) drive_idle[OF assms(1)] idle_update[OF assms(1)]
    by (subst drive_response.simps) (auto simp: rw_resp_step_def step_response_stream_def Let_def)
qed

lemma drive_buffer:
  assumes "idle w0" and "length s + length d \<le> n" and "length s < n"
  shows "\<exists>out w'. drive_response (w0\<lparr>rw_resp := Rp_Buffer \<lparr>bs_head = h, bs_scan = s,
        bs_body = Bk_Length (n - length s), bs_cl = Some n, bs_done = False\<rparr>, rw_resp_buf := d\<rparr>) = (out, w')
     \<and> page_inv w0 h n (s @ d) out w'"
proof -
  let ?bs = "\<lparr>bs_head = h, bs_scan = s, bs_body = Bk_Length (n - length s), bs_cl = Some n, bs_done = False\<rparr>"
  let ?bs' = "\<lparr>bs_head = h, bs_scan = s @ d, bs_body = Bk_Length (n - length (s @ d)), bs_cl = Some n,
      bs_done = (n = length (s @ d))\<rparr>"
  let ?w = "w0\<lparr>rw_resp := Rp_Buffer ?bs, rw_resp_buf := d\<rparr>"
  have w0: "rw_resp w0 = Rp_Head" "rw_resp_buf w0 = []" "w0\<lparr>rw_resp := Rp_Head, rw_resp_buf := []\<rparr> = w0"
    using assms(1) by (simp_all add: idle_def)
  have pull: "pull_body ?bs d = (Inl ?bs', [])"
    using assms(2,3) by (auto simp: pull_body_def Let_def)
  have step: "rw_resp_step ?w = (case choose_anchor ?bs' of
      None \<Rightarrow> ([], w0\<lparr>rw_resp := Rp_Buffer ?bs'\<rparr>, False)
    | Some anchor \<Rightarrow> (emit_scan (rw_blob w0) ?bs' anchor,
        if n = length (s @ d) then w0 else w0\<lparr>rw_resp := Rp_Stream (Bk_Length (n - length (s @ d)))\<rparr>, True))"
    using assms(2,3) w0 unfolding rw_resp_step_def
    by (simp add: step_response_buffer_def pull continue_body_def split: option.split)
  show ?thesis
  proof (cases "choose_anchor ?bs'")
    case None
    then have "n \<noteq> length (s @ d)" using choose_anchor_done[of ?bs'] by auto
    with None step assms(2) show ?thesis
      by (subst drive_response.simps) (simp add: page_inv_def)
  next
    case (Some anchor)
    have e: "emit_scan (rw_blob w0) ?bs' anchor \<in> page_edits (rw_blob w0) h n (s @ d)"
    proof (cases anchor)
      case None
      then show ?thesis by (simp add: emit_scan_def is_chunked_kind_def page_edits_def)
    next
      case (Some a)
      with choose_anchor_bound[of ?bs' a] \<open>choose_anchor ?bs' = Some anchor\<close> have "a \<le> length (s @ d)" by simp
      with Some show ?thesis
        unfolding page_edits_def by (intro UnI2 CollectI exI[of _ a]) (simp add: emit_scan_def is_chunked_kind_def)
    qed
    show ?thesis
    proof (cases "n = length (s @ d)")
      case True
      with Some step drive_idle[OF assms(1)] e show ?thesis
        by (subst drive_response.simps) (simp add: page_inv_def)
    next
      case False
      with assms(2) have r: "0 < n - length (s @ d)" by simp
      have "w0\<lparr>rw_resp := Rp_Stream (Bk_Length (n - length (s @ d)))\<rparr>
          = w0\<lparr>rw_resp := Rp_Stream (Bk_Length (n - length (s @ d))), rw_resp_buf := []\<rparr>"
        using w0 by (metis (no_types, lifting) rewriter.surjective rewriter.update_convs(6,7))
      with Some step drive_stream[OF assms(1) _ r, of "[]"] False e assms(2) show ?thesis
        by (subst drive_response.simps) (simp add: page_inv_def)
    qed
  qed
qed

lemma page_inv_feed:
  assumes "idle w0" and "page_inv w0 h n s out w" and "length s + length d \<le> n"
  shows "\<exists>o1 w1. rw_feed_response d w = (o1, w1) \<and> page_inv w0 h n (s @ d) (out @ o1) w1"
proof -
  have w0: "rw_active w0" "\<not> rw_disabled w0" "rw_resp_buf w0 = []" using assms(1) by (simp_all add: idle_def)
  from assms(2) consider
      (buffer) "length s < n" "out = []" "w = w0\<lparr>rw_resp := Rp_Buffer \<lparr>bs_head = h, bs_scan = s,
          bs_body = Bk_Length (n - length s), bs_cl = Some n, bs_done = False\<rparr>\<rparr>"
    | (stream) "length s < n" "out \<in> page_edits (rw_blob w0) h n s" "w = w0\<lparr>rw_resp := Rp_Stream (Bk_Length (n - length s))\<rparr>"
    | (fin) "length s = n" "out \<in> page_edits (rw_blob w0) h n s" "w = w0"
    unfolding page_inv_def by blast
  then show ?thesis
  proof cases
    case buffer
    with drive_buffer[OF assms(1,3) buffer(1), of h] w0 show ?thesis by (simp add: rw_feed_response_def)
  next
    case stream
    then have "0 < n - length s" "length d \<le> n - length s" using assms(3) by simp_all
    with drive_stream[OF assms(1), of d "n - length s"] stream w0 page_edits_append[OF stream(2), of d] show ?thesis
      by (auto simp: rw_feed_response_def page_inv_def)
  next
    case fin
    have "drive_response (w0\<lparr>rw_resp_buf := []\<rparr>) = ([], w0)"
      by (simp only: idle_update(2)[OF assms(1)] drive_idle[OF assms(1)])
    with fin assms(3) w0 show ?thesis by (simp add: rw_feed_response_def page_inv_def)
  qed
qed

lemma page_inv_run:
  assumes "idle w0"
  shows "page_inv w0 h n s out w \<Longrightarrow> length s + length (concat reads) \<le> n \<Longrightarrow>
    \<exists>o1 w1. rw_responses reads w = (o1, w1) \<and> page_inv w0 h n (s @ concat reads) (out @ o1) w1"
proof (induction reads arbitrary: s out w)
  case Nil
  then show ?case by simp
next
  case (Cons d ds)
  from Cons.prems(2) have "length s + length d \<le> n" by simp
  from page_inv_feed[OF assms Cons.prems(1) this] obtain o1 w1
    where f: "rw_feed_response d w = (o1, w1)" "page_inv w0 h n (s @ d) (out @ o1) w1" by blast
  have "length (s @ d) + length (concat ds) \<le> n" using Cons.prems(2) by simp
  from Cons.IH[OF f(2) this] obtain o2 w2
    where "rw_responses ds w1 = (o2, w2)" "page_inv w0 h n ((s @ d) @ concat ds) ((out @ o1) @ o2) w2" by blast
  with f(1) show ?case by simp
qed

definition html_head :: "bytes \<Rightarrow> nat \<Rightarrow> bool" where
  \<comment> \<open>the head of an injectable response to a request other than HEAD, with this Content-Length\<close>
  "html_head h n \<longleftrightarrow>
     find_header_end h = Some (length h) \<and>
     (case parse_head_fields (take (length h - 4) h) of
        None \<Rightarrow> False
      | Some (start, hs) \<Rightarrow>
          (case parse_status_line start of
             None \<Rightarrow> False
           | Some (_, status, _) \<Rightarrow>
               \<not> (100 \<le> status \<and> status \<le> 199) \<and> injectable status hs
               \<and> response_framing status False hs = Some (Fr_Length n) \<and> content_length hs = Some n))"

lemma html_head_step:
  assumes "html_head h n" and "idle w" and "rw_pending_head w = [] \<or> \<not> hd (rw_pending_head w)"
  shows "rw_resp_step (w\<lparr>rw_resp_buf := h @ s\<rparr>) =
    ([], w\<lparr>rw_pending_head := tl (rw_pending_head w),
       rw_resp := Rp_Buffer \<lparr>bs_head = h, bs_scan = [], bs_body = Bk_Length n, bs_cl = Some n, bs_done = False\<rparr>,
       rw_resp_buf := s\<rparr>, True)"
proof -
  from assms(1) obtain start hs v status r where h: "find_header_end h = Some (length h)"
    "parse_head_fields (take (length h - 4) h) = Some (start, hs)" "parse_status_line start = Some (v, status, r)"
    "\<not> (100 \<le> status \<and> status \<le> 199)" "injectable status hs" "response_framing status False hs = Some (Fr_Length n)"
    "content_length hs = Some n"
    by (auto simp: html_head_def split: option.splits prod.splits)
  have e: "find_header_end (h @ s) = Some (length h)"
    using h(1) find_sub_append_Some by (fastforce simp: find_header_end_def)
  have mh: "(case rw_pending_head w of [] \<Rightarrow> False | b # _ \<Rightarrow> b) = False"
    using assms(3) by (auto split: list.splits)
  have ns: "status \<noteq> 101" "\<not> (100 \<le> status \<and> status \<le> 199 \<and> status \<noteq> 101)" using h(4) by auto
  show ?thesis
    using assms(2) h e mh ns
    by (cases "100 \<le> status")
      (simp_all add: rw_resp_step_def step_response_head_def route_response_def Let_def idle_def framing_to_kind_def)
qed

lemma response_framing_pos: "response_framing status mh hs = Some (Fr_Length n) \<Longrightarrow> 0 < n"
  by (cases "content_length hs") (simp_all add: response_framing_def split: if_splits)

lemma html_head_pos: "html_head h n \<Longrightarrow> 0 < n"
  by (auto simp: html_head_def dest: response_framing_pos split: option.splits prod.splits)

lemma html_head_prefix:
  assumes "html_head h n" and "prefix p h" and "length p < length h"
  shows "find_header_end p = None"
proof (rule ccontr)
  assume "find_header_end p \<noteq> None"
  then obtain e where e: "find_header_end p = Some e" by auto
  from assms(2) obtain q where "h = p @ q" by (auto simp: prefix_def)
  then have "find_header_end h = Some e"
    using e find_sub_append_Some by (fastforce simp: find_header_end_def)
  with assms(1,3) find_header_end_bound[OF e] show False by (simp add: html_head_def)
qed

lemma page_run:
  assumes "html_head h n" and "idle w" and "rw_pending_head w = [] \<or> \<not> hd (rw_pending_head w)"
    and "length h \<le> MAX_HEADER_BYTES" and "length b = n"
  shows "prefix p h \<Longrightarrow> length p < length h \<Longrightarrow> p @ concat reads = h @ b \<Longrightarrow>
    \<exists>o1 w1. rw_responses reads (w\<lparr>rw_resp_buf := p\<rparr>) = (o1, w1)
      \<and> page_inv (w\<lparr>rw_pending_head := tl (rw_pending_head w)\<rparr>) h n b o1 w1"
proof (induction reads arbitrary: p)
  case Nil
  then show ?case by simp
next
  case (Cons d ds)
  let ?w0 = "w\<lparr>rw_pending_head := tl (rw_pending_head w)\<rparr>"
  have w: "rw_active w" "\<not> rw_disabled w" "rw_resp w = Rp_Head" using assms(2) by (simp_all add: idle_def)
  have feed: "rw_feed_response d (w\<lparr>rw_resp_buf := p\<rparr>) = drive_response (w\<lparr>rw_resp_buf := p @ d\<rparr>)"
    using w by (simp add: rw_feed_response_def)
  show ?case
  proof (cases "length (p @ d) < length h")
    case True
    have pre: "prefix (p @ d) h"
      using Cons.prems(3) True by (metis append_assoc concat.simps(2) less_imp_le prefixI prefix_length_prefix)
    have "drive_response (w\<lparr>rw_resp_buf := p @ d\<rparr>) = ([], w\<lparr>rw_resp_buf := p @ d\<rparr>)"
      using html_head_prefix[OF assms(1) pre True] True assms(4) w
      by (subst drive_response.simps) (simp add: rw_resp_step_def step_response_head_def)
    moreover have "(p @ d) @ concat ds = h @ b" using Cons.prems(3) by simp
    ultimately show ?thesis using Cons.IH[OF pre True] feed by simp
  next
    case False
    have "(p @ d) @ concat ds = h @ b" using Cons.prems(3) by simp
    then obtain us where "p @ d = h @ us \<and> us @ concat ds = b \<or> (p @ d) @ us = h \<and> concat ds = us @ b"
      unfolding append_eq_append_conv2 by blast
    with False obtain s where s: "p @ d = h @ s" "s @ concat ds = b"
      by (cases us) (fastforce, force)
    have i0: "idle ?w0" using assms(2) by (simp add: idle_def)
    have n: "0 < n" by (rule html_head_pos[OF assms(1)])
    have len: "length [] + length s \<le> n" using s(2) assms(5) by auto
    from drive_buffer[OF i0 len, of h] n obtain o1 w1 where
      d1: "drive_response (w\<lparr>rw_pending_head := tl (rw_pending_head w),
         rw_resp := Rp_Buffer \<lparr>bs_head = h, bs_scan = [], bs_body = Bk_Length n, bs_cl = Some n, bs_done = False\<rparr>,
         rw_resp_buf := s\<rparr>) = (o1, w1)"
      and inv: "page_inv ?w0 h n s o1 w1" by auto
    have "rw_feed_response d (w\<lparr>rw_resp_buf := p\<rparr>) = (o1, w1)"
      unfolding feed s(1) using html_head_step[OF assms(1-3), of s] d1
      by (subst drive_response.simps) simp
    moreover have "length s + length (concat ds) \<le> n" using s(2) assms(5) by auto
    ultimately show ?thesis using page_inv_run[OF i0 inv, of ds] s(2) by auto
  qed
qed


definition sample_page_head :: bytes where
  "sample_page_head = asc ''HTTP/1.1 200 OK'' @ CRLF @ asc ''Content-Type: text/html'' @ CRLF
     @ asc ''Content-Length: 13'' @ CRLF @ CRLF"

definition sample_rewriter :: rewriter where
  "sample_rewriter = set_cosmetic (asc ''.ad{}'') [] rw_new"

lemma sample_page_facts: "html_head sample_page_head 13" "length sample_page_head \<le> MAX_HEADER_BYTES"
  by code_simp+

lemma sample_rewriter_facts: "rw_active sample_rewriter" "\<not> rw_disabled sample_rewriter"
  "rw_resp sample_rewriter = Rp_Head" "rw_resp_buf sample_rewriter = []" "rw_pending_head sample_rewriter = []"
  by (simp_all add: sample_rewriter_def set_cosmetic_def rw_new_def Let_def)


subsection \<open>A shared switch\<close>

definition sample_upload :: bytes where
  "sample_upload = asc ''POST /u HTTP/1.1'' @ CRLF @ asc ''Transfer-Encoding: chunked'' @ CRLF @ CRLF"

lemma disabled_passes:
  "rw_disabled w \<Longrightarrow> rw_resp_buf w = [] \<Longrightarrow> fst (rw_responses reads w) = concat reads"
proof (induction reads arbitrary: w)
  case (Cons d ds)
  then have "rw_feed_response d w = (d, w\<lparr>rw_resp_buf := []\<rparr>)" by (simp add: rw_feed_response_def)
  with Cons show ?case by (simp add: Let_def case_prod_unfold)
qed simp

lemma sample_upload_facts:
  "find_header_end sample_upload = Some (length sample_upload)"
  "parse_head_fields (take (length sample_upload - 4) sample_upload)
     = Some (asc ''POST /u HTTP/1.1'', [(asc ''Transfer-Encoding'', asc ''chunked'')])"
  "parse_request_line (asc ''POST /u HTTP/1.1'') = Some (asc ''POST'', asc ''/u'', asc ''HTTP/1.1'')"
  "request_framing [(asc ''Transfer-Encoding'', asc ''chunked'')] = Some (Fr_Chunked (Ch_Size []))"
  by code_simp+

lemma upload_disables:
  assumes "rw_active w" "\<not> rw_disabled w" "rw_req w = Rq_Head" "rw_req_buf w = []"
  shows "rw_disabled (snd (rw_feed_request sample_upload w))"
    and "rw_resp_buf (snd (rw_feed_request sample_upload w)) = rw_resp_buf w"
proof -
  have "rw_req_step (w\<lparr>rw_req_buf := sample_upload\<rparr>) =
      (edit_request_head sample_upload,
       w\<lparr>rw_pending_head := rw_pending_head w @ [eq_ignore_case (asc ''POST'') (asc ''HEAD'')],
         rw_req_buf := [], rw_disabled := True\<rparr>, False)"
    using assms sample_upload_facts
    by (simp add: rw_req_step_def route_request_def disable_flush_req_def Let_def del: asc_Cons)
  then show "rw_disabled (snd (rw_feed_request sample_upload w))"
    "rw_resp_buf (snd (rw_feed_request sample_upload w)) = rw_resp_buf w"
    using assms by (simp_all add: rw_feed_request_def drive_request.simps)
qed

definition sample_held :: rewriter where
  "sample_held = sample_rewriter\<lparr>rw_resp := Rp_Buffer \<lparr>bs_head = sample_page_head, bs_scan = asc ''<p>'',
     bs_body = Bk_Length 10, bs_cl = Some 13, bs_done = False\<rparr>\<rparr>"

lemma sample_no_anchor:
  "choose_anchor \<lparr>bs_head = h, bs_scan = asc ''<p>'', bs_body = Bk_Length 10, bs_cl = Some 13, bs_done = False\<rparr> = None"
proof -
  have "anchor_streaming (asc ''<p>'') = None" "\<not> contains (asc ''<p>'') MARKER"
    "\<not> prefix [0xFF, 0xFE] (asc ''<p>'')" "\<not> prefix [0xFE, 0xFF] (asc ''<p>'')"
    "\<not> length (asc ''<p>'') \<ge> MAX_ANCHOR_SCAN"
    by code_simp+
  then show ?thesis by (simp add: choose_anchor_def Let_def del: asc_Cons length_asc)
qed

lemma sample_held_feed: "rw_feed_response (sample_page_head @ asc ''<p>'') sample_rewriter = ([], sample_held)"
proof -
  let ?s = "asc ''<p>''"
  have i: "idle sample_rewriter" using sample_rewriter_facts by (simp add: idle_def)
  have w: "sample_rewriter\<lparr>rw_pending_head := tl (rw_pending_head sample_rewriter)\<rparr> = sample_rewriter"
    using sample_rewriter_facts by simp
  have "rw_resp_step (sample_rewriter\<lparr>rw_resp := Rp_Buffer \<lparr>bs_head = sample_page_head, bs_scan = [],
      bs_body = Bk_Length 13, bs_cl = Some 13, bs_done = False\<rparr>, rw_resp_buf := ?s\<rparr>) = ([], sample_held, False)"
    using sample_no_anchor[of sample_page_head] sample_rewriter_facts
    by (simp add: rw_resp_step_def step_response_buffer_def pull_body_def Let_def sample_held_def del: asc_Cons)
  then have d: "drive_response (sample_rewriter\<lparr>rw_resp := Rp_Buffer \<lparr>bs_head = sample_page_head, bs_scan = [],
      bs_body = Bk_Length 13, bs_cl = Some 13, bs_done = False\<rparr>, rw_resp_buf := ?s\<rparr>) = ([], sample_held)"
    by (subst drive_response.simps) simp
  have "drive_response (sample_rewriter\<lparr>rw_resp_buf := sample_page_head @ ?s\<rparr>) = ([], sample_held)"
    using html_head_step[OF sample_page_facts(1) i, of ?s, unfolded w] sample_rewriter_facts(5)
    by (subst drive_response.simps) (simp add: d del: asc_Cons)
  then show ?thesis using sample_rewriter_facts by (simp add: rw_feed_response_def del: asc_Cons)
qed

lemma sample_held_facts: "rw_active sample_held" "\<not> rw_disabled sample_held" "rw_req sample_held = Rq_Head"
  "rw_req_buf sample_held = []" "rw_resp_buf sample_held = []"
  by (simp_all add: sample_held_def sample_rewriter_def set_cosmetic_def rw_new_def Let_def)

text \<open>C39: Against the stated invariant, the rewriter can drop response bytes. While the head and the
  first bytes of an HTML response are held back in search of the anchor, a request with a chunked
  body on the same connection disables the rewriter for both directions; from then on only later
  response bytes are forwarded, and the held head and body prefix are never emitted.\<close>

theorem rewriter_loses_held_response:
  "let held = sample_page_head @ asc ''<p>'';
       r1 = rw_feed_response held sample_rewriter;
       w2 = snd (rw_feed_request sample_upload (snd r1))
   in held \<noteq> [] \<and> fst r1 @ fst (rw_responses reads w2) = concat reads"
proof -
  have "rw_disabled (snd (rw_feed_request sample_upload sample_held))"
    "rw_resp_buf (snd (rw_feed_request sample_upload sample_held)) = []"
    using upload_disables[OF sample_held_facts(1-4)] sample_held_facts(5) by simp_all
  from disabled_passes[OF this, of reads] show ?thesis
    unfolding Let_def sample_held_feed by simp
qed

end
