(* ===== verification/Doh_Request.thy ===== *)
theory Doh_Request
  imports Rust_Text
begin

section \<open>Building a DoH request\<close>

text \<open>
  \<open>post_wire\<close> of \<open>rust/tls/src/dns.rs\<close> and its public face \<open>doh_request\<close> of \<open>rust/tls/src/lib.rs\<close>: the
  HTTP/1.1 request that carries a DNS query, shared by the filter of an intercepted DoH flow and by the
  forwarder's own DoH jobs.
\<close>

definition before_query :: "bytes \<Rightarrow> bytes" where
  \<comment> \<open>\<open>path.split_once('?').map(|(p, _)| p).unwrap_or(path)\<close>\<close>
  "before_query path = takeWhile (\<lambda>b. b \<noteq> 63) path"

definition post_wire :: "bytes \<Rightarrow> bytes \<Rightarrow> bytes \<Rightarrow> bytes" where
  "post_wire authority path wire =
     (let p = before_query path; p = (if p = [] then asc ''/dns-query'' else p)
      in asc ''POST '' @ p @ asc '' HTTP/1.1'' @ CRLF @ asc ''Host: '' @ authority @ CRLF
         @ asc ''Accept: application/dns-message'' @ CRLF
         @ asc ''Content-Type: application/dns-message'' @ CRLF
         @ asc ''Content-Length: '' @ dec_str (length wire) @ CRLF
         @ asc ''Connection: keep-alive'' @ CRLF @ CRLF @ wire)"

definition doh_request :: "bytes \<Rightarrow> bytes \<Rightarrow> bytes \<Rightarrow> bytes" where
  "doh_request host path wire = post_wire host path wire"

end
