(* ===== verification/Fw_Policy.thy ===== *)
theory Fw_Policy
  imports Doh_Request Proxy Net_Types Rust_Text Ip_Text
begin

section \<open>The forwarder's pure helpers\<close>

text \<open>
  The free functions of \<open>forward.rs\<close> that need no state: per-app policies, the choice of the
  upstream resolver, the framing of DNS over TCP and TLS, the HTTP framing of DNS over HTTPS, and
  the resolution of the proxy settings. Name resolution (\<open>to_socket_addrs\<close>) is a parameter.
\<close>

subsection \<open>Settings\<close>

datatype encrypted_dns_mode = Enc_Off | Enc_Block | Enc_Filter

datatype dns_transport = Dns_Plain | Dns_Dot | Dns_Doh

record app_policy =
  ap_allow_wifi :: bool
  ap_allow_cellular :: bool
  ap_inspect_tls :: bool

definition TRANSPORT_OTHER :: u8 where "TRANSPORT_OTHER = 0"
definition TRANSPORT_WIFI :: u8 where "TRANSPORT_WIFI = 1"
definition TRANSPORT_CELLULAR :: u8 where "TRANSPORT_CELLULAR = 2"

definition DOT_PORT :: u16 where "DOT_PORT = 853"
definition HTTP_PORT :: u16 where "HTTP_PORT = 80"
definition HTTPS_PORT :: u16 where "HTTPS_PORT = 443"

definition DEFAULT_DNS_V4 :: ip_addr where "DEFAULT_DNS_V4 = V4 1 1 1 1"
definition DEFAULT_DNS_V6 :: ip_addr where
  "DEFAULT_DNS_V6 = V6 [0x26, 0x06, 0x47, 0, 0x47, 0, 0, 0, 0, 0, 0, 0, 0, 0, 0x11, 0x11]"

record config =
  cf_mtu :: nat
  cf_dns_servers :: "bytes list"
  cf_dns_port :: u16
  cf_dns_transport :: dns_transport
  cf_dns_host :: "bytes option"
  cf_dns_path :: "bytes option"
  cf_encrypted_dns_mode :: encrypted_dns_mode
  cf_intercept_tls :: bool
  cf_ca_cert_pem :: "bytes option"
  cf_ca_key_pem :: "bytes option"
  cf_log_open :: bool
  cf_cosmetic_element_hiding :: bool
  cf_cosmetic_scriptlets :: bool
  cf_proxy :: proxy_config
  cf_proxy_dns_over_tcp :: bool

definition default_proxy_config :: proxy_config where
  "default_proxy_config =
     \<lparr>pc_kind = Proxy_None, pc_host = [], pc_ip = [], pc_port = 0, pc_username = None, pc_password = None\<rparr>"

definition default_config :: config where
  "default_config =
     \<lparr>cf_mtu = 1500, cf_dns_servers = [], cf_dns_port = 53, cf_dns_transport = Dns_Plain,
      cf_dns_host = None, cf_dns_path = None, cf_encrypted_dns_mode = Enc_Off, cf_intercept_tls = False,
      cf_ca_cert_pem = None, cf_ca_key_pem = None, cf_log_open = False,
      cf_cosmetic_element_hiding = False, cf_cosmetic_scriptlets = False,
      cf_proxy = default_proxy_config, cf_proxy_dns_over_tcp = False\<rparr>"

subsection \<open>The upstream resolver\<close>

fun parse_dns_override :: "bytes list \<Rightarrow> ip_addr option" where
  "parse_dns_override [] = None"
| "parse_dns_override (s # ss) = (case parse_ip s of Some ip \<Rightarrow> Some ip | None \<Rightarrow> parse_dns_override ss)"

definition normalize_dns_port :: "u16 \<Rightarrow> u16" where
  "normalize_dns_port port = (if port = 0 then 53 else port)"

definition normalize_dns_host :: "bytes option \<Rightarrow> bytes option" where
  "normalize_dns_host host =
     (case host of None \<Rightarrow> None | Some h \<Rightarrow> if trim h = [] then None else Some (trim h))"

definition resolve_dns_upstream :: "ip_addr option \<Rightarrow> u16 \<Rightarrow> sock_addr \<Rightarrow> sock_addr" where
  "resolve_dns_upstream override_ip port queried =
     SockAddr (case override_ip of
                 Some ip \<Rightarrow> ip
               | None \<Rightarrow> if is_ipv4 (sa_ip queried) then DEFAULT_DNS_V4 else DEFAULT_DNS_V6) port"

definition proxy_dns_port :: "dns_transport \<Rightarrow> u16 \<Rightarrow> u16" where
  "proxy_dns_port transport dns_port = (case transport of Dns_Plain \<Rightarrow> dns_port | _ \<Rightarrow> 53)"

subsection \<open>Framing of one-shot queries\<close>

definition frame_query :: "bytes \<Rightarrow> bytes" where
  \<comment> \<open>\<open>(payload.len() as u16).to_be_bytes()\<close> and the payload\<close>
  "frame_query payload = be16 (word_of_nat (length payload)) @ payload"

definition take_dns_tcp_response :: "bytes \<Rightarrow> bytes option" where
  "take_dns_tcp_response buf =
     (if length buf < 2 then None
      else let len = be16n (buf ! 0) (buf ! 1)
           in if length buf < 2 + len then None else Some (take len (drop 2 buf)))"

fun first_crlf :: "bytes \<Rightarrow> bytes" where
  \<comment> \<open>\<open>s.split("\r\n").next()\<close>\<close>
  "first_crlf s = (case find_sub CRLF s of None \<Rightarrow> s | Some i \<Rightarrow> take i s)"

declare first_crlf.simps [simp del]

definition status_ok :: "bytes \<Rightarrow> bool" where
  \<comment> \<open>the second whitespace-separated token of the first line is \<open>200\<close>\<close>
  "status_ok head =
     (case split_ws (first_crlf head) of _ # code # _ \<Rightarrow> code = asc ''200'' | _ \<Rightarrow> False)"

definition take_doh_response :: "bytes \<Rightarrow> bool \<Rightarrow> bytes option" where
  "take_doh_response buf eof =
     (case find_sub [13, 10, 13, 10] buf of
        None \<Rightarrow> None
      | Some p \<Rightarrow>
          let head_end = p + 4; head = take head_end buf
          in if \<not> utf8_valid head \<or> \<not> status_ok head then None
             else
               let low = to_lower head
               in case find_sub (asc ''content-length:'') low of
                    Some pos \<Rightarrow>
                      (case parse_radix 10 usize_max (trim (first_crlf (drop (pos + 15) low))) of
                         None \<Rightarrow> None
                       | Some len \<Rightarrow>
                           if head_end + len > usize_max then None
                           else if length buf \<ge> head_end + len then Some (take len (drop head_end buf))
                           else None)
                  | None \<Rightarrow>
                      if find_sub (asc ''transfer-encoding:'') low \<noteq> None \<and> find_sub (asc ''chunked'') low \<noteq> None
                      then None
                      else if eof then Some (drop head_end buf) else None)"

definition origin_authority :: "sock_addr \<Rightarrow> bytes" where
  "origin_authority addr =
     (let host = (case sa_ip addr of V4 _ _ _ _ \<Rightarrow> ip_str (sa_ip addr) | V6 _ \<Rightarrow> [91] @ ip_str (sa_ip addr) @ [93])
      in if sa_port addr = HTTP_PORT then host else host @ [58] @ dec_str (unat (sa_port addr)))"

subsection \<open>The proxy setting\<close>

definition build_proxy :: "(bytes \<Rightarrow> u16 \<Rightarrow> sock_addr option) \<Rightarrow> proxy_config \<Rightarrow> proxy option \<times> bool" where
  \<comment> \<open>the proxy to dial through, and whether one is configured but unusable\<close>
  "build_proxy to_socket_addrs pc =
     (if pc_kind pc = Proxy_None then (None, False)
      else case from_config pc of
        Some p \<Rightarrow> (Some p, False)
      | None \<Rightarrow>
          let host = trim (pc_host pc); clean = (\<lambda>s. case s of Some v \<Rightarrow> if v \<noteq> [] then Some v else None | None \<Rightarrow> None)
          in if pc_port pc \<noteq> 0 \<and> host \<noteq> [] then
               (case to_socket_addrs host (pc_port pc) of
                  Some addr \<Rightarrow>
                    (Some \<lparr>px_kind = pc_kind pc, px_addr = addr, px_server_name = host,
                           px_username = clean (pc_username pc), px_password = clean (pc_password pc)\<rparr>, False)
                | None \<Rightarrow> (None, True))
             else (None, True))"

lemma build_proxy_never_direct:
  "pc_kind pc \<noteq> Proxy_None \<Longrightarrow> snd (build_proxy rs pc) \<longleftrightarrow> fst (build_proxy rs pc) = None"
  by (simp add: build_proxy_def Let_def split: option.splits)

subsection \<open>Round trips\<close>

lemma take_frame_query:
  assumes "length payload < 2 ^ 16"
  shows "take_dns_tcp_response (frame_query payload @ extra) = Some payload"
    and "n < length (frame_query payload) \<Longrightarrow> take_dns_tcp_response (take n (frame_query payload)) = None"
proof -
  let ?w = "word_of_nat (length payload) :: u16"
  have u: "unat ?w = length payload" using assms by (simp add: unat_word_of_nat_u16)
  obtain hi lo where b: "be16 ?w = [hi, lo]" by (simp add: be16_def)
  have n: "be16n hi lo = length payload"
    using b be16w_be16[of ?w] u unat_be16w[of hi lo] by (auto simp: be16_def)
  show "take_dns_tcp_response (frame_query payload @ extra) = Some payload"
    by (simp add: take_dns_tcp_response_def frame_query_def b n)
  show "take_dns_tcp_response (take n (frame_query payload)) = None" if "n < length (frame_query payload)"
    using that b n by (cases n; cases "n - 1")
      (auto simp: take_dns_tcp_response_def frame_query_def Let_def)
qed

end
