(* ===== verification/Net_Stack.thy ===== *)
theory Net_Stack
  imports Net_Types Adw_Prelude
begin

section \<open>The user-space network stack\<close>

text \<open>
  The crate \<open>netstack\<close> around smoltcp: \<open>udp.rs\<close> (datagram parsing and replies), \<open>device.rs\<close> (the
  packet queues of the tunnel) and \<open>stack.rs\<close> (one listening socket per outbound connection of an
  app, and the tables that find it). smoltcp itself is a third-party package: its wire views
  (\<open>Ipv4Packet::new_checked\<close> and so on) and emitters are the record \<open>wire\<close>, its interface and
  socket set the record \<open>smol\<close> over an abstract state \<open>'c\<close>; no definition assumes anything of them.
\<close>

subsection \<open>Wire formats\<close>

record ip_view =
  iv_next :: u8
  iv_src :: ip_addr
  iv_dst :: ip_addr
  iv_payload :: bytes

record tcp_view =
  tv_src_port :: u16
  tv_dst_port :: u16
  tv_syn :: bool
  tv_ack :: bool
  tv_seq :: u32

record wire =
  w_ipv4 :: "bytes \<Rightarrow> ip_view option" \<comment> \<open>\<open>Ipv4Packet::new_checked\<close> and its accessors\<close>
  w_ipv6 :: "bytes \<Rightarrow> ip_view option"
  w_udp :: "bytes \<Rightarrow> (u16 \<times> u16 \<times> bytes) option" \<comment> \<open>\<open>UdpPacket::new_checked\<close>: ports, payload\<close>
  w_tcp :: "bytes \<Rightarrow> tcp_view option"
  w_emit_udp :: "sock_addr \<Rightarrow> sock_addr \<Rightarrow> bytes \<Rightarrow> bytes" \<comment> \<open>IP and UDP headers, hop limit 64\<close>
  w_emit_rst :: "sock_addr \<Rightarrow> sock_addr \<Rightarrow> u32 \<Rightarrow> bytes" \<comment> \<open>source, destination, acknowledged number\<close>

record udp_datagram =
  ud_src :: sock_addr
  ud_dst :: sock_addr
  ud_payload :: bytes

definition IPPROTO_TCP :: u8 where "IPPROTO_TCP = 6"
definition IPPROTO_UDP :: u8 where "IPPROTO_UDP = 17"

definition version_of :: "bytes \<Rightarrow> u8 option" where
  \<comment> \<open>\<open>packet.first().map(|b| b >> 4)\<close>\<close>
  "version_of packet = (case packet of [] \<Rightarrow> None | b # _ \<Rightarrow> Some (drop_bit 4 b))"

definition ip_view_of :: "wire \<Rightarrow> bytes \<Rightarrow> u8 \<Rightarrow> ip_view option" where
  \<comment> \<open>the shared shape of the two arms: the version nibble picks the view, the protocol is checked\<close>
  "ip_view_of W packet proto =
     (case version_of packet of
        None \<Rightarrow> None
      | Some v \<Rightarrow>
          do {
            ip \<leftarrow> (if v = 4 then w_ipv4 W packet else if v = 6 then w_ipv6 W packet else None);
            if iv_next ip \<noteq> proto then None else Some ip
          })"

definition udp_parse :: "wire \<Rightarrow> bytes \<Rightarrow> udp_datagram option" where
  "udp_parse W packet = do {
     ip \<leftarrow> ip_view_of W packet IPPROTO_UDP;
     (sp, dp, payload) \<leftarrow> w_udp W (iv_payload ip);
     Some \<lparr>ud_src = SockAddr (iv_src ip) sp, ud_dst = SockAddr (iv_dst ip) dp, ud_payload = payload\<rparr>
   }"

definition build_reply :: "wire \<Rightarrow> sock_addr \<Rightarrow> sock_addr \<Rightarrow> bytes \<Rightarrow> bytes option" where
  "build_reply W src dst payload =
     (case (sa_ip src, sa_ip dst) of
        (V4 _ _ _ _, V4 _ _ _ _) \<Rightarrow> Some (w_emit_udp W src dst payload)
      | (V6 _, V6 _) \<Rightarrow> Some (w_emit_udp W src dst payload)
      | _ \<Rightarrow> None)"

definition reset_for_syn :: "wire \<Rightarrow> bytes \<Rightarrow> bytes option" where
  \<comment> \<open>from the server to the app, acknowledging the sequence number after the SYN\<close>
  "reset_for_syn W packet = do {
     ip \<leftarrow> ip_view_of W packet IPPROTO_TCP;
     t \<leftarrow> w_tcp W (iv_payload ip);
     if \<not> tv_syn t then None
     else Some (w_emit_rst W (SockAddr (iv_dst ip) (tv_dst_port t)) (SockAddr (iv_src ip) (tv_src_port t))
                  (tv_seq t + 1))
   }"

record tcp_peek =
  pk_app :: sock_addr
  pk_server :: sock_addr
  pk_syn :: bool
  pk_ack :: bool

definition peek_tcp :: "wire \<Rightarrow> bytes \<Rightarrow> tcp_peek option" where
  "peek_tcp W packet = do {
     ip \<leftarrow> ip_view_of W packet IPPROTO_TCP;
     t \<leftarrow> w_tcp W (iv_payload ip);
     Some \<lparr>pk_app = SockAddr (iv_src ip) (tv_src_port t), pk_server = SockAddr (iv_dst ip) (tv_dst_port t),
           pk_syn = tv_syn t, pk_ack = tv_ack t\<rparr>
   }"

subsection \<open>The device\<close>

record tun_device =
  dev_inbound :: "bytes list"
  dev_outbound :: "bytes list"
  dev_mtu :: nat

definition dev_new :: "nat \<Rightarrow> tun_device" where
  "dev_new mtu = \<lparr>dev_inbound = [], dev_outbound = [], dev_mtu = mtu\<rparr>"

definition push_inbound :: "bytes \<Rightarrow> tun_device \<Rightarrow> tun_device" where
  "push_inbound packet d = d\<lparr>dev_inbound := dev_inbound d @ [packet]\<rparr>"

definition pop_outbound :: "tun_device \<Rightarrow> bytes option \<times> tun_device" where
  "pop_outbound d =
     (case dev_outbound d of [] \<Rightarrow> (None, d) | p # ps \<Rightarrow> (Some p, d\<lparr>dev_outbound := ps\<rparr>))"

definition has_inbound :: "tun_device \<Rightarrow> bool" where
  "has_inbound d = (dev_inbound d \<noteq> [])"

definition dev_receive :: "tun_device \<Rightarrow> bytes option \<times> tun_device" where
  \<comment> \<open>the packet a receive token hands to smoltcp\<close>
  "dev_receive d =
     (case dev_inbound d of [] \<Rightarrow> (None, d) | p # ps \<Rightarrow> (Some p, d\<lparr>dev_inbound := ps\<rparr>))"

definition dev_transmit :: "bytes \<Rightarrow> tun_device \<Rightarrow> tun_device" where
  \<comment> \<open>consuming a transmit token whose closure fills the buffer\<close>
  "dev_transmit packet d = d\<lparr>dev_outbound := dev_outbound d @ [packet]\<rparr>"

subsection \<open>The stack\<close>

datatype tcp_state =
    Tcp_Closed | Tcp_Listen | Tcp_SynSent | Tcp_SynReceived | Tcp_Established | Tcp_FinWait1
  | Tcp_FinWait2 | Tcp_CloseWait | Tcp_Closing | Tcp_LastAck | Tcp_TimeWait

type_synonym flow_id = nat \<comment> \<open>a \<open>u64\<close> that only counts flows\<close>
type_synonym handle = nat \<comment> \<open>\<open>SocketHandle\<close>\<close>

record 'c smol =
  sm_init :: "nat \<Rightarrow> 'c" \<comment> \<open>the interface with its addresses, routes and \<open>any_ip\<close>; no sockets\<close>
  sm_poll :: "int \<Rightarrow> tun_device \<Rightarrow> 'c \<Rightarrow> tun_device \<times> 'c"
  sm_poll_delay :: "int \<Rightarrow> 'c \<Rightarrow> nat option" \<comment> \<open>milliseconds\<close>
  sm_listen :: "sock_addr \<Rightarrow> 'c \<Rightarrow> (handle \<times> 'c) option" \<comment> \<open>a new socket that listens, added to the set\<close>
  sm_state :: "handle \<Rightarrow> 'c \<Rightarrow> tcp_state"
  sm_can_recv :: "handle \<Rightarrow> 'c \<Rightarrow> bool"
  sm_recv :: "handle \<Rightarrow> 'c \<Rightarrow> bytes option \<times> 'c" \<comment> \<open>the contiguous front of the receive buffer, consumed\<close>
  sm_send_slice :: "handle \<Rightarrow> bytes \<Rightarrow> 'c \<Rightarrow> nat \<times> 'c"
  sm_send_capacity :: "handle \<Rightarrow> 'c \<Rightarrow> nat"
  sm_send_queue :: "handle \<Rightarrow> 'c \<Rightarrow> nat"
  sm_recv_queue :: "handle \<Rightarrow> 'c \<Rightarrow> nat"
  sm_close :: "handle \<Rightarrow> 'c \<Rightarrow> 'c"
  sm_abort :: "handle \<Rightarrow> 'c \<Rightarrow> 'c"
  sm_remove :: "handle \<Rightarrow> 'c \<Rightarrow> 'c"

record four_tuple =
  ft_app :: sock_addr
  ft_server :: sock_addr

record tcp_flow =
  tf_handle :: handle
  tf_tuple :: four_tuple
  tf_closed_notified :: bool

record 'c net_stack =
  ns_smol :: 'c
  ns_device :: tun_device
  ns_flows :: "(flow_id, tcp_flow) hash_map"
  ns_by_tuple :: "(four_tuple, flow_id) hash_map"
  ns_next_id :: flow_id
  ns_max_flows :: nat

definition DEFAULT_MAX_FLOWS :: nat where "DEFAULT_MAX_FLOWS = 1024"

definition ns_new :: "'c smol \<Rightarrow> nat \<Rightarrow> 'c net_stack" where
  "ns_new S mtu =
     \<lparr>ns_smol = sm_init S mtu, ns_device = dev_new mtu, ns_flows = [], ns_by_tuple = [],
      ns_next_id = 1, ns_max_flows = DEFAULT_MAX_FLOWS\<rparr>"

definition set_max_flows :: "nat \<Rightarrow> 'c net_stack \<Rightarrow> 'c net_stack" where
  "set_max_flows n ns = ns\<lparr>ns_max_flows := max n 1\<rparr>"

definition active_flows :: "'c net_stack \<Rightarrow> flow_id list" where
  "active_flows ns = map fst (ns_flows ns)"

definition create_flow :: "'c smol \<Rightarrow> four_tuple \<Rightarrow> 'c net_stack \<Rightarrow> (flow_id \<times> sock_addr) option \<times> 'c net_stack" where
  "create_flow S tuple ns =
     (case sm_listen S (ft_server tuple) (ns_smol ns) of
        None \<Rightarrow> (None, ns)
      | Some (h, c) \<Rightarrow>
          let fid = ns_next_id ns
          in (Some (fid, ft_server tuple),
              ns\<lparr>ns_smol := c, ns_next_id := fid + 1,
                 ns_flows := AList.update fid \<lparr>tf_handle = h, tf_tuple = tuple, tf_closed_notified = False\<rparr> (ns_flows ns),
                 ns_by_tuple := AList.update tuple fid (ns_by_tuple ns)\<rparr>))"

definition ns_push :: "bytes \<Rightarrow> 'c net_stack \<Rightarrow> 'c net_stack" where
  "ns_push packet ns = ns\<lparr>ns_device := push_inbound packet (ns_device ns)\<rparr>"

definition on_tcp_packet :: "wire \<Rightarrow> 'c smol \<Rightarrow> bytes \<Rightarrow> 'c net_stack \<Rightarrow> (flow_id \<times> sock_addr) option \<times> 'c net_stack" where
  "on_tcp_packet W S packet ns =
     (case peek_tcp W packet of
        None \<Rightarrow> (None, ns_push packet ns)
      | Some pk \<Rightarrow>
          let tuple = \<lparr>ft_app = pk_app pk, ft_server = pk_server pk\<rparr>
          in if pk_syn pk \<and> \<not> pk_ack pk \<and> map_of (ns_by_tuple ns) tuple = None then
               if length (ns_flows ns) \<ge> ns_max_flows ns then (None, ns)
               else (let (new_flow, ns') = create_flow S tuple ns in (new_flow, ns_push packet ns'))
             else (None, ns_push packet ns))"

fun notify_closed :: "'c smol \<Rightarrow> 'c \<Rightarrow> (flow_id, tcp_flow) hash_map \<Rightarrow> (flow_id, tcp_flow) hash_map \<times> flow_id list" where
  \<comment> \<open>the loop of \<open>poll\<close>: each flow found closed is reported once\<close>
  "notify_closed S c [] = ([], [])"
| "notify_closed S c ((fid, f) # fs) =
     (let (fs', ids) = notify_closed S c fs
      in if sm_state S (tf_handle f) c = Tcp_Closed \<and> \<not> tf_closed_notified f
         then ((fid, f\<lparr>tf_closed_notified := True\<rparr>) # fs', fid # ids)
         else ((fid, f) # fs', ids))"

definition ns_poll :: "'c smol \<Rightarrow> int \<Rightarrow> 'c net_stack \<Rightarrow> flow_id list \<times> 'c net_stack" where
  \<comment> \<open>\<open>PollOutcome::closed\<close>; \<open>new_flows\<close> is never filled\<close>
  "ns_poll S now ns =
     (let (dev, c) = sm_poll S now (ns_device ns) (ns_smol ns);
          (fs, closed) = notify_closed S c (ns_flows ns)
      in (closed, ns\<lparr>ns_device := dev, ns_smol := c, ns_flows := fs\<rparr>))"

definition ns_poll_delay :: "'c smol \<Rightarrow> int \<Rightarrow> 'c net_stack \<Rightarrow> nat option" where
  "ns_poll_delay S now ns = sm_poll_delay S now (ns_smol ns)"

fun recv_loop :: "'c smol \<Rightarrow> handle \<Rightarrow> nat \<Rightarrow> 'c \<Rightarrow> bytes \<times> 'c" where
  \<comment> \<open>the loop of \<open>tcp_take_app_data\<close>; each turn consumes a byte at least, so as many turns as
     queued bytes are enough\<close>
  "recv_loop S h 0 c = ([], c)"
| "recv_loop S h (Suc n) c =
     (if sm_can_recv S h c then
        case sm_recv S h c of
          (Some chunk, c') \<Rightarrow>
            if chunk = [] then ([], c')
            else (let (out, c'') = recv_loop S h n c' in (chunk @ out, c''))
        | (None, c') \<Rightarrow> ([], c')
      else ([], c))"

definition tcp_take_app_data :: "'c smol \<Rightarrow> flow_id \<Rightarrow> 'c net_stack \<Rightarrow> bytes \<times> 'c net_stack" where
  "tcp_take_app_data S fid ns =
     (case map_of (ns_flows ns) fid of
        None \<Rightarrow> ([], ns)
      | Some f \<Rightarrow> (let (data, c) = recv_loop S (tf_handle f) (Suc (sm_recv_queue S (tf_handle f) (ns_smol ns))) (ns_smol ns)
                 in (data, ns\<lparr>ns_smol := c\<rparr>)))"

definition tcp_send_to_app :: "'c smol \<Rightarrow> flow_id \<Rightarrow> bytes \<Rightarrow> 'c net_stack \<Rightarrow> nat \<times> 'c net_stack" where
  "tcp_send_to_app S fid data ns =
     (case map_of (ns_flows ns) fid of
        None \<Rightarrow> (0, ns)
      | Some f \<Rightarrow> (let (n, c) = sm_send_slice S (tf_handle f) data (ns_smol ns) in (n, ns\<lparr>ns_smol := c\<rparr>)))"

definition tcp_send_space :: "'c smol \<Rightarrow> flow_id \<Rightarrow> 'c net_stack \<Rightarrow> nat" where
  "tcp_send_space S fid ns =
     (case map_of (ns_flows ns) fid of
        None \<Rightarrow> 0
      | Some f \<Rightarrow> sm_send_capacity S (tf_handle f) (ns_smol ns) - sm_send_queue S (tf_handle f) (ns_smol ns))"

definition tcp_app_finished :: "'c smol \<Rightarrow> flow_id \<Rightarrow> 'c net_stack \<Rightarrow> bool" where
  "tcp_app_finished S fid ns =
     (case map_of (ns_flows ns) fid of
        None \<Rightarrow> True
      | Some f \<Rightarrow>
          sm_state S (tf_handle f) (ns_smol ns) \<in> {Tcp_CloseWait, Tcp_LastAck, Tcp_Closing, Tcp_TimeWait, Tcp_Closed}
          \<and> sm_recv_queue S (tf_handle f) (ns_smol ns) = 0)"

definition tcp_close_app :: "'c smol \<Rightarrow> flow_id \<Rightarrow> 'c net_stack \<Rightarrow> 'c net_stack" where
  "tcp_close_app S fid ns =
     (case map_of (ns_flows ns) fid of
        None \<Rightarrow> ns
      | Some f \<Rightarrow> ns\<lparr>ns_smol := sm_close S (tf_handle f) (ns_smol ns)\<rparr>)"

definition tcp_abort :: "'c smol \<Rightarrow> flow_id \<Rightarrow> 'c net_stack \<Rightarrow> 'c net_stack" where
  "tcp_abort S fid ns =
     (case map_of (ns_flows ns) fid of
        None \<Rightarrow> ns
      | Some f \<Rightarrow> ns\<lparr>ns_smol := sm_abort S (tf_handle f) (ns_smol ns)\<rparr>)"

definition remove_flow :: "'c smol \<Rightarrow> flow_id \<Rightarrow> 'c net_stack \<Rightarrow> 'c net_stack" where
  "remove_flow S fid ns =
     (case map_of (ns_flows ns) fid of
        None \<Rightarrow> ns
      | Some f \<Rightarrow>
          ns\<lparr>ns_flows := AList.delete fid (ns_flows ns), ns_smol := sm_remove S (tf_handle f) (ns_smol ns),
             ns_by_tuple := AList.delete (tf_tuple f) (ns_by_tuple ns)\<rparr>)"

definition drain_outbound :: "'c net_stack \<Rightarrow> bytes list \<times> 'c net_stack" where
  \<comment> \<open>every queued packet goes to the sink, in order\<close>
  "drain_outbound ns =
     (dev_outbound (ns_device ns), ns\<lparr>ns_device := (ns_device ns)\<lparr>dev_outbound := []\<rparr>\<rparr>)"

subsection \<open>The flow tables\<close>

datatype ns_op =
    Ns_Packet bytes | Ns_Poll int | Ns_Take flow_id | Ns_Send flow_id bytes | Ns_Close flow_id
  | Ns_Abort flow_id | Ns_Remove flow_id | Ns_Drain

fun ns_step :: "wire \<Rightarrow> 'c smol \<Rightarrow> ns_op \<Rightarrow> 'c net_stack \<Rightarrow> (flow_id list \<times> flow_id list) \<times> 'c net_stack" where
  \<comment> \<open>the flows an operation opens and those it reports closed\<close>
  "ns_step W S (Ns_Packet p) ns =
     (case on_tcp_packet W S p ns of (r, ns') \<Rightarrow>
        ((case r of None \<Rightarrow> [] | Some (fid, _) \<Rightarrow> [fid], []), ns'))"
| "ns_step W S (Ns_Poll now) ns = (case ns_poll S now ns of (closed, ns') \<Rightarrow> (([], closed), ns'))"
| "ns_step W S (Ns_Take fid) ns = (([], []), snd (tcp_take_app_data S fid ns))"
| "ns_step W S (Ns_Send fid data) ns = (([], []), snd (tcp_send_to_app S fid data ns))"
| "ns_step W S (Ns_Close fid) ns = (([], []), tcp_close_app S fid ns)"
| "ns_step W S (Ns_Abort fid) ns = (([], []), tcp_abort S fid ns)"
| "ns_step W S (Ns_Remove fid) ns = (([], []), remove_flow S fid ns)"
| "ns_step W S Ns_Drain ns = (([], []), snd (drain_outbound ns))"

fun ns_run :: "wire \<Rightarrow> 'c smol \<Rightarrow> ns_op list \<Rightarrow> 'c net_stack \<Rightarrow> (flow_id list \<times> flow_id list) \<times> 'c net_stack" where
  "ns_run W S [] ns = (([], []), ns)"
| "ns_run W S (a # as) ns =
     (let ((o1, c1), ns') = ns_step W S a ns; ((o2, c2), ns'') = ns_run W S as ns' in ((o1 @ o2, c1 @ c2), ns''))"

definition tables_ok :: "'c net_stack \<Rightarrow> bool" where
  "tables_ok ns \<longleftrightarrow> hm_inv (ns_flows ns) \<and> hm_inv (ns_by_tuple ns) \<and> length (ns_flows ns) \<le> ns_max_flows ns
     \<and> (\<forall>t fid. map_of (ns_by_tuple ns) t = Some fid
          \<longleftrightarrow> (\<exists>f. map_of (ns_flows ns) fid = Some f \<and> tf_tuple f = t))
     \<and> (\<forall>fid\<in>dom (map_of (ns_flows ns)). fid < ns_next_id ns)"

definition closing :: "'c net_stack \<Rightarrow> flow_id set" where
  \<comment> \<open>the flows that may still be reported closed\<close>
  "closing ns = {fid. \<exists>f. map_of (ns_flows ns) fid = Some f \<and> \<not> tf_closed_notified f}"

lemma tables_okD:
  assumes "tables_ok ns"
  shows "hm_inv (ns_flows ns)" and "map_of (ns_flows ns) fid = Some f \<Longrightarrow> map_of (ns_by_tuple ns) (tf_tuple f) = Some fid"
    and "map_of (ns_flows ns) fid = Some f \<Longrightarrow> fid < ns_next_id ns"
  using assms by (auto simp: tables_ok_def)

definition newly_closed :: "'c smol \<Rightarrow> 'c \<Rightarrow> tcp_flow \<Rightarrow> bool" where
  "newly_closed S c f \<longleftrightarrow> sm_state S (tf_handle f) c = Tcp_Closed \<and> \<not> tf_closed_notified f"

definition mark_closed :: "'c smol \<Rightarrow> 'c \<Rightarrow> tcp_flow \<Rightarrow> tcp_flow" where
  "mark_closed S c f = (if newly_closed S c f then f\<lparr>tf_closed_notified := True\<rparr> else f)"

lemma notify_closed_eq:
  "notify_closed S c fs = (map (\<lambda>(fid, f). (fid, mark_closed S c f)) fs, map fst (filter (\<lambda>(_, f). newly_closed S c f) fs))"
  by (induction S c fs rule: notify_closed.induct) (auto simp: Let_def newly_closed_def mark_closed_def)

lemma mark_closed_tuple [simp]: "tf_tuple (mark_closed S c f) = tf_tuple f"
  by (simp add: mark_closed_def)

lemma map_of_mark: "map_of (map (\<lambda>(fid, f). (fid, mark_closed S c f)) fs) fid = map_option (mark_closed S c) (map_of fs fid)"
  by (simp add: map_of_map)

text \<open>What a single operation does to the tables.\<close>

definition op_ok :: "'c net_stack \<Rightarrow> flow_id list \<Rightarrow> flow_id list \<Rightarrow> 'c net_stack \<Rightarrow> bool" where
  "op_ok ns opened closed ns' \<longleftrightarrow> tables_ok ns' \<and> ns_max_flows ns' = ns_max_flows ns
     \<and> opened = [ns_next_id ns ..< ns_next_id ns'] \<and> ns_next_id ns \<le> ns_next_id ns'
     \<and> set closed \<subseteq> closing ns \<and> distinct closed
     \<and> closing ns' \<subseteq> (closing ns - set closed) \<union> set opened"

lemma op_ok_idle:
  assumes "tables_ok ns" and "ns_flows ns' = ns_flows ns" and "ns_by_tuple ns' = ns_by_tuple ns"
    and "ns_next_id ns' = ns_next_id ns" and "ns_max_flows ns' = ns_max_flows ns"
  shows "op_ok ns [] [] ns'"
  using assms by (simp add: op_ok_def tables_ok_def closing_def)

lemma op_ok_new_flow:
  assumes ok: "tables_ok ns" and room: "length (ns_flows ns) < ns_max_flows ns"
    and new: "map_of (ns_by_tuple ns) t = None" and unmarked: "\<not> tf_closed_notified f" and t: "tf_tuple f = t"
    and ns': "ns_flows ns' = AList.update (ns_next_id ns) f (ns_flows ns)"
      "ns_by_tuple ns' = AList.update t (ns_next_id ns) (ns_by_tuple ns)"
      "ns_next_id ns' = ns_next_id ns + 1" "ns_max_flows ns' = ns_max_flows ns"
  shows "op_ok ns [ns_next_id ns] [] ns'"
proof -
  have fresh: "map_of (ns_flows ns) (ns_next_id ns) = None"
    using tables_okD(3)[OF ok] by (cases "map_of (ns_flows ns) (ns_next_id ns)") auto
  then have "ns_next_id ns \<notin> fst ` set (ns_flows ns)" by (simp add: map_of_eq_None_iff)
  then have "length (ns_flows ns') \<le> ns_max_flows ns'" using room by (simp add: ns' length_update)
  moreover have "\<forall>t' fid. map_of (ns_by_tuple ns') t' = Some fid \<longleftrightarrow> (\<exists>g. map_of (ns_flows ns') fid = Some g \<and> tf_tuple g = t')"
  proof (intro allI)
    fix t' fid
    have old: "map_of (ns_by_tuple ns) t' = Some fid \<longleftrightarrow> (\<exists>g. map_of (ns_flows ns) fid = Some g \<and> tf_tuple g = t')"
      and unused: "map_of (ns_flows ns) fid = Some g \<Longrightarrow> tf_tuple g \<noteq> t" for g
      using ok new unfolding tables_ok_def by (simp, metis option.distinct(1))
    show "map_of (ns_by_tuple ns') t' = Some fid \<longleftrightarrow> (\<exists>g. map_of (ns_flows ns') fid = Some g \<and> tf_tuple g = t')"
      using old unused t fresh by (auto simp: ns')
  qed
  ultimately have "tables_ok ns'"
    using ok by (auto simp: tables_ok_def ns' less_Suc_eq)
  then show ?thesis by (auto simp: op_ok_def ns' closing_def)
qed

lemma op_ok_packet:
  assumes "tables_ok ns" and "on_tcp_packet W S p ns = (r, ns')"
  shows "op_ok ns (case r of None \<Rightarrow> [] | Some (fid, _) \<Rightarrow> [fid]) [] ns'"
proof (cases "\<exists>pk. peek_tcp W p = Some pk \<and> pk_syn pk \<and> \<not> pk_ack pk \<and> length (ns_flows ns) < ns_max_flows ns
    \<and> map_of (ns_by_tuple ns) \<lparr>ft_app = pk_app pk, ft_server = pk_server pk\<rparr> = None")
  case False
  then show ?thesis using assms
    by (auto simp: on_tcp_packet_def ns_push_def Let_def split: option.split_asm if_split_asm intro!: op_ok_idle)
next
  case True
  then obtain pk where pk: "peek_tcp W p = Some pk" "pk_syn pk" "\<not> pk_ack pk" "length (ns_flows ns) < ns_max_flows ns"
      "map_of (ns_by_tuple ns) \<lparr>ft_app = pk_app pk, ft_server = pk_server pk\<rparr> = None" by blast
  show ?thesis
  proof (cases "sm_listen S (pk_server pk) (ns_smol ns)")
    case None
    with assms pk show ?thesis
      by (auto simp: on_tcp_packet_def create_flow_def ns_push_def Let_def intro!: op_ok_idle)
  next
    case (Some hc)
    let ?t = "\<lparr>ft_app = pk_app pk, ft_server = pk_server pk\<rparr>"
    obtain h c where hc: "hc = (h, c)" by force
    have ns': "ns' = ns_push p (ns\<lparr>ns_smol := c, ns_next_id := ns_next_id ns + 1,
        ns_flows := AList.update (ns_next_id ns) \<lparr>tf_handle = h, tf_tuple = ?t, tf_closed_notified = False\<rparr> (ns_flows ns),
        ns_by_tuple := AList.update ?t (ns_next_id ns) (ns_by_tuple ns)\<rparr>)" and r: "r = Some (ns_next_id ns, pk_server pk)"
      using assms(2) pk Some hc by (auto simp: on_tcp_packet_def create_flow_def Let_def)
    show ?thesis
      using op_ok_new_flow[OF assms(1) pk(4) pk(5), where f = "\<lparr>tf_handle = h, tf_tuple = ?t, tf_closed_notified = False\<rparr>" and ns' = ns']
      by (simp add: ns' r ns_push_def)
  qed
qed

lemma op_ok_poll:
  assumes ok: "tables_ok ns" and p: "ns_poll S now ns = (closed, ns')"
  shows "op_ok ns [] closed ns'"
proof -
  obtain dev c where c: "sm_poll S now (ns_device ns) (ns_smol ns) = (dev, c)" by force
  have closed: "closed = map fst (filter (\<lambda>(_, f). newly_closed S c f) (ns_flows ns))"
    and ns': "ns' = ns\<lparr>ns_device := dev, ns_smol := c, ns_flows := map (\<lambda>(fid, f). (fid, mark_closed S c f)) (ns_flows ns)\<rparr>"
    using p by (auto simp: ns_poll_def c notify_closed_eq)
  have keys: "map fst (ns_flows ns') = map fst (ns_flows ns)" by (simp add: ns' case_prod_unfold comp_def)
  have look: "map_of (ns_flows ns') fid = map_option (mark_closed S c) (map_of (ns_flows ns) fid)" for fid
    by (simp add: ns' map_of_mark)
  have d: "distinct (map fst (ns_flows ns))" using tables_okD(1)[OF ok] by (simp add: hm_inv_def)
  have len: "length (ns_flows ns') = length (ns_flows ns)" by (simp add: ns')
  have t: "tables_ok ns'"
  proof -
    have "hm_inv (ns_flows ns')" using d keys by (simp add: hm_inv_def)
    moreover have "\<forall>fid\<in>dom (map_of (ns_flows ns')). fid < ns_next_id ns'"
      using tables_okD(3)[OF ok] unfolding dom_def look by (auto simp: ns')
    moreover have "(\<exists>g. map_of (ns_flows ns') fid = Some g \<and> tf_tuple g = t)
        = (\<exists>g. map_of (ns_flows ns) fid = Some g \<and> tf_tuple g = t)" for fid t
      by (auto simp: look)
    ultimately show ?thesis using ok len by (simp add: tables_ok_def ns')
  qed
  have in_closed: "fid \<in> set closed \<longleftrightarrow> (\<exists>f. map_of (ns_flows ns) fid = Some f \<and> newly_closed S c f)" for fid
    using d by (force simp: closed)
  have "closing ns' \<subseteq> closing ns - set closed"
    by (auto simp: closing_def in_closed look mark_closed_def newly_closed_def split: if_splits
        dest: arg_cong[of _ _ tf_closed_notified])
  moreover have "set closed \<subseteq> closing ns" by (auto simp: in_closed closing_def newly_closed_def)
  moreover have "distinct closed" using d by (simp add: closed distinct_map_filter)
  ultimately show ?thesis using t by (simp add: op_ok_def ns')
qed

lemma op_ok_remove:
  assumes ok: "tables_ok ns"
  shows "op_ok ns [] [] (remove_flow S fid ns)"
proof (cases "map_of (ns_flows ns) fid")
  case None
  with ok show ?thesis by (auto simp: remove_flow_def intro: op_ok_idle)
next
  case (Some f)
  let ?ns = "remove_flow S fid ns"
  have ns': "ns_flows ?ns = AList.delete fid (ns_flows ns)" "ns_by_tuple ?ns = AList.delete (tf_tuple f) (ns_by_tuple ns)"
    "ns_next_id ?ns = ns_next_id ns" "ns_max_flows ?ns = ns_max_flows ns"
    using Some by (simp_all add: remove_flow_def)
  have "length (ns_flows ?ns) \<le> ns_max_flows ns"
    using ok length_delete_le[of fid "ns_flows ns"] by (auto simp: ns' tables_ok_def)
  moreover have "\<forall>t fid'. map_of (ns_by_tuple ?ns) t = Some fid' \<longleftrightarrow> (\<exists>g. map_of (ns_flows ?ns) fid' = Some g \<and> tf_tuple g = t)"
    using ok Some unfolding ns' tables_ok_def by auto (metis option.inject)+
  ultimately have "tables_ok ?ns" using ok by (auto simp: tables_ok_def ns')
  then show ?thesis by (auto simp: op_ok_def ns' closing_def)
qed

lemma op_ok_take: "tables_ok ns \<Longrightarrow> op_ok ns [] [] (snd (tcp_take_app_data S fid ns))"
  by (intro op_ok_idle) (auto simp: tcp_take_app_data_def split: option.splits prod.splits)

lemma op_ok_send: "tables_ok ns \<Longrightarrow> op_ok ns [] [] (snd (tcp_send_to_app S fid data ns))"
  by (intro op_ok_idle) (auto simp: tcp_send_to_app_def split: option.splits prod.splits)

lemma op_ok_mark: "tables_ok ns \<Longrightarrow> op_ok ns [] [] (tcp_close_app S fid ns)" "tables_ok ns \<Longrightarrow> op_ok ns [] [] (tcp_abort S fid ns)"
  by (intro op_ok_idle; auto simp: tcp_close_app_def tcp_abort_def split: option.splits)+

lemma op_ok_drain: "tables_ok ns \<Longrightarrow> op_ok ns [] [] (snd (drain_outbound ns))"
  by (intro op_ok_idle) (auto simp: drain_outbound_def)

lemma op_ok_step:
  assumes "tables_ok ns" and "ns_step W S a ns = ((opened, closed), ns')"
  shows "op_ok ns opened closed ns'"
  using assms
  by (cases a)
    (auto simp: op_ok_poll op_ok_remove op_ok_take op_ok_send op_ok_mark op_ok_drain dest: op_ok_packet split: prod.splits)

lemma upt_join: "i \<le> j \<Longrightarrow> j \<le> k \<Longrightarrow> [i..<j] @ [j..<k] = [i..<k]"
  using upt_add_eq_append[of i j "k - j"] by simp

lemma ns_run_ok:
  assumes "tables_ok ns" and "ns_run W S as ns = ((opened, closed), ns')"
  shows "tables_ok ns' \<and> ns_max_flows ns' = ns_max_flows ns \<and> opened = [ns_next_id ns ..< ns_next_id ns']
    \<and> distinct closed \<and> set closed \<subseteq> closing ns \<union> set opened \<and> ns_next_id ns \<le> ns_next_id ns'"
  using assms
proof (induction as arbitrary: ns opened closed)
  case Nil
  then show ?case by simp
next
  case (Cons a as)
  obtain o1 c1 ns1 where a: "ns_step W S a ns = ((o1, c1), ns1)" by (metis prod.collapse)
  obtain o2 c2 ns2 where r: "ns_run W S as ns1 = ((o2, c2), ns2)" by (metis prod.collapse)
  have eqs: "opened = o1 @ o2" "closed = c1 @ c2" "ns' = ns2" using Cons.prems(2) a r by auto
  have s: "op_ok ns o1 c1 ns1" using op_ok_step[OF Cons.prems(1) a] .
  then have t1: "tables_ok ns1" by (simp add: op_ok_def)
  have r': "ns_run W S as ns1 = ((o2, c2), ns')" using r eqs(3) by simp
  note ih = Cons.IH[OF t1 r']
  have o1: "o1 = [ns_next_id ns ..< ns_next_id ns1]" using s by (simp add: op_ok_def)
  have old: "closing ns \<subseteq> {..<ns_next_id ns}"
    using tables_okD(3)[OF Cons.prems(1)] by (auto simp: closing_def)
  have le: "ns_next_id ns \<le> ns_next_id ns1" using s by (simp add: op_ok_def)
  have "set c1 \<inter> set c2 = {}"
    using s ih old le by (fastforce simp: op_ok_def)
  moreover have "set c2 \<subseteq> closing ns \<union> {ns_next_id ns ..< ns_next_id ns'}"
  proof
    fix x assume "x \<in> set c2"
    then have "x \<in> closing ns1 \<or> x \<in> set o2" using ih by auto
    then show "x \<in> closing ns \<union> {ns_next_id ns ..< ns_next_id ns'}"
      using s ih le by (auto simp: op_ok_def)
  qed
  ultimately show ?case
    using s ih le upt_join[of "ns_next_id ns" "ns_next_id ns1" "ns_next_id ns'"] unfolding eqs(1,2) op_ok_def
    by auto
qed

lemma tables_ok_new [simp]: "tables_ok (ns_new S mtu)"
  by (simp add: tables_ok_def ns_new_def)

text \<open>Whatever packets arrive, in any order, and whatever smoltcp does with its sockets, the two
  tables of the stack stay inverse to each other, hold at most 1024 flows, every connection gets an
  identifier that was never used before, and every flow is reported closed at most once and only
  after it was opened.\<close>

theorem stack_tables_consistent:
  "case ns_run W S as (ns_new S mtu) of ((opened, closed), ns) \<Rightarrow>
     tables_ok ns \<and> length (ns_flows ns) \<le> DEFAULT_MAX_FLOWS
     \<and> distinct opened \<and> distinct closed \<and> set closed \<subseteq> set opened"
proof -
  obtain opened closed ns where r: "ns_run W S as (ns_new S mtu) = ((opened, closed), ns)" by (metis prod.collapse)
  from ns_run_ok[OF tables_ok_new r] r show ?thesis
    by (auto simp: ns_new_def closing_def tables_ok_def)
qed

end
