(* ===== verification/Pcap.thy ===== *)
theory Pcap
  imports Adw_Prelude
begin

section \<open>The packet capture writer\<close>

text \<open>
  The crate \<open>pcap\<close>: a writer of pcapng blocks with an optional cap on the bytes written. The block
  encoder is a third-party package: \<open>wr blocks b\<close> is how many bytes it writes for block \<open>b\<close> after
  the blocks \<open>blocks\<close>, \<open>None\<close> an I/O error. A \<open>u64\<close> count of written bytes is a \<open>nat\<close>.
\<close>

datatype pcap_block =
    Pb_Interface nat
  | Pb_Packet nat nat bytes \<comment> \<open>time stamp, original length, captured bytes\<close>
  | Pb_Unknown nat bytes \<comment> \<open>block type, body\<close>

record pcap_writer =
  pw_blocks :: "pcap_block list"
  pw_snaplen :: nat
  pw_written :: nat
  pw_cap :: "nat option"
  pw_stopped :: bool

type_synonym block_writer = "pcap_block list \<Rightarrow> pcap_block \<Rightarrow> nat option"

definition DECRYPTION_SECRETS_BLOCK :: nat where "DECRYPTION_SECRETS_BLOCK = 0x0A"
definition SECRETS_TYPE_TLS_KEYLOG :: nat where "SECRETS_TYPE_TLS_KEYLOG = 0x544C534B"

definition pw_new :: "block_writer \<Rightarrow> nat \<Rightarrow> nat option \<Rightarrow> pcap_writer option" where
  "pw_new wr snaplen cap =
     (case wr [] (Pb_Interface snaplen) of
        None \<Rightarrow> None
      | Some n \<Rightarrow> Some \<lparr>pw_blocks = [Pb_Interface snaplen], pw_snaplen = snaplen, pw_written = n,
                        pw_cap = cap, pw_stopped = False\<rparr>)"

definition pw_block :: "block_writer \<Rightarrow> pcap_block \<Rightarrow> pcap_writer \<Rightarrow> pcap_writer" where
  \<comment> \<open>the common tail of both writers: on an error nothing is counted\<close>
  "pw_block wr b w =
     (case wr (pw_blocks w) b of
        None \<Rightarrow> w
      | Some n \<Rightarrow>
          let written = pw_written w + n
          in w\<lparr>pw_blocks := pw_blocks w @ [b], pw_written := written,
               pw_stopped := ((case pw_cap w of Some cap \<Rightarrow> written \<ge> cap | None \<Rightarrow> False) \<or> pw_stopped w)\<rparr>)"

definition write_tls_secrets :: "block_writer \<Rightarrow> bytes \<Rightarrow> pcap_writer \<Rightarrow> pcap_writer" where
  "write_tls_secrets wr keylog w =
     (if pw_stopped w \<or> keylog = [] then w
      else pw_block wr (Pb_Unknown DECRYPTION_SECRETS_BLOCK
             (le_bytes 4 SECRETS_TYPE_TLS_KEYLOG @ le_bytes 4 (length keylog) @ keylog)) w)"

definition write_packet :: "block_writer \<Rightarrow> nat \<Rightarrow> bytes \<Rightarrow> pcap_writer \<Rightarrow> pcap_writer" where
  "write_packet wr ts packet w =
     (if pw_stopped w then w
      else
        let cap_len = min (length packet) (pw_snaplen w)
        in pw_block wr (Pb_Packet ts (length packet mod 2 ^ 32) (take cap_len packet)) w)"

definition bytes_written :: "pcap_writer \<Rightarrow> nat" where
  "bytes_written w = pw_written w"

definition is_full :: "pcap_writer \<Rightarrow> bool" where
  "is_full w = pw_stopped w"

subsection \<open>The cap\<close>

datatype pcap_op = Pc_Packet nat bytes | Pc_Secrets bytes

fun pcap_step :: "block_writer \<Rightarrow> pcap_op \<Rightarrow> pcap_writer \<Rightarrow> pcap_writer" where
  "pcap_step wr (Pc_Packet ts p) w = write_packet wr ts p w"
| "pcap_step wr (Pc_Secrets k) w = write_tls_secrets wr k w"

definition block_room :: "nat \<Rightarrow> pcap_writer \<Rightarrow> bool" where
  \<comment> \<open>\<open>B\<close> bounds the size of a block\<close>
  "block_room B w \<longleftrightarrow> (case pw_cap w of None \<Rightarrow> True
     | Some cap \<Rightarrow> pw_written w < max cap B + B \<and> (pw_written w \<ge> cap \<longrightarrow> pw_stopped w \<or> length (pw_blocks w) = 1))"

end
