(* ===== verification/Filter_Engine.thy ===== *)
theory Filter_Engine
  imports Adw_Prelude "HOL-Library.List_Lexorder"
begin

section \<open>The filter engine's wrapper\<close>

text \<open>
  The crate \<open>filter\<close>: what the datapath asks of the compiled filter lists. The matcher is a
  third-party package, so an engine is the record of its answers: whether a network request for an
  URL matches (\<open>None\<close> where the URL does not parse) and the cosmetic resources of an URL, the
  element-hiding selectors (a set) and the script to inject.
\<close>

record filter_engine =
  fe_check :: "bytes \<Rightarrow> bool option"
  fe_selectors :: "bytes \<Rightarrow> bytes set"
  fe_script :: "bytes \<Rightarrow> bytes"

definition host_url :: "bytes \<Rightarrow> bytes" where
  "host_url host = asc ''https://'' @ host @ asc ''/''"

definition is_blocked_domain :: "filter_engine \<Rightarrow> bytes \<Rightarrow> bool" where
  "is_blocked_domain e domain = (case fe_check e (host_url domain) of Some m \<Rightarrow> m | None \<Rightarrow> False)"

fun join_comma :: "bytes list \<Rightarrow> bytes" where
  "join_comma [] = []"
| "join_comma [s] = s"
| "join_comma (s # ss) = s @ [44] @ join_comma ss"

definition cosmetic_css :: "filter_engine \<Rightarrow> bytes \<Rightarrow> bytes" where
  \<comment> \<open>the selectors in byte order, folded into one rule\<close>
  "cosmetic_css e host =
     (let sels = fe_selectors e (host_url host)
      in if sels = {} then []
         else join_comma (sorted_list_of_set sels) @ asc ''{display:none!important;}'')"

definition scriptlets_js :: "filter_engine \<Rightarrow> bytes \<Rightarrow> bytes" where
  "scriptlets_js e host = fe_script e (host_url host)"

end
