(* ===== verification/Fw_State.thy ===== *)
theory Fw_State
  imports Fw_Policy Net_Stack Pcap Filter_Engine Flow_Table Packet Event_Codec
    Http_Forward Http_Tap Dns_Filter
begin

section \<open>The forwarder's state\<close>

text \<open>
  The state of \<open>forward.rs\<close>, its settings, its per-flow records and the calls it makes outside the
  program. Everything the code does not contain is a field of \<open>sys\<close>: smoltcp, rustls, the splice of
  the TLS crate (\<open>mitm_ops\<close>), and the operating system. An answer of the operating system (a socket
  call succeeded, these bytes were received, this many were accepted) is a function of the number of
  calls made before, \<open>fw_calls\<close>: the properties hold for every such function, so for every behaviour
  of the environment. What the program does to the outside (connects, datagrams, bytes written,
  sockets closed) is recorded in \<open>fw_trace\<close>, which no operation reads.

  A receive call returns all bytes the kernel holds and how the stream then continues; a loop of
  \<open>read\<close>s until \<open>WouldBlock\<close> is then a single call, and a loop that stops earlier takes a part. A panic
  of the code sets \<open>fw_panic\<close>: the datapath thread is gone.
\<close>

subsection \<open>The outside\<close>

datatype recv_end = Rx_Open | Rx_Eof | Rx_Error \<comment> \<open>\<open>WouldBlock\<close>, \<open>Ok(0)\<close>, any other error\<close>

datatype write_result = Wr_Ok nat | Wr_Block | Wr_Error

type_synonym sock = nat \<comment> \<open>a socket is named by the number of the call that made it\<close>

datatype effect =
    E_Connect sock sock_addr \<comment> \<open>a TCP connect\<close>
  | E_Udp_Connect sock sock_addr
  | E_Relay_Connect sock sock_addr \<comment> \<open>the relay socket of a SOCKS association\<close>
  | E_Send sock bytes \<comment> \<open>a datagram\<close>
  | E_Write sock bytes \<comment> \<open>stream bytes accepted by the socket or by the TLS session on it\<close>
  | E_Shutdown sock
  | E_Deregister sock

record mitm_io =
  mi_to_app :: bytes
  mi_to_upstream :: bytes
  mi_closed :: bool

record 'm mitm_ops =
  mo_build :: "bytes \<Rightarrow> bytes \<Rightarrow> bool" \<comment> \<open>the CA certificate and key load\<close>
  mo_new :: "dns_kind option \<Rightarrow> nat \<Rightarrow> 'm option" \<comment> \<open>\<open>new_splice\<close>, \<open>new_splice_dns\<close>\<close>
  mo_key_log :: "nat \<Rightarrow> bytes"
  mo_is_dns :: "'m \<Rightarrow> bool"
  mo_take_blocked :: "'m \<Rightarrow> bytes list \<times> 'm"
  mo_set_cosmetic :: "bytes \<Rightarrow> bytes \<Rightarrow> 'm \<Rightarrow> 'm"
  mo_host :: "'m \<Rightarrow> bytes option"
  mo_cert_rejected :: "'m \<Rightarrow> bool"
  mo_take_transactions :: "'m \<Rightarrow> transaction list \<times> 'm"
  mo_recv_from_app :: "bytes \<Rightarrow> 'm \<Rightarrow> 'm"
  mo_recv_from_upstream :: "bytes \<Rightarrow> 'm \<Rightarrow> 'm"
  mo_pump :: "'m \<Rightarrow> mitm_io \<times> 'm"
  mo_pump_dns :: "(bytes \<Rightarrow> bool) \<Rightarrow> 'm \<Rightarrow> (mitm_io \<times> 'm) option" \<comment> \<open>\<open>None\<close>: a panic\<close>
  mo_finish :: "'m \<Rightarrow> 'm"

record ('c, 'm) sys =
  sy_wire :: wire
  sy_smol :: "'c smol"
  sy_mitm :: "'m mitm_ops"
  sy_pcap :: block_writer
  sy_ok :: "nat \<Rightarrow> bool" \<comment> \<open>a fallible call succeeds\<close>
  sy_flag :: "nat \<Rightarrow> bool" \<comment> \<open>\<open>is_handshaking\<close>, \<open>wants_write\<close>, \<open>take_error\<close>\<close>
  sy_uid :: "nat \<Rightarrow> i32"
  sy_now :: "nat \<Rightarrow> int" \<comment> \<open>milliseconds since the start\<close>
  sy_unix :: "nat \<Rightarrow> nat"
  sy_recv :: "nat \<Rightarrow> bytes \<times> recv_end"
  sy_dgrams :: "nat \<Rightarrow> bytes list" \<comment> \<open>the datagrams before \<open>WouldBlock\<close> or an error\<close>
  sy_write :: "nat \<Rightarrow> write_result"
  sy_resolve :: "bytes \<Rightarrow> u16 \<Rightarrow> sock_addr option"
  sy_engine :: "bytes \<Rightarrow> bytes option \<Rightarrow> filter_engine option option"
    \<comment> \<open>the engine of a cache file, \<open>Some None\<close> where it does not decode, \<open>None\<close> where it cannot be read\<close>

subsection \<open>Flows and jobs\<close>

record udp_key =
  uk_app :: sock_addr
  uk_server :: sock_addr

type_synonym token = nat

datatype route =
    Route_Tcp flow_id | Route_Udp udp_key | Route_SocksCtrl udp_key | Route_SocksRelay udp_key
  | Route_DnsTcp | Route_DnsTls

datatype classify = Settled | PendingSni bytes

datatype upstream_io = Io_Plain sock | Io_Tls sock

fun io_sock :: "upstream_io \<Rightarrow> sock" where
  \<comment> \<open>\<open>UpstreamIo::source\<close>\<close>
  "io_sock (Io_Plain s) = s"
| "io_sock (Io_Tls s) = s"

record 'm tcp_upstream =
  up_io :: upstream_io
  up_handshake :: "handshake option"
  up_hs_out :: bytes
  up_token :: token
  up_connecting :: bool
  up_to_upstream :: bytes
  up_write_closed :: bool
  up_mitm :: "'m option"
  up_to_app :: bytes
  up_uid :: i32
  up_server :: sock_addr
  up_pin_reported :: bool
  up_cosmetic_set :: bool
  up_sni_reported :: bool
  up_classify :: classify
  up_opened_ms :: int
  up_http_forward :: "http_forward option"

record udp_session =
  us_socket :: sock
  us_token :: token
  us_app :: sock_addr
  us_server :: sock_addr
  us_last_used_ms :: int

record socks_session =
  ss_ctrl :: sock
  ss_ctrl_token :: token
  ss_ctrl_connecting :: bool
  ss_handshake :: "handshake option"
  ss_hs_out :: bytes
  ss_relay :: sock
  ss_relay_token :: token
  ss_app :: sock_addr
  ss_reply_src :: sock_addr
  ss_target :: sock_addr
  ss_pending :: "bytes list"
  ss_ready :: bool
  ss_last_used_ms :: int

record dns_tcp_job =
  dj_io :: upstream_io
  dj_connecting :: bool
  dj_handshake :: "handshake option"
  dj_hs_out :: bytes
  dj_to_send :: bytes
  dj_query_sent :: bool
  dj_resp_buf :: bytes
  dj_app :: sock_addr
  dj_reply_src :: sock_addr
  dj_created_ms :: int

datatype dns_tls_mode = Mode_Dot | Mode_Doh

record dns_tls_job =
  tj_io :: upstream_io
  tj_connecting :: bool
  tj_mode :: dns_tls_mode
  tj_to_send :: bytes
  tj_query_sent :: bool
  tj_resp_buf :: bytes
  tj_app :: sock_addr
  tj_reply_src :: sock_addr
  tj_created_ms :: int

record coarse_accum =
  ca_packets :: nat
  ca_bytes :: nat
  ca_tcp :: nat
  ca_udp :: nat
  ca_dns :: nat

record fw_stats =
  st_tun_in :: nat
  st_tcp_new :: nat
  st_udp_new :: nat
  st_protect_ok :: nat
  st_protect_fail :: nat
  st_connect_fail :: nat
  st_upstream_reply :: nat
  st_out_written :: nat
  st_uid_lookups :: nat
  st_blocked :: nat
  st_mitm_new :: nat
  st_pinned :: nat
  st_proxy_ok :: nat
  st_proxy_fail :: nat
  st_fail_closed :: nat

record verdict =
  vd_blocked :: bool
  vd_uid :: i32

definition VERDICT_CACHE_CAP :: nat where "VERDICT_CACHE_CAP = 4096"
definition MITM_APP_BUF_CAP :: nat where "MITM_APP_BUF_CAP = 256 * 1024"
definition HAR_MAX_ENTRIES :: nat where "HAR_MAX_ENTRIES = 5000"
definition PINNED_CAP :: nat where "PINNED_CAP = 4096"
definition FIRST_DYNAMIC_TOKEN :: token where "FIRST_DYNAMIC_TOKEN = 16"
definition UDP_IDLE_MS :: int where "UDP_IDLE_MS = 60000"
definition PROXY_HS_TIMEOUT_MS :: int where "PROXY_HS_TIMEOUT_MS = 10000"
definition SNI_PEEK_CAP :: nat where "SNI_PEEK_CAP = 16 * 1024"
definition PENDING_SNI_TIMEOUT_MS :: int where "PENDING_SNI_TIMEOUT_MS = 30000"
definition SOCKS_UDP_PENDING_CAP :: nat where "SOCKS_UDP_PENDING_CAP = 8"
definition DNS_TCP_MAX_JOBS :: nat where "DNS_TCP_MAX_JOBS = 64"
definition DNS_TCP_TIMEOUT_MS :: int where "DNS_TCP_TIMEOUT_MS = 5000"
definition DNS_TLS_MAX_JOBS :: nat where "DNS_TLS_MAX_JOBS = 64"
definition DNS_TLS_TIMEOUT_MS :: int where "DNS_TLS_TIMEOUT_MS = 8000"
definition PCAP_SNAPLEN :: nat where "PCAP_SNAPLEN = 65535"

record ('c, 'm) forwarder =
  fw_stack :: "'c net_stack"
  fw_tcp :: "(flow_id, 'm tcp_upstream) hash_map"
  fw_udp :: "(udp_key, udp_session) hash_map"
  fw_socks_udp :: "(udp_key, socks_session) hash_map"
  fw_dns_tcp :: "(token, dns_tcp_job) hash_map"
  fw_dns_tls :: "(token, dns_tls_job) hash_map"
  fw_routes :: "(token, route) hash_map"
  fw_next_token :: token
  fw_outbox :: "bytes list"
  fw_engine :: "filter_engine option"
  fw_encrypted_dns_mode :: encrypted_dns_mode
  fw_firewall :: "(i32, app_policy) hash_map"
  fw_transport :: u8
  fw_verdicts :: "(flow_key, verdict) flow_table"
  fw_pcap :: "pcap_writer option"
  fw_dns_override :: "ip_addr option"
  fw_dns_port :: u16
  fw_dns_transport :: dns_transport
  fw_dns_host :: "bytes option"
  fw_dns_path :: "bytes option"
  fw_proxy :: "proxy option"
  fw_proxy_broken :: bool
  fw_proxy_dns_over_tcp :: bool
  fw_socks_udp_unsupported :: bool
  fw_http_forward_80 :: bool
  fw_tls :: bool \<comment> \<open>\<open>MitmConfigs\<close> are present\<close>
  fw_har :: "transaction list"
  fw_pinned :: "(i32 \<times> ip_addr) list" \<comment> \<open>a \<open>HashSet\<close>, without duplicates\<close>
  fw_stats :: fw_stats
  fw_log_open :: bool
  fw_coarse :: coarse_accum
  fw_cosmetic_element_hiding :: bool
  fw_cosmetic_scriptlets :: bool
  fw_events :: batcher \<comment> \<open>the batcher the handlers are handed\<close>
  fw_calls :: nat
  fw_trace :: "effect list"
  fw_panic :: bool

definition coarse_zero :: coarse_accum where
  "coarse_zero = \<lparr>ca_packets = 0, ca_bytes = 0, ca_tcp = 0, ca_udp = 0, ca_dns = 0\<rparr>"

definition stats_zero :: fw_stats where
  "stats_zero = \<lparr>st_tun_in = 0, st_tcp_new = 0, st_udp_new = 0, st_protect_ok = 0, st_protect_fail = 0,
     st_connect_fail = 0, st_upstream_reply = 0, st_out_written = 0, st_uid_lookups = 0, st_blocked = 0,
     st_mitm_new = 0, st_pinned = 0, st_proxy_ok = 0, st_proxy_fail = 0, st_fail_closed = 0\<rparr>"

definition build_tls_factory :: "('c, 'm) sys \<Rightarrow> config \<Rightarrow> bool" where
  "build_tls_factory X cfg =
     (if \<not> cf_intercept_tls cfg then False
      else case (cf_ca_cert_pem cfg, cf_ca_key_pem cfg) of
        (Some cert, Some key) \<Rightarrow> mo_build (sy_mitm X) cert key
      | _ \<Rightarrow> False)"

definition fw_new :: "('c, 'm) sys \<Rightarrow> config \<Rightarrow> ('c, 'm) forwarder" where
  "fw_new X cfg =
     (let (proxy_active, broken) = build_proxy (sy_resolve X) (cf_proxy cfg)
      in \<lparr>fw_stack = ns_new (sy_smol X) (cf_mtu cfg), fw_tcp = [], fw_udp = [], fw_socks_udp = [],
          fw_dns_tcp = [], fw_dns_tls = [], fw_routes = [], fw_next_token = FIRST_DYNAMIC_TOKEN,
          fw_outbox = [], fw_engine = None, fw_encrypted_dns_mode = cf_encrypted_dns_mode cfg,
          fw_firewall = [], fw_transport = TRANSPORT_OTHER, fw_verdicts = ft_new VERDICT_CACHE_CAP,
          fw_pcap = None, fw_dns_override = parse_dns_override (cf_dns_servers cfg),
          fw_dns_port = normalize_dns_port (cf_dns_port cfg), fw_dns_transport = cf_dns_transport cfg,
          fw_dns_host = normalize_dns_host (cf_dns_host cfg), fw_dns_path = cf_dns_path cfg,
          fw_proxy = proxy_active, fw_proxy_broken = broken,
          fw_proxy_dns_over_tcp = cf_proxy_dns_over_tcp cfg, fw_socks_udp_unsupported = False,
          fw_http_forward_80 = False, fw_tls = build_tls_factory X cfg, fw_har = [], fw_pinned = [],
          fw_stats = stats_zero, fw_log_open = cf_log_open cfg, fw_coarse = coarse_zero,
          fw_cosmetic_element_hiding = cf_cosmetic_element_hiding cfg,
          fw_cosmetic_scriptlets = cf_cosmetic_scriptlets cfg, fw_events = [], fw_calls = 0,
          fw_trace = [], fw_panic = False\<rparr>)"

end
