(* ===== verification/Fw_Base.thy ===== *)
theory Fw_Base
  imports Fw_State
begin

section \<open>Settings, verdicts, telemetry and socket calls\<close>

text \<open>
  The operations of the forwarder that the flow handlers share: its live settings, the cached
  firewall verdict, the coarse telemetry window, tokens, the capture tap, and the calls on upstream
  sockets with the TLS session that an HTTPS proxy or a DoT/DoH resolver puts on them.
\<close>

subsection \<open>Calls and effects\<close>

definition tick :: "('c, 'm) forwarder \<Rightarrow> ('c, 'm) forwarder" where
  "tick fw = fw\<lparr>fw_calls := Suc (fw_calls fw)\<rparr>"

definition ask :: "(nat \<Rightarrow> 'a) \<Rightarrow> ('c, 'm) forwarder \<Rightarrow> 'a \<times> ('c, 'm) forwarder" where
  "ask f fw = (f (fw_calls fw), tick fw)"

definition emit :: "effect \<Rightarrow> ('c, 'm) forwarder \<Rightarrow> ('c, 'm) forwarder" where
  "emit e fw = fw\<lparr>fw_trace := fw_trace fw @ [e]\<rparr>"

definition push_out :: "bytes option \<Rightarrow> ('c, 'm) forwarder \<Rightarrow> ('c, 'm) forwarder" where
  \<comment> \<open>\<open>if let Some(packet) = \<dots> { self.outbox.push(packet) }\<close>\<close>
  "push_out p fw = (case p of None \<Rightarrow> fw | Some packet \<Rightarrow> fw\<lparr>fw_outbox := fw_outbox fw @ [packet]\<rparr>)"

definition push_event :: "('c, 'm) sys \<Rightarrow> (u64 \<Rightarrow> event) \<Rightarrow> ('c, 'm) forwarder \<Rightarrow> ('c, 'm) forwarder" where
  \<comment> \<open>an event is stamped with the wall clock where it is made\<close>
  "push_event X ev fw =
     (let (t, fw) = ask (sy_unix X) fw in fw\<lparr>fw_events := batcher_push (ev (word_of_nat t)) (fw_events fw)\<rparr>)"

definition bump :: "((nat \<Rightarrow> nat) \<Rightarrow> fw_stats \<Rightarrow> fw_stats) \<Rightarrow> ('c, 'm) forwarder \<Rightarrow> ('c, 'm) forwarder" where
  \<comment> \<open>\<open>self.stats.<counter> += 1\<close>\<close>
  "bump upd fw = fw\<lparr>fw_stats := upd Suc (fw_stats fw)\<rparr>"

definition panic :: "('c, 'm) forwarder \<Rightarrow> ('c, 'm) forwarder" where
  "panic fw = fw\<lparr>fw_panic := True\<rparr>"

subsection \<open>Settings\<close>

definition take_stats :: "('c, 'm) forwarder \<Rightarrow> fw_stats \<times> ('c, 'm) forwarder" where
  "take_stats fw = (fw_stats fw, fw\<lparr>fw_stats := stats_zero\<rparr>)"

definition flow_counts :: "('c, 'm) forwarder \<Rightarrow> nat \<times> nat" where
  "flow_counts fw = (length (fw_tcp fw), length (fw_udp fw) + length (fw_socks_udp fw))"

definition start_pcap :: "('c, 'm) sys \<Rightarrow> nat \<Rightarrow> ('c, 'm) forwarder \<Rightarrow> ('c, 'm) forwarder" where
  "start_pcap X ring_bytes fw =
     fw\<lparr>fw_pcap := pw_new (sy_pcap X) PCAP_SNAPLEN (if ring_bytes > 0 then Some ring_bytes else None)\<rparr>"

definition stop_pcap :: "('c, 'm) forwarder \<Rightarrow> ('c, 'm) forwarder" where
  "stop_pcap fw = fw\<lparr>fw_pcap := None\<rparr>"

definition har_len :: "('c, 'm) forwarder \<Rightarrow> nat" where
  "har_len fw = length (fw_har fw)"

definition tap :: "('c, 'm) sys \<Rightarrow> bytes \<Rightarrow> ('c, 'm) forwarder \<Rightarrow> ('c, 'm) forwarder" where
  "tap X packet fw =
     (case fw_pcap fw of
        None \<Rightarrow> fw
      | Some w \<Rightarrow> (let (ts, fw) = ask (sy_unix X) fw in fw\<lparr>fw_pcap := Some (write_packet (sy_pcap X) ts packet w)\<rparr>))"

definition load_engine :: "('c, 'm) sys \<Rightarrow> bytes \<Rightarrow> bytes option \<Rightarrow> ('c, 'm) forwarder \<Rightarrow> ('c, 'm) forwarder" where
  "load_engine X path resources_path fw =
     (case sy_engine X path resources_path of None \<Rightarrow> fw | Some engine \<Rightarrow> fw\<lparr>fw_engine := engine\<rparr>)"

definition set_encrypted_dns_mode :: "encrypted_dns_mode \<Rightarrow> ('c, 'm) forwarder \<Rightarrow> ('c, 'm) forwarder" where
  "set_encrypted_dns_mode mode fw = fw\<lparr>fw_encrypted_dns_mode := mode\<rparr>"

definition set_dns_upstream ::
  "dns_transport \<Rightarrow> ip_addr option \<Rightarrow> u16 \<Rightarrow> bytes option \<Rightarrow> bytes option \<Rightarrow> ('c, 'm) forwarder \<Rightarrow> ('c, 'm) forwarder" where
  "set_dns_upstream transport override_ip port host path fw =
     fw\<lparr>fw_dns_transport := transport, fw_dns_override := override_ip, fw_dns_port := normalize_dns_port port,
        fw_dns_host := normalize_dns_host host, fw_dns_path := path\<rparr>"

definition set_firewall :: "(i32, app_policy) hash_map \<Rightarrow> ('c, 'm) forwarder \<Rightarrow> ('c, 'm) forwarder" where
  "set_firewall rules fw = fw\<lparr>fw_firewall := rules, fw_verdicts := ft_new VERDICT_CACHE_CAP\<rparr>"

definition set_transport :: "u8 \<Rightarrow> ('c, 'm) forwarder \<Rightarrow> ('c, 'm) forwarder" where
  "set_transport transport fw =
     (if transport \<noteq> fw_transport fw then fw\<lparr>fw_transport := transport, fw_verdicts := ft_new VERDICT_CACHE_CAP\<rparr>
      else fw)"

definition set_log_open :: "bool \<Rightarrow> ('c, 'm) forwarder \<Rightarrow> ('c, 'm) forwarder" where
  "set_log_open open fw = fw\<lparr>fw_log_open := open\<rparr>"

definition fw_set_cosmetic :: "bool \<Rightarrow> bool \<Rightarrow> ('c, 'm) forwarder \<Rightarrow> ('c, 'm) forwarder" where
  "fw_set_cosmetic element_hiding scriptlets fw =
     fw\<lparr>fw_cosmetic_element_hiding := element_hiding, fw_cosmetic_scriptlets := scriptlets\<rparr>"

definition set_proxy_dns_over_tcp :: "bool \<Rightarrow> ('c, 'm) forwarder \<Rightarrow> ('c, 'm) forwarder" where
  "set_proxy_dns_over_tcp on fw = fw\<lparr>fw_proxy_dns_over_tcp := on\<rparr>"

subsection \<open>Telemetry\<close>

definition coarse_mode :: "('c, 'm) forwarder \<Rightarrow> i32 \<Rightarrow> bool" where
  "coarse_mode fw uid \<longleftrightarrow> \<not> fw_log_open fw \<and> map_of (fw_firewall fw) uid = None"

definition telemetry_hot :: "('c, 'm) forwarder \<Rightarrow> bool" where
  "telemetry_hot fw \<longleftrightarrow> fw_log_open fw \<or> fw_firewall fw \<noteq> []"

definition coarse_count :: "u32 \<Rightarrow> L4 \<Rightarrow> bool \<Rightarrow> coarse_accum \<Rightarrow> coarse_accum" where
  "coarse_count len proto is_dns c =
     (let c = c\<lparr>ca_packets := ca_packets c + 1, ca_bytes := ca_bytes c + unat len\<rparr>;
          c = (case proto of L4_Tcp \<Rightarrow> c\<lparr>ca_tcp := ca_tcp c + 1\<rparr> | L4_Udp \<Rightarrow> c\<lparr>ca_udp := ca_udp c + 1\<rparr> | _ \<Rightarrow> c)
      in if is_dns then c\<lparr>ca_dns := ca_dns c + 1\<rparr> else c)"

definition coarse_add :: "u32 \<Rightarrow> L4 \<Rightarrow> bool \<Rightarrow> ('c, 'm) forwarder \<Rightarrow> ('c, 'm) forwarder" where
  "coarse_add len proto is_dns fw = fw\<lparr>fw_coarse := coarse_count len proto is_dns (fw_coarse fw)\<rparr>"

definition take_coarse :: "('c, 'm) sys \<Rightarrow> ('c, 'm) forwarder \<Rightarrow> event option \<times> ('c, 'm) forwarder" where
  "take_coarse X fw =
     (if ca_packets (fw_coarse fw) = 0 then (None, fw)
      else
        let c = fw_coarse fw; cap = (\<lambda>v. word_of_nat (min v (2 ^ 32 - 1)));
            (t, fw) = ask (sy_unix X) (fw\<lparr>fw_coarse := coarse_zero\<rparr>)
        in (Some (ev_coarse (word_of_nat t) (cap (ca_packets c)) (word_of_nat (ca_bytes c)) (cap (ca_tcp c))
                   (cap (ca_udp c)) (cap (ca_dns c))), fw))"

subsection \<open>Verdicts\<close>

definition policy_blocks :: "('c, 'm) forwarder \<Rightarrow> i32 \<Rightarrow> bool" where
  "policy_blocks fw uid =
     (if sint uid < 0 then False
      else case map_of (fw_firewall fw) uid of
        Some policy \<Rightarrow>
          if fw_transport fw = TRANSPORT_WIFI then \<not> ap_allow_wifi policy
          else if fw_transport fw = TRANSPORT_CELLULAR then \<not> ap_allow_cellular policy
          else False
      | None \<Rightarrow> False)"

definition verdict_for :: "('c, 'm) sys \<Rightarrow> decoded \<Rightarrow> u8 \<Rightarrow> ('c, 'm) forwarder \<Rightarrow> verdict \<times> ('c, 'm) forwarder" where
  "verdict_for X d proto fw =
     (if fw_firewall fw = [] \<and> \<not> fw_log_open fw then (\<lparr>vd_blocked = False, vd_uid = -1\<rparr>, fw)
      else
        let key = flow_key_new proto (d_src d) (d_src_port d) (d_dst d) (d_dst_port d);
            (cached, tbl) = ft_get key (fw_verdicts fw); fw = fw\<lparr>fw_verdicts := tbl\<rparr>
        in case cached of
             Some v \<Rightarrow> (v, fw)
           | None \<Rightarrow>
               (let fw = bump st_uid_lookups_update fw;
                    (uid, fw) = ask (sy_uid X) fw;
                    blocked = policy_blocks fw uid;
                    fw = (if blocked then bump st_blocked_update fw else fw);
                    v = \<lparr>vd_blocked = blocked, vd_uid = uid\<rparr>
                in (v, fw\<lparr>fw_verdicts := ft_insert key v (fw_verdicts fw)\<rparr>)))"

definition app_inspects :: "('c, 'm) forwarder \<Rightarrow> i32 \<Rightarrow> bool" where
  "app_inspects fw uid \<longleftrightarrow> sint uid \<ge> 0 \<and>
     (case map_of (fw_firewall fw) uid of Some p \<Rightarrow> ap_inspect_tls p | None \<Rightarrow> False)"

definition can_intercept_enc_dns :: "('c, 'm) forwarder \<Rightarrow> i32 \<Rightarrow> ip_addr \<Rightarrow> bool" where
  "can_intercept_enc_dns fw uid server \<longleftrightarrow> fw_tls fw \<and> \<not> (sint uid \<ge> 0 \<and> (uid, server) \<in> set (fw_pinned fw))"

subsection \<open>Clock, tokens and the packets for the tunnel\<close>

definition now_ms :: "('c, 'm) sys \<Rightarrow> ('c, 'm) forwarder \<Rightarrow> int \<times> ('c, 'm) forwarder" where
  "now_ms X fw = ask (sy_now X) fw"

definition alloc_token :: "('c, 'm) forwarder \<Rightarrow> token \<times> ('c, 'm) forwarder" where
  "alloc_token fw = (fw_next_token fw, fw\<lparr>fw_next_token := fw_next_token fw + 1\<rparr>)"

definition drain_key_log :: "('c, 'm) sys \<Rightarrow> ('c, 'm) forwarder \<Rightarrow> ('c, 'm) forwarder" where
  "drain_key_log X fw =
     (if \<not> fw_tls fw then fw
      else
        let (secrets, fw) = ask (mo_key_log (sy_mitm X)) fw
        in if secrets = [] then fw
           else fw\<lparr>fw_pcap := map_option (write_tls_secrets (sy_pcap X) secrets) (fw_pcap fw)\<rparr>)"

definition take_outbox :: "('c, 'm) sys \<Rightarrow> ('c, 'm) forwarder \<Rightarrow> bytes list \<times> ('c, 'm) forwarder" where
  "take_outbox X fw =
     (let outbox = fw_outbox fw;
          fw = fw\<lparr>fw_outbox := [], fw_stats := st_out_written_update (\<lambda>n. n + length outbox) (fw_stats fw)\<rparr>;
          fw = drain_key_log X fw;
          fw = (if fw_pcap fw \<noteq> None then fold (tap X) outbox fw else fw)
      in (outbox, fw))"

definition poll_timeout_ms :: "('c, 'm) sys \<Rightarrow> ('c, 'm) forwarder \<Rightarrow> nat \<times> ('c, 'm) forwarder" where
  "poll_timeout_ms X fw =
     (let (now, fw) = now_ms X fw
      in (min (case ns_poll_delay (sy_smol X) now (fw_stack fw) of Some d \<Rightarrow> d | None \<Rightarrow> 1000) 1000, fw))"

definition dns_upstream :: "('c, 'm) forwarder \<Rightarrow> sock_addr \<Rightarrow> sock_addr" where
  "dns_upstream fw queried = resolve_dns_upstream (fw_dns_override fw) (fw_dns_port fw) queried"

definition dns_upstream_plain :: "('c, 'm) forwarder \<Rightarrow> sock_addr \<Rightarrow> sock_addr" where
  "dns_upstream_plain fw queried =
     resolve_dns_upstream (fw_dns_override fw) (proxy_dns_port (fw_dns_transport fw) (fw_dns_port fw)) queried"

end
