(* ===== verification/Fw_Io.thy ===== *)
theory Fw_Io
  imports Fw_Base Proxy
begin

section \<open>Upstream sockets\<close>

text \<open>
  Dialling (\<open>connect_tcp\<close>, \<open>connect_udp\<close>, \<open>connect_socks_ctrl\<close>, \<open>new_relay_socket\<close>,
  \<open>connect_dns_tls\<close>), the byte streams of \<open>UpstreamIo\<close>, and the pump that carries a proxy handshake
  over one of them. A dropped socket is closed; only sockets that were registered are deregistered.
\<close>

subsection \<open>Dialling\<close>

definition open_protected :: "('c, 'm) sys \<Rightarrow> ('c, 'm) forwarder \<Rightarrow> sock option \<times> ('c, 'm) forwarder" where
  \<comment> \<open>the common start of every dial: \<open>Socket::new\<close>, \<open>set_nonblocking\<close>, \<open>protect\<close>\<close>
  "open_protected X fw =
     (let s = fw_calls fw; (made, fw) = ask (sy_ok X) fw
      in if \<not> made then (None, fw)
         else
           let (nonblocking, fw) = ask (sy_ok X) fw
           in if \<not> nonblocking then (None, fw)
              else
                let (prot, fw) = ask (sy_ok X) fw
                in if prot then (Some s, bump st_protect_ok_update fw)
                   else (None, bump st_protect_fail_update fw))"

definition register :: "('c, 'm) sys \<Rightarrow> ('c, 'm) forwarder \<Rightarrow> token option \<times> ('c, 'm) forwarder" where
  "register X fw =
     (let (t, fw) = alloc_token fw; (registered, fw) = ask (sy_ok X) fw
      in (if registered then Some t else None, fw))"

definition connect_tcp ::
  "('c, 'm) sys \<Rightarrow> sock_addr \<Rightarrow> ('c, 'm) forwarder \<Rightarrow> (upstream_io \<times> token) option \<times> ('c, 'm) forwarder" where
  "connect_tcp X server fw =
     (let dial = (case fw_proxy fw of Some p \<Rightarrow> px_addr p | None \<Rightarrow> server);
          (made, fw) = open_protected X fw
      in case made of
           None \<Rightarrow> (None, fw)
         | Some s \<Rightarrow>
             let fw = tick (emit (E_Connect s dial) fw);
                 (io, fw) = (case fw_proxy fw of
                    Some p \<Rightarrow>
                      if is_tls p then (let (built, fw) = ask (sy_ok X) fw in (if built then Some (Io_Tls s) else None, fw))
                      else (Some (Io_Plain s), fw)
                  | None \<Rightarrow> (Some (Io_Plain s), fw))
             in case io of
                  None \<Rightarrow> (None, fw)
                | Some io \<Rightarrow> (let (t, fw) = register X fw in (map_option (Pair io) t, fw)))"

definition connect_udp ::
  "('c, 'm) sys \<Rightarrow> sock_addr \<Rightarrow> ('c, 'm) forwarder \<Rightarrow> (sock \<times> token) option \<times> ('c, 'm) forwarder" where
  "connect_udp X server fw =
     (let (made, fw) = open_protected X fw
      in case made of
           None \<Rightarrow> (None, fw)
         | Some s \<Rightarrow>
             let (connected, fw) = ask (sy_ok X) (emit (E_Udp_Connect s server) fw)
             in if \<not> connected then (None, fw)
                else (let (t, fw) = register X fw in (map_option (Pair s) t, fw)))"

definition connect_socks_ctrl ::
  "('c, 'm) sys \<Rightarrow> ('c, 'm) forwarder \<Rightarrow> (sock \<times> token) option \<times> ('c, 'm) forwarder" where
  "connect_socks_ctrl X fw =
     (case fw_proxy fw of
        None \<Rightarrow> (None, fw)
      | Some p \<Rightarrow>
          (let (made, fw) = open_protected X fw
           in case made of
                None \<Rightarrow> (None, fw)
              | Some s \<Rightarrow>
                  (let (t, fw) = register X (tick (emit (E_Connect s (px_addr p)) fw)) in (map_option (Pair s) t, fw))))"

definition new_relay_socket ::
  "('c, 'm) sys \<Rightarrow> ('c, 'm) forwarder \<Rightarrow> (sock \<times> token) option \<times> ('c, 'm) forwarder" where
  "new_relay_socket X fw =
     (case fw_proxy fw of
        None \<Rightarrow> (None, fw)
      | Some p \<Rightarrow>
          (let (made, fw) = open_protected X fw
           in case made of
                None \<Rightarrow> (None, fw)
              | Some s \<Rightarrow> (let (t, fw) = register X fw in (map_option (Pair s) t, fw))))"

definition connect_dns_tls ::
  "('c, 'm) sys \<Rightarrow> sock_addr \<Rightarrow> ('c, 'm) forwarder \<Rightarrow> (upstream_io \<times> token) option \<times> ('c, 'm) forwarder" where
  \<comment> \<open>the server name and ALPN go to rustls, whose answer is a call\<close>
  "connect_dns_tls X dial fw =
     (let (made, fw) = open_protected X fw
      in case made of
           None \<Rightarrow> (None, fw)
         | Some s \<Rightarrow>
             let (built, fw) = ask (sy_ok X) (tick (emit (E_Connect s dial) fw))
             in if \<not> built then (None, fw)
                else (let (t, fw) = register X fw in (map_option (Pair (Io_Tls s)) t, fw)))"

subsection \<open>Byte streams\<close>

definition tls_handshaking :: "('c, 'm) sys \<Rightarrow> upstream_io \<Rightarrow> ('c, 'm) forwarder \<Rightarrow> bool \<times> ('c, 'm) forwarder" where
  "tls_handshaking X io fw = (case io of Io_Plain _ \<Rightarrow> (False, fw) | Io_Tls _ \<Rightarrow> ask (sy_flag X) fw)"

definition pump_tls :: "('c, 'm) sys \<Rightarrow> upstream_io \<Rightarrow> ('c, 'm) forwarder \<Rightarrow> bool \<times> ('c, 'm) forwarder" where
  "pump_tls X io fw = (case io of Io_Plain _ \<Rightarrow> (True, fw) | Io_Tls _ \<Rightarrow> ask (sy_ok X) fw)"

definition finish_tls ::
  "('c, 'm) sys \<Rightarrow> upstream_io \<Rightarrow> ('c, 'm) forwarder \<Rightarrow> bool option \<times> ('c, 'm) forwarder" where
  \<comment> \<open>the TLS handshake, if one is in progress: \<open>None\<close> a failure, \<open>Some True\<close> that it is over\<close>
  "finish_tls X io fw =
     (let (busy, fw) = tls_handshaking X io fw
      in if \<not> busy then (Some True, fw)
         else
           let (pumped, fw) = pump_tls X io fw
           in if \<not> pumped then (None, fw)
              else (let (busy, fw) = tls_handshaking X io fw in (Some (\<not> busy), fw)))"

definition read_all :: "('c, 'm) sys \<Rightarrow> ('c, 'm) forwarder \<Rightarrow> (bytes \<times> recv_end) \<times> ('c, 'm) forwarder" where
  \<comment> \<open>the loop of reads until the socket has no more\<close>
  "read_all X fw = ask (sy_recv X) fw"

definition sock_write :: "('c, 'm) sys \<Rightarrow> sock \<Rightarrow> bytes \<Rightarrow> ('c, 'm) forwarder \<Rightarrow> write_result \<times> ('c, 'm) forwarder" where
  \<comment> \<open>a \<open>write\<close> accepts at most what it is given\<close>
  "sock_write X s data fw =
     (let (r, fw) = ask (sy_write X) fw
      in case r of
           Wr_Ok n \<Rightarrow> (let n = min n (length data) in (Wr_Ok n, emit (E_Write s (take n data)) fw))
         | _ \<Rightarrow> (r, fw))"

definition io_write ::
  "('c, 'm) sys \<Rightarrow> upstream_io \<Rightarrow> bytes \<Rightarrow> ('c, 'm) forwarder \<Rightarrow> write_result \<times> ('c, 'm) forwarder" where
  "io_write X io data fw =
     (case io of
        Io_Plain s \<Rightarrow> sock_write X s data fw
      | Io_Tls s \<Rightarrow>
          (let (pumped, fw) = ask (sy_ok X) fw
           in if \<not> pumped then (Wr_Error, fw)
              else
                let (backed_up, fw) = ask (sy_flag X) fw
                in if backed_up then (Wr_Block, fw)
                   else
                     let (r, fw) = sock_write X s data fw
                     in case r of
                          Wr_Ok n \<Rightarrow>
                            (let (pumped, fw) = ask (sy_ok X) fw in (if pumped then Wr_Ok n else Wr_Error, fw))
                        | _ \<Rightarrow> (r, fw)))"

definition shutdown_write :: "('c, 'm) sys \<Rightarrow> upstream_io \<Rightarrow> ('c, 'm) forwarder \<Rightarrow> ('c, 'm) forwarder" where
  "shutdown_write X io fw =
     (case io of
        Io_Plain s \<Rightarrow> emit (E_Shutdown s) (tick fw)
      | Io_Tls s \<Rightarrow> emit (E_Shutdown s) (tick (tick fw)))"

definition take_error :: "('c, 'm) sys \<Rightarrow> ('c, 'm) forwarder \<Rightarrow> bool \<times> ('c, 'm) forwarder" where
  "take_error X fw = ask (sy_flag X) fw"

definition deregister :: "sock \<Rightarrow> ('c, 'm) forwarder \<Rightarrow> ('c, 'm) forwarder" where
  "deregister s fw = emit (E_Deregister s) (tick fw)"

function write_loop ::
  "('c, 'm) sys \<Rightarrow> upstream_io \<Rightarrow> bytes \<Rightarrow> ('c, 'm) forwarder \<Rightarrow> (bool \<times> bytes) \<times> ('c, 'm) forwarder" where
  \<comment> \<open>whether no write failed, the unsent tail\<close>
  "write_loop X io data fw =
     (if data = [] then ((True, []), fw)
      else
        case io_write X io data fw of
          (Wr_Ok n, fw') \<Rightarrow> if n = 0 then ((True, data), fw') else write_loop X io (drop n data) fw'
        | (Wr_Block, fw') \<Rightarrow> ((True, data), fw')
        | (Wr_Error, fw') \<Rightarrow> ((False, data), fw'))"
  by pat_completeness auto
termination by (relation "measure (\<lambda>(_, _, data, _). length data)") auto

declare write_loop.simps [simp del]

definition flush_io ::
  "('c, 'm) sys \<Rightarrow> upstream_io \<Rightarrow> bytes \<Rightarrow> ('c, 'm) forwarder \<Rightarrow> (bool \<times> bytes) \<times> ('c, 'm) forwarder" where
  \<comment> \<open>the tail that stays in \<open>out\<close>\<close>
  "flush_io X io out fw = (if out = [] then ((True, []), fw) else write_loop X io out fw)"

subsection \<open>Handshakes over a stream\<close>

datatype hs_pump =
    Hp_Pending handshake bytes \<comment> \<open>the machine and its unsent output\<close>
  | Hp_Done handshake bytes \<comment> \<open>the bytes past the reply\<close>
  | Hp_Failed "proxy_error option"
  | Hp_Panic

function hs_loop ::
  "('c, 'm) sys \<Rightarrow> upstream_io \<Rightarrow> bool \<Rightarrow> handshake \<Rightarrow> bytes \<Rightarrow> ('c, 'm) forwarder \<Rightarrow> hs_pump \<times> ('c, 'm) forwarder" where
  \<comment> \<open>step the machine, sending each message; only the first step is fed what was received\<close>
  "hs_loop X io eof hs input fw =
     (case hs_step hs input of
        None \<Rightarrow> (Hp_Panic, fw)
      | Some (Inl e, hs') \<Rightarrow> (Hp_Failed (Some e), fw)
      | Some (Inr Step_Read, hs') \<Rightarrow> (if eof then Hp_Failed None else Hp_Pending hs' [], fw)
      | Some (Inr (Step_Done leftover), hs') \<Rightarrow> (Hp_Done hs' leftover, fw)
      | Some (Inr (Step_Write b), hs') \<Rightarrow>
          (case flush_io X io b fw of
             ((ok, rest), fw') \<Rightarrow>
               if \<not> ok then (Hp_Failed None, fw')
               else if rest \<noteq> [] then (Hp_Pending hs' rest, fw')
               else hs_loop X io eof hs' [] fw'))"
  by pat_completeness auto
termination
  by (relation "measure (\<lambda>(_, _, _, hs, _, _). hs_rank hs)") (auto simp del: hs_rank.simps dest: hs_step_write_rank)

declare hs_loop.simps [simp del]

definition pump_handshake ::
  "('c, 'm) sys \<Rightarrow> upstream_io \<Rightarrow> handshake \<Rightarrow> bytes \<Rightarrow> ('c, 'm) forwarder \<Rightarrow> hs_pump \<times> ('c, 'm) forwarder" where
  \<comment> \<open>flush what is left over, drain what the proxy has sent, step the machine\<close>
  "pump_handshake X io hs hs_out fw =
     (let ((ok, rest), fw) = flush_io X io hs_out fw
      in if \<not> ok then (Hp_Failed None, fw)
         else if rest \<noteq> [] then (Hp_Pending hs rest, fw)
         else
           let ((input, e), fw) = read_all X fw
           in if e = Rx_Error then (Hp_Failed None, fw) else hs_loop X io (e = Rx_Eof) hs input fw)"

definition pump_handshake_io ::
  "('c, 'm) sys \<Rightarrow> upstream_io \<Rightarrow> handshake \<Rightarrow> bytes \<Rightarrow> ('c, 'm) forwarder \<Rightarrow> hs_pump \<times> ('c, 'm) forwarder" where
  "pump_handshake_io X io hs hs_out fw =
     (let (tls, fw) = finish_tls X io fw
      in case tls of
           None \<Rightarrow> (Hp_Failed None, fw)
         | Some False \<Rightarrow> (Hp_Pending hs hs_out, fw)
         | Some True \<Rightarrow> pump_handshake X io hs hs_out fw)"

datatype ctrl_step = Ctrl_Pending handshake bytes | Ctrl_Ready "sock_addr option" | Ctrl_Failed | Ctrl_Panic

definition pump_ctrl_handshake ::
  "('c, 'm) sys \<Rightarrow> sock \<Rightarrow> handshake \<Rightarrow> bytes \<Rightarrow> ('c, 'm) forwarder \<Rightarrow> ctrl_step \<times> ('c, 'm) forwarder" where
  \<comment> \<open>over a plain socket; what follows the reply is discarded\<close>
  "pump_ctrl_handshake X s hs hs_out fw =
     (let (r, fw) = pump_handshake X (Io_Plain s) hs hs_out fw
      in (case r of
            Hp_Pending hs' rest \<Rightarrow> Ctrl_Pending hs' rest
          | Hp_Done hs' _ \<Rightarrow> Ctrl_Ready (hs_bound hs')
          | Hp_Failed _ \<Rightarrow> Ctrl_Failed
          | Hp_Panic \<Rightarrow> Ctrl_Panic, fw))"

end
