(* ===== verification/Fw_Tcp.thy ===== *)
theory Fw_Tcp
  imports Fw_Io Sni Dns
begin

section \<open>TCP flows\<close>

text \<open>
  The stream side of the forwarder: opening the upstream of a new flow, the proxy handshake on it,
  classification of deferred HTTPS flows by SNI, the two relay directions, TLS interception through
  the splice, and teardown.
\<close>

subsection \<open>The tables\<close>

definition put_tcp :: "flow_id \<Rightarrow> 'm tcp_upstream \<Rightarrow> ('c, 'm) forwarder \<Rightarrow> ('c, 'm) forwarder" where
  "put_tcp fid up fw = fw\<lparr>fw_tcp := AList.update fid up (fw_tcp fw)\<rparr>"

definition abort_app :: "('c, 'm) sys \<Rightarrow> flow_id \<Rightarrow> ('c, 'm) forwarder \<Rightarrow> ('c, 'm) forwarder" where
  "abort_app X fid fw = fw\<lparr>fw_stack := tcp_abort (sy_smol X) fid (fw_stack fw)\<rparr>"

definition close_app :: "('c, 'm) sys \<Rightarrow> flow_id \<Rightarrow> ('c, 'm) forwarder \<Rightarrow> ('c, 'm) forwarder" where
  "close_app X fid fw = fw\<lparr>fw_stack := tcp_close_app (sy_smol X) fid (fw_stack fw)\<rparr>"

fun har_add :: "transaction list \<Rightarrow> transaction list \<Rightarrow> transaction list" where
  \<comment> \<open>the oldest entries are dropped past the bound\<close>
  "har_add [] har = har"
| "har_add (t # ts) har = har_add ts ((if length har \<ge> HAR_MAX_ENTRIES then tl har else har) @ [t])"

definition drain_mitm_transactions :: "('c, 'm) sys \<Rightarrow> flow_id \<Rightarrow> ('c, 'm) forwarder \<Rightarrow> ('c, 'm) forwarder" where
  "drain_mitm_transactions X fid fw =
     (case map_of (fw_tcp fw) fid of
        None \<Rightarrow> fw
      | Some up \<Rightarrow>
          (case up_mitm up of
             None \<Rightarrow> fw
           | Some m \<Rightarrow>
               (let (ts, m') = mo_take_transactions (sy_mitm X) m
                in (put_tcp fid (up\<lparr>up_mitm := Some m'\<rparr>) fw)\<lparr>fw_har := har_add ts (fw_har fw)\<rparr>)))"

definition finish_mitm :: "('c, 'm) sys \<Rightarrow> flow_id \<Rightarrow> ('c, 'm) forwarder \<Rightarrow> ('c, 'm) forwarder" where
  "finish_mitm X fid fw =
     (case map_of (fw_tcp fw) fid of
        None \<Rightarrow> fw
      | Some up \<Rightarrow> put_tcp fid (up\<lparr>up_mitm := map_option (mo_finish (sy_mitm X)) (up_mitm up)\<rparr>) fw)"

definition drop_tcp :: "flow_id \<Rightarrow> ('c, 'm) forwarder \<Rightarrow> ('c, 'm) forwarder" where
  "drop_tcp fid fw =
     (case map_of (fw_tcp fw) fid of
        None \<Rightarrow> fw
      | Some up \<Rightarrow>
          (deregister (io_sock (up_io up)) fw)
            \<lparr>fw_tcp := AList.delete fid (fw_tcp fw), fw_routes := AList.delete (up_token up) (fw_routes fw)\<rparr>)"

definition teardown_tcp :: "('c, 'm) sys \<Rightarrow> flow_id \<Rightarrow> ('c, 'm) forwarder \<Rightarrow> ('c, 'm) forwarder" where
  "teardown_tcp X fid fw = drop_tcp fid (drain_mitm_transactions X fid (finish_mitm X fid fw))"

definition fail_proxy :: "('c, 'm) sys \<Rightarrow> flow_id \<Rightarrow> ('c, 'm) forwarder \<Rightarrow> ('c, 'm) forwarder" where
  "fail_proxy X fid fw =
     (let fw = bump st_proxy_fail_update fw;
          fw = (case map_of (fw_tcp fw) fid of
                  None \<Rightarrow> fw
                | Some up \<Rightarrow> push_event X (\<lambda>t. with_uid (up_uid up) (ev_blocked_flow t (up_server up))) fw)
      in teardown_tcp X fid (abort_app X fid fw))"

subsection \<open>The relay\<close>

definition flush_to_upstream :: "('c, 'm) sys \<Rightarrow> flow_id \<Rightarrow> ('c, 'm) forwarder \<Rightarrow> ('c, 'm) forwarder" where
  \<comment> \<open>after a failed write the queue is left as it was\<close>
  "flush_to_upstream X fid fw =
     (case map_of (fw_tcp fw) fid of
        None \<Rightarrow> fw
      | Some up \<Rightarrow>
          if up_connecting up \<or> up_handshake up \<noteq> None \<or> up_to_upstream up = [] then fw
          else
            (case write_loop X (up_io up) (up_to_upstream up) fw of
               ((ok, rest), fw) \<Rightarrow>
                 if \<not> ok then abort_app X fid fw else put_tcp fid (up\<lparr>up_to_upstream := rest\<rparr>) fw))"

function app_loop :: "'c smol \<Rightarrow> flow_id \<Rightarrow> bytes \<Rightarrow> 'c net_stack \<Rightarrow> bytes \<times> 'c net_stack" where
  "app_loop S fid data ns =
     (let space = tcp_send_space S fid ns
      in if space = 0 \<or> data = [] then (data, ns)
         else
           let n = min space (length data)
           in app_loop S fid (drop n data) (snd (tcp_send_to_app S fid (take n data) ns)))"
  by pat_completeness auto
termination by (relation "measure (\<lambda>(_, _, data, _). length data)") auto

declare app_loop.simps [simp del]

definition flush_to_app :: "('c, 'm) sys \<Rightarrow> flow_id \<Rightarrow> ('c, 'm) forwarder \<Rightarrow> ('c, 'm) forwarder" where
  "flush_to_app X fid fw =
     (case map_of (fw_tcp fw) fid of
        None \<Rightarrow> fw
      | Some up \<Rightarrow>
          (let (rest, ns) = app_loop (sy_smol X) fid (up_to_app up) (fw_stack fw)
           in (put_tcp fid (up\<lparr>up_to_app := rest\<rparr>) fw)\<lparr>fw_stack := ns\<rparr>))"

function relay_loop :: "'c smol \<Rightarrow> flow_id \<Rightarrow> bytes \<Rightarrow> nat \<Rightarrow> 'c net_stack \<Rightarrow> bool \<times> nat \<times> 'c net_stack" where
  \<comment> \<open>reads of at most 32 KiB and at most the free space; whether the socket ran dry, how many reads\<close>
  "relay_loop S fid data cnt ns =
     (let space = tcp_send_space S fid ns
      in if space = 0 then (False, cnt, ns)
         else if data = [] then (True, cnt, ns)
         else
           let n = min (min space (32 * 1024)) (length data)
           in relay_loop S fid (drop n data) (Suc cnt) (snd (tcp_send_to_app S fid (take n data) ns)))"
  by pat_completeness auto
termination by (relation "measure (\<lambda>(_, _, data, _, _). length data)") auto

declare relay_loop.simps [simp del]

definition count_replies :: "nat \<Rightarrow> ('c, 'm) forwarder \<Rightarrow> ('c, 'm) forwarder" where
  "count_replies n fw = fw\<lparr>fw_stats := st_upstream_reply_update (\<lambda>k. k + n) (fw_stats fw)\<rparr>"

definition pump_upstream_to_app :: "('c, 'm) sys \<Rightarrow> flow_id \<Rightarrow> ('c, 'm) forwarder \<Rightarrow> ('c, 'm) forwarder" where
  "pump_upstream_to_app X fid fw =
     (if map_of (fw_tcp fw) fid = None \<or> tcp_send_space (sy_smol X) fid (fw_stack fw) = 0 then fw
      else
        let ((data, e), fw) = read_all X fw;
            (dry, n, ns) = relay_loop (sy_smol X) fid data 0 (fw_stack fw);
            fw = count_replies n (fw\<lparr>fw_stack := ns\<rparr>)
        in if \<not> dry then fw
           else case e of Rx_Open \<Rightarrow> fw | Rx_Eof \<Rightarrow> close_app X fid fw | Rx_Error \<Rightarrow> abort_app X fid fw)"

fun chop :: "nat \<Rightarrow> nat \<Rightarrow> bytes \<Rightarrow> bytes list" where
  \<comment> \<open>reads into a buffer of \<open>n\<close> bytes, at most \<open>k\<close> of them\<close>
  "chop 0 n data = []"
| "chop (Suc k) n data = (if data = [] then [] else take n data # chop k n (drop n data))"

definition read_upstream_into_mitm :: "('c, 'm) sys \<Rightarrow> flow_id \<Rightarrow> ('c, 'm) forwarder \<Rightarrow> ('c, 'm) forwarder" where
  \<comment> \<open>the app-bound queue does not change in the loop, so it is read until dry or not at all\<close>
  "read_upstream_into_mitm X fid fw =
     (case map_of (fw_tcp fw) fid of
        None \<Rightarrow> fw
      | Some up \<Rightarrow>
          if length (up_to_app up) > MITM_APP_BUF_CAP then fw
          else
            (let ((data, _), fw) = read_all X fw;
                 chunks = chop (length data) (32 * 1024) data
             in count_replies (length chunks)
                  (put_tcp fid (up\<lparr>up_mitm := map_option (fold (mo_recv_from_upstream (sy_mitm X)) chunks) (up_mitm up)\<rparr>) fw)))"

subsection \<open>TLS interception\<close>

definition provision_cosmetics :: "('c, 'm) sys \<Rightarrow> flow_id \<Rightarrow> ('c, 'm) forwarder \<Rightarrow> ('c, 'm) forwarder" where
  "provision_cosmetics X fid fw =
     (case map_of (fw_tcp fw) fid of
        None \<Rightarrow> fw
      | Some up \<Rightarrow>
          if up_cosmetic_set up then fw
          else case up_mitm up of
            None \<Rightarrow> fw
          | Some m \<Rightarrow>
              (case mo_host (sy_mitm X) m of
                 None \<Rightarrow> fw
               | Some host \<Rightarrow>
                   (let (css, js) = (case fw_engine fw of
                          Some engine \<Rightarrow>
                            if fw_cosmetic_element_hiding fw
                            then (cosmetic_css engine host, if fw_cosmetic_scriptlets fw then scriptlets_js engine host else [])
                            else ([], [])
                        | None \<Rightarrow> ([], []))
                    in put_tcp fid (up\<lparr>up_mitm := Some (mo_set_cosmetic (sy_mitm X) css js m), up_cosmetic_set := True\<rparr>) fw)))"

definition engine_blocks :: "('c, 'm) forwarder \<Rightarrow> bytes \<Rightarrow> bool" where
  "engine_blocks fw name = (case fw_engine fw of Some e \<Rightarrow> is_blocked_domain e name | None \<Rightarrow> False)"

definition note_pin_if_rejected :: "('c, 'm) sys \<Rightarrow> flow_id \<Rightarrow> ('c, 'm) forwarder \<Rightarrow> ('c, 'm) forwarder" where
  "note_pin_if_rejected X fid fw =
     (case map_of (fw_tcp fw) fid of
        None \<Rightarrow> fw
      | Some up \<Rightarrow>
          (case up_mitm up of
             None \<Rightarrow> fw
           | Some m \<Rightarrow>
               if up_pin_reported up \<or> \<not> mo_cert_rejected (sy_mitm X) m then fw
               else
                 let host = mo_host (sy_mitm X) m;
                     fw = put_tcp fid (up\<lparr>up_pin_reported := True\<rparr>) fw;
                     pin = (up_uid up, sa_ip (up_server up));
                     fw = (if length (fw_pinned fw) < PINNED_CAP
                           then fw\<lparr>fw_pinned := List.insert pin (fw_pinned fw)\<rparr> else fw)
                 in push_event X (\<lambda>t. ev_tls_pinned t (up_uid up) (up_server up) host) (bump st_pinned_update fw)))"

definition shutdown_upstream :: "('c, 'm) sys \<Rightarrow> flow_id \<Rightarrow> ('c, 'm) forwarder \<Rightarrow> ('c, 'm) forwarder" where
  "shutdown_upstream X fid fw =
     (case map_of (fw_tcp fw) fid of
        None \<Rightarrow> fw
      | Some up \<Rightarrow>
          if \<not> up_write_closed up \<and> \<not> up_connecting up
          then put_tcp fid (up\<lparr>up_write_closed := True\<rparr>) (shutdown_write X (up_io up) fw) else fw)"

definition close_mitm :: "('c, 'm) sys \<Rightarrow> flow_id \<Rightarrow> ('c, 'm) forwarder \<Rightarrow> ('c, 'm) forwarder" where
  \<comment> \<open>the splice has closed: flush what it produced, then close both directions\<close>
  "close_mitm X fid fw =
     shutdown_upstream X fid (close_app X fid (flush_to_app X fid (flush_to_upstream X fid (note_pin_if_rejected X fid fw))))"

definition report_blocked :: "('c, 'm) sys \<Rightarrow> i32 \<Rightarrow> sock_addr \<Rightarrow> bytes \<Rightarrow> ('c, 'm) forwarder \<Rightarrow> ('c, 'm) forwarder" where
  "report_blocked X uid server name fw = push_event X (\<lambda>t. ev_enc_dns_blocked t uid server name) fw"

definition pump_mitm :: "('c, 'm) sys \<Rightarrow> flow_id \<Rightarrow> 'm tcp_upstream \<Rightarrow> 'm \<Rightarrow> ('c, 'm) forwarder \<Rightarrow> mitm_io option \<times> ('c, 'm) forwarder" where
  \<comment> \<open>one pump; on the encrypted-DNS path the blocked queries are reported; \<open>None\<close> is a panic\<close>
  "pump_mitm X fid up m fw =
     (if mo_is_dns (sy_mitm X) m then
        (case mo_pump_dns (sy_mitm X) (engine_blocks fw) m of
           None \<Rightarrow> (None, panic fw)
         | Some (mio, m') \<Rightarrow>
             (let (hits, m'') = mo_take_blocked (sy_mitm X) m'
              in (Some mio, fold (report_blocked X (up_uid up) (up_server up)) hits
                    (put_tcp fid (up\<lparr>up_mitm := Some m''\<rparr>) fw))))
      else
        (let (mio, m') = mo_pump (sy_mitm X) m
         in (Some mio, provision_cosmetics X fid (put_tcp fid (up\<lparr>up_mitm := Some m'\<rparr>) fw))))"

definition queue_mitm_output :: "flow_id \<Rightarrow> mitm_io \<Rightarrow> ('c, 'm) forwarder \<Rightarrow> ('c, 'm) forwarder" where
  "queue_mitm_output fid mio fw =
     (case map_of (fw_tcp fw) fid of
        None \<Rightarrow> fw
      | Some up \<Rightarrow>
          put_tcp fid (up\<lparr>up_to_upstream := up_to_upstream up @ mi_to_upstream mio,
                          up_to_app := up_to_app up @ mi_to_app mio\<rparr>) fw)"

definition drive_mitm :: "('c, 'm) sys \<Rightarrow> flow_id \<Rightarrow> ('c, 'm) forwarder \<Rightarrow> ('c, 'm) forwarder" where
  "drive_mitm X fid fw =
     (case map_of (fw_tcp fw) fid of
        None \<Rightarrow> fw
      | Some up \<Rightarrow>
          (case up_mitm up of
             None \<Rightarrow> fw
           | Some m \<Rightarrow>
               (case pump_mitm X fid up m fw of
                  (None, fw) \<Rightarrow> fw
                | (Some mio, fw) \<Rightarrow>
                    (let fw = drain_mitm_transactions X fid (queue_mitm_output fid mio fw)
                     in if mi_closed mio then close_mitm X fid fw else fw))))"

definition feed_mitm :: "('c, 'm) sys \<Rightarrow> flow_id \<Rightarrow> bytes \<Rightarrow> ('c, 'm) forwarder \<Rightarrow> ('c, 'm) forwarder" where
  \<comment> \<open>app bytes, if any, go into the splice\<close>
  "feed_mitm X fid data fw =
     (if data = [] then fw
      else case map_of (fw_tcp fw) fid of
        None \<Rightarrow> fw
      | Some up \<Rightarrow> put_tcp fid (up\<lparr>up_mitm := map_option (mo_recv_from_app (sy_mitm X) data) (up_mitm up)\<rparr>) fw)"

definition feed_and_drive :: "('c, 'm) sys \<Rightarrow> flow_id \<Rightarrow> bytes \<Rightarrow> ('c, 'm) forwarder \<Rightarrow> ('c, 'm) forwarder" where
  "feed_and_drive X fid data fw = drive_mitm X fid (feed_mitm X fid data fw)"

subsection \<open>Opening a flow\<close>

definition requires_enc_dns_intercept :: "('c, 'm) forwarder \<Rightarrow> sock_addr \<Rightarrow> bool" where
  "requires_enc_dns_intercept fw server \<longleftrightarrow> fw_encrypted_dns_mode fw = Enc_Filter \<and> sa_port server = DOT_PORT"

definition new_splice :: "('c, 'm) sys \<Rightarrow> dns_kind option \<Rightarrow> ('c, 'm) forwarder \<Rightarrow> 'm option \<times> ('c, 'm) forwarder" where
  \<comment> \<open>\<open>None\<close> without \<open>MitmConfigs\<close>, or where rustls refuses the session\<close>
  "new_splice X kind fw =
     (if \<not> fw_tls fw then (None, fw)
      else case ask (mo_new (sy_mitm X) kind) fw of
        (None, fw) \<Rightarrow> (None, fw)
      | (Some m, fw) \<Rightarrow> (Some m, bump st_mitm_new_update fw))"

definition new_mitm_if_intercepting ::
  "('c, 'm) sys \<Rightarrow> sock_addr \<Rightarrow> i32 \<Rightarrow> ('c, 'm) forwarder \<Rightarrow> 'm option \<times> ('c, 'm) forwarder" where
  "new_mitm_if_intercepting X server uid fw =
     (if requires_enc_dns_intercept fw server then
        if sint uid \<ge> 0 \<and> (uid, sa_ip server) \<in> set (fw_pinned fw) then (None, fw)
        else new_splice X (Some Kind_Dot) fw
      else if sa_port server \<noteq> HTTPS_PORT \<or> \<not> app_inspects fw uid then (None, fw)
      else if (uid, sa_ip server) \<in> set (fw_pinned fw) then (None, fw)
      else new_splice X None fw)"

definition http_forward_for :: "('c, 'm) forwarder \<Rightarrow> sock_addr \<Rightarrow> http_forward option" where
  "http_forward_for fw server =
     (if fw_http_forward_80 fw \<and> sa_port server = HTTP_PORT
         \<and> (case fw_proxy fw of Some p \<Rightarrow> px_kind p \<in> {Proxy_Http, Proxy_Https} | None \<Rightarrow> False)
      then Some (hf_new (origin_authority server)) else None)"

definition insert_flow ::
  "('c, 'm) sys \<Rightarrow> flow_id \<Rightarrow> sock_addr \<Rightarrow> i32 \<Rightarrow> 'm option \<Rightarrow> classify \<Rightarrow> upstream_io \<Rightarrow> token
    \<Rightarrow> ('c, 'm) forwarder \<Rightarrow> ('c, 'm) forwarder" where
  "insert_flow X fid server uid mitm cls io t fw =
     (let fw = bump st_tcp_new_update fw;
          hf = http_forward_for fw server;
          hs = (if hf \<noteq> None then None else map_option (\<lambda>p. hs_connect p server) (fw_proxy fw));
          fw = fw\<lparr>fw_routes := AList.update t (Route_Tcp fid) (fw_routes fw)\<rparr>;
          (now, fw) = now_ms X fw
      in put_tcp fid
           \<lparr>up_io = io, up_handshake = hs, up_hs_out = [], up_token = t, up_connecting = True,
            up_to_upstream = [], up_write_closed = False, up_mitm = mitm, up_to_app = [], up_uid = uid,
            up_server = server, up_pin_reported = False, up_cosmetic_set = False, up_sni_reported = False,
            up_classify = cls, up_opened_ms = now, up_http_forward = hf\<rparr> fw)"

definition open_tcp ::
  "('c, 'm) sys \<Rightarrow> flow_id \<Rightarrow> sock_addr \<Rightarrow> i32 \<Rightarrow> ('c, 'm) forwarder \<Rightarrow> ('c, 'm) forwarder" where
  "open_tcp X fid server uid fw =
     (let defer = (fw_encrypted_dns_mode fw = Enc_Filter \<and> sa_port server = HTTPS_PORT);
          (mitm, fw) = (if defer then (None, fw) else new_mitm_if_intercepting X server uid fw)
      in if \<not> defer \<and> mitm = None \<and> requires_enc_dns_intercept fw server then abort_app X fid fw
         else
           let (c, fw) = connect_tcp X server fw
           in case c of
                Some (io, t) \<Rightarrow>
                  insert_flow X fid server uid mitm (if defer then PendingSni [] else Settled) io t fw
              | None \<Rightarrow> abort_app X fid (bump st_connect_fail_update fw))"

subsection \<open>Deferred flows\<close>

definition attach_mitm :: "flow_id \<Rightarrow> 'm \<Rightarrow> ('c, 'm) forwarder \<Rightarrow> ('c, 'm) forwarder" where
  "attach_mitm fid m fw =
     (case map_of (fw_tcp fw) fid of None \<Rightarrow> fw | Some up \<Rightarrow> put_tcp fid (up\<lparr>up_mitm := Some m\<rparr>) fw)"

definition queue_raw :: "flow_id \<Rightarrow> bytes \<Rightarrow> ('c, 'm) forwarder \<Rightarrow> ('c, 'm) forwarder" where
  "queue_raw fid data fw =
     (case map_of (fw_tcp fw) fid of
        None \<Rightarrow> fw
      | Some up \<Rightarrow> put_tcp fid (up\<lparr>up_to_upstream := up_to_upstream up @ data\<rparr>) fw)"

definition mark_sni_reported :: "flow_id \<Rightarrow> ('c, 'm) forwarder \<Rightarrow> ('c, 'm) forwarder" where
  "mark_sni_reported fid fw =
     (case map_of (fw_tcp fw) fid of None \<Rightarrow> fw | Some up \<Rightarrow> put_tcp fid (up\<lparr>up_sni_reported := True\<rparr>) fw)"

definition settle_doh :: "('c, 'm) sys \<Rightarrow> flow_id \<Rightarrow> bytes \<Rightarrow> i32 \<Rightarrow> sock_addr \<Rightarrow> ('c, 'm) forwarder \<Rightarrow> ('c, 'm) forwarder" where
  \<comment> \<open>encrypted DNS: filter if we can, else drop\<close>
  "settle_doh X fid buffered uid server fw =
     (let (m, fw) = (if can_intercept_enc_dns fw uid (sa_ip server) then new_splice X (Some Kind_Doh) fw else (None, fw))
      in case m of
           Some m \<Rightarrow> feed_and_drive X fid buffered (attach_mitm fid m fw)
         | None \<Rightarrow>
             teardown_tcp X fid (abort_app X fid
               (push_event X (\<lambda>t. with_uid uid (ev_blocked_flow t server)) fw)))"

definition surface_sni ::
  "('c, 'm) sys \<Rightarrow> flow_id \<Rightarrow> bytes option \<Rightarrow> i32 \<Rightarrow> sock_addr \<Rightarrow> ('c, 'm) forwarder \<Rightarrow> ('c, 'm) forwarder" where
  \<comment> \<open>the name goes to the log while it is open\<close>
  "surface_sni X fid sni uid server fw =
     (if fw_log_open fw then
        mark_sni_reported fid
          (case sni of None \<Rightarrow> fw
           | Some host \<Rightarrow> push_event X (\<lambda>t. with_domain (Some host) (with_uid uid (ev_flow_to t server))) fw)
      else fw)"

definition inspect_or_relay ::
  "('c, 'm) sys \<Rightarrow> flow_id \<Rightarrow> bytes \<Rightarrow> i32 \<Rightarrow> sock_addr \<Rightarrow> ('c, 'm) forwarder \<Rightarrow> ('c, 'm) forwarder" where
  \<comment> \<open>cosmetic interception for an opted-in app, otherwise raw relay\<close>
  "inspect_or_relay X fid buffered uid server fw =
     (let cosmetic = (sa_port server = HTTPS_PORT \<and> app_inspects fw uid
                      \<and> \<not> (sint uid \<ge> 0 \<and> (uid, sa_ip server) \<in> set (fw_pinned fw)));
          (m, fw) = (if cosmetic then new_splice X None fw else (None, fw))
      in case m of
           Some m \<Rightarrow> feed_and_drive X fid buffered (attach_mitm fid m fw)
         | None \<Rightarrow> queue_raw fid buffered fw)"

definition settle_other ::
  "('c, 'm) sys \<Rightarrow> flow_id \<Rightarrow> bytes \<Rightarrow> bytes option \<Rightarrow> i32 \<Rightarrow> sock_addr \<Rightarrow> ('c, 'm) forwarder \<Rightarrow> ('c, 'm) forwarder" where
  "settle_other X fid buffered sni uid server fw =
     inspect_or_relay X fid buffered uid server (surface_sni X fid sni uid server fw)"

definition settle :: "('c, 'm) sys \<Rightarrow> flow_id \<Rightarrow> bytes \<Rightarrow> bytes option \<Rightarrow> i32 \<Rightarrow> sock_addr \<Rightarrow> ('c, 'm) forwarder \<Rightarrow> ('c, 'm) forwarder" where
  "settle X fid buffered sni uid server fw =
     (if (case sni of Some s \<Rightarrow> is_doh_host s | None \<Rightarrow> False) then settle_doh X fid buffered uid server fw
      else settle_other X fid buffered sni uid server fw)"

definition classify_pending :: "('c, 'm) sys \<Rightarrow> flow_id \<Rightarrow> bytes \<Rightarrow> ('c, 'm) forwarder \<Rightarrow> ('c, 'm) forwarder" where
  "classify_pending X fid data fw =
     (case map_of (fw_tcp fw) fid of
        None \<Rightarrow> fw
      | Some up \<Rightarrow>
          (case up_classify up of
             Settled \<Rightarrow> fw
           | PendingSni buf \<Rightarrow>
               (let buf = buf @ data
                in case peek_sni buf of
                     None \<Rightarrow> panic fw
                   | Some peek \<Rightarrow>
                       if peek = NeedMore \<and> \<not> length buf > SNI_PEEK_CAP
                       then put_tcp fid (up\<lparr>up_classify := PendingSni buf\<rparr>) fw
                       else
                         settle X fid buf (case peek of Found s \<Rightarrow> Some s | _ \<Rightarrow> None) (up_uid up) (up_server up)
                           (put_tcp fid (up\<lparr>up_classify := Settled\<rparr>) fw))))"

definition observe_sni :: "('c, 'm) sys \<Rightarrow> flow_id \<Rightarrow> bytes \<Rightarrow> ('c, 'm) forwarder \<Rightarrow> ('c, 'm) forwarder" where
  "observe_sni X fid data fw =
     (case map_of (fw_tcp fw) fid of
        None \<Rightarrow> fw
      | Some up \<Rightarrow>
          if up_sni_reported up \<or> sa_port (up_server up) \<noteq> HTTPS_PORT then fw
          else case peek_sni data of
            None \<Rightarrow> panic fw
          | Some (Found host) \<Rightarrow>
              mark_sni_reported fid
                (push_event X (\<lambda>t. with_domain (Some host) (with_uid (up_uid up) (ev_flow_to t (up_server up)))) fw)
          | Some _ \<Rightarrow> fw)"

subsection \<open>The proxy handshake\<close>

definition tunnel_open :: "('c, 'm) sys \<Rightarrow> flow_id \<Rightarrow> 'm tcp_upstream \<Rightarrow> bytes \<Rightarrow> ('c, 'm) forwarder \<Rightarrow> ('c, 'm) forwarder" where
  \<comment> \<open>bytes past the reply belong to the origin's stream\<close>
  "tunnel_open X fid up leftover fw =
     (let up = up\<lparr>up_handshake := None, up_hs_out := []\<rparr>;
          up = (if leftover = [] then up
                else case up_mitm up of
                  Some m \<Rightarrow> up\<lparr>up_mitm := Some (mo_recv_from_upstream (sy_mitm X) leftover m)\<rparr>
                | None \<Rightarrow> up\<lparr>up_to_app := up_to_app up @ leftover\<rparr>)
      in flush_to_app X fid (put_tcp fid up (bump st_proxy_ok_update fw)))"

definition refuse_proxy :: "('c, 'm) sys \<Rightarrow> flow_id \<Rightarrow> 'm tcp_upstream \<Rightarrow> proxy_error option \<Rightarrow> ('c, 'm) forwarder \<Rightarrow> ('c, 'm) forwarder" where
  \<comment> \<open>a refused CONNECT to port 80 is remembered\<close>
  "refuse_proxy X fid up e fw =
     fail_proxy X fid
       (case e of
          Some (HttpStatus _) \<Rightarrow> if sa_port (up_server up) = HTTP_PORT then fw\<lparr>fw_http_forward_80 := True\<rparr> else fw
        | _ \<Rightarrow> fw)"

definition drain_handshakeless :: "('c, 'm) sys \<Rightarrow> flow_id \<Rightarrow> 'm tcp_upstream \<Rightarrow> ('c, 'm) forwarder \<Rightarrow> ('c, 'm) forwarder" where
  \<comment> \<open>the handler on a flow without a handshake: it stops after draining the socket\<close>
  "drain_handshakeless X fid up fw =
     (case flush_io X (up_io up) (up_hs_out up) fw of
        ((ok, rest), fw) \<Rightarrow>
          if \<not> ok then fail_proxy X fid fw
          else
            let fw = put_tcp fid (up\<lparr>up_hs_out := rest\<rparr>) fw
            in if rest \<noteq> [] then fw
               else (let ((_, e), fw) = read_all X fw in if e = Rx_Error then fail_proxy X fid fw else fw))"

definition drive_proxy_handshake :: "('c, 'm) sys \<Rightarrow> flow_id \<Rightarrow> ('c, 'm) forwarder \<Rightarrow> ('c, 'm) forwarder" where
  "drive_proxy_handshake X fid fw =
     (case map_of (fw_tcp fw) fid of
        None \<Rightarrow> fail_proxy X fid fw
      | Some up \<Rightarrow>
          (let (tls, fw) = finish_tls X (up_io up) fw
           in case tls of
                None \<Rightarrow> fail_proxy X fid fw
              | Some False \<Rightarrow> fw
              | Some True \<Rightarrow>
                  (case up_handshake up of
                     None \<Rightarrow> drain_handshakeless X fid up fw
                   | Some hs \<Rightarrow>
                       (let (r, fw) = pump_handshake X (up_io up) hs (up_hs_out up) fw
                        in case r of
                             Hp_Pending hs' rest \<Rightarrow> put_tcp fid (up\<lparr>up_handshake := Some hs', up_hs_out := rest\<rparr>) fw
                           | Hp_Done _ leftover \<Rightarrow> tunnel_open X fid up leftover fw
                           | Hp_Failed e \<Rightarrow> refuse_proxy X fid up e fw
                           | Hp_Panic \<Rightarrow> panic fw))))"

subsection \<open>Timeouts\<close>

definition pending_sni :: "'m tcp_upstream \<Rightarrow> bool" where
  "pending_sni up = (case up_classify up of PendingSni _ \<Rightarrow> True | Settled \<Rightarrow> False)"

definition reap_pending_sni :: "('c, 'm) sys \<Rightarrow> int \<Rightarrow> ('c, 'm) forwarder \<Rightarrow> ('c, 'm) forwarder" where
  "reap_pending_sni X now fw =
     fold (abort_app X)
       (map fst (filter (\<lambda>(_, up). pending_sni up \<and> now - up_opened_ms up > PENDING_SNI_TIMEOUT_MS) (fw_tcp fw))) fw"

definition reap_tcp_handshakes :: "('c, 'm) sys \<Rightarrow> int \<Rightarrow> ('c, 'm) forwarder \<Rightarrow> ('c, 'm) forwarder" where
  \<comment> \<open>the first half of \<open>reap_proxy_handshakes\<close>\<close>
  "reap_tcp_handshakes X now fw =
     fold (fail_proxy X)
       (map fst (filter (\<lambda>(_, up). up_handshake up \<noteq> None \<and> now - up_opened_ms up > PROXY_HS_TIMEOUT_MS) (fw_tcp fw))) fw"

end
