(* ===== verification/Fw_Udp.thy ===== *)
theory Fw_Udp
  imports Fw_Io
begin

section \<open>UDP and DNS upstream\<close>

text \<open>
  The datagram side of the forwarder: the NAT table of connected sockets, SOCKS5 UDP associations,
  and the one-shot DNS jobs, over TCP through the proxy and over TLS to the resolver.
\<close>

subsection \<open>The NAT table\<close>

definition send_dgram :: "sock \<Rightarrow> bytes \<Rightarrow> ('c, 'm) forwarder \<Rightarrow> ('c, 'm) forwarder" where
  \<comment> \<open>\<open>let _ = socket.send(payload)\<close>\<close>
  "send_dgram s payload fw = tick (emit (E_Send s payload) fw)"

definition udp_key_of :: "udp_datagram \<Rightarrow> udp_key" where
  "udp_key_of dgram = \<lparr>uk_app = ud_src dgram, uk_server = ud_dst dgram\<rparr>"

definition udp_session_for ::
  "('c, 'm) sys \<Rightarrow> udp_datagram \<Rightarrow> sock_addr \<Rightarrow> int \<Rightarrow> ('c, 'm) forwarder \<Rightarrow> bool \<times> ('c, 'm) forwarder" where
  \<comment> \<open>a session exists for the key: an old one, or a new one where the socket could be had\<close>
  "udp_session_for X dgram upstream now fw =
     (let key = udp_key_of dgram
      in if map_of (fw_udp fw) key \<noteq> None then (True, fw)
         else
           let (c, fw) = connect_udp X upstream fw
           in case c of
                None \<Rightarrow> (False, bump st_connect_fail_update fw)
              | Some (s, t) \<Rightarrow>
                  (True, (bump st_udp_new_update fw)
                     \<lparr>fw_routes := AList.update t (Route_Udp key) (fw_routes fw),
                      fw_udp := AList.update key
                        \<lparr>us_socket = s, us_token = t, us_app = ud_src dgram, us_server = ud_dst dgram, us_last_used_ms = now\<rparr>
                        (fw_udp fw)\<rparr>))"

definition forward_udp ::
  "('c, 'm) sys \<Rightarrow> udp_datagram \<Rightarrow> sock_addr \<Rightarrow> ('c, 'm) forwarder \<Rightarrow> ('c, 'm) forwarder" where
  "forward_udp X dgram upstream fw =
     (let key = udp_key_of dgram; (now, fw) = now_ms X fw;
          (have, fw) = udp_session_for X dgram upstream now fw
      in if \<not> have then fw
         else case map_of (fw_udp fw) key of
           None \<Rightarrow> fw
         | Some s \<Rightarrow>
             send_dgram (us_socket s) (ud_payload dgram)
               (fw\<lparr>fw_udp := AList.update key (s\<lparr>us_last_used_ms := now\<rparr>) (fw_udp fw)\<rparr>))"

fun inject_replies ::
  "('c, 'm) sys \<Rightarrow> udp_key \<Rightarrow> sock_addr \<Rightarrow> sock_addr \<Rightarrow> bytes list \<Rightarrow> ('c, 'm) forwarder \<Rightarrow> ('c, 'm) forwarder" where
  \<comment> \<open>each received datagram refreshes the session and goes to the app\<close>
  "inject_replies X key server app [] fw = fw"
| "inject_replies X key server app (d # ds) fw =
     (let (now, fw) = now_ms X fw;
          fw = fw\<lparr>fw_udp := AList.map_entry key (us_last_used_ms_update (\<lambda>_. now)) (fw_udp fw)\<rparr>;
          fw = push_out (build_reply (sy_wire X) server app d) (bump st_upstream_reply_update fw)
      in inject_replies X key server app ds fw)"

definition pump_udp_reply :: "('c, 'm) sys \<Rightarrow> udp_key \<Rightarrow> ('c, 'm) forwarder \<Rightarrow> ('c, 'm) forwarder" where
  "pump_udp_reply X key fw =
     (case map_of (fw_udp fw) key of
        None \<Rightarrow> fw
      | Some s \<Rightarrow>
          (let (ds, fw) = ask (sy_dgrams X) fw in inject_replies X key (us_server s) (us_app s) ds fw))"

definition drop_udp :: "udp_key \<Rightarrow> ('c, 'm) forwarder \<Rightarrow> ('c, 'm) forwarder" where
  "drop_udp key fw =
     (case map_of (fw_udp fw) key of
        None \<Rightarrow> fw
      | Some s \<Rightarrow>
          (deregister (us_socket s) fw)
            \<lparr>fw_udp := AList.delete key (fw_udp fw), fw_routes := AList.delete (us_token s) (fw_routes fw)\<rparr>)"

definition reap_udp :: "int \<Rightarrow> ('c, 'm) forwarder \<Rightarrow> ('c, 'm) forwarder" where
  "reap_udp now fw =
     fold drop_udp (map fst (filter (\<lambda>(_, s). now - us_last_used_ms s > UDP_IDLE_MS) (fw_udp fw))) fw"

subsection \<open>SOCKS5 UDP associations\<close>

definition teardown_socks :: "udp_key \<Rightarrow> ('c, 'm) forwarder \<Rightarrow> ('c, 'm) forwarder" where
  "teardown_socks key fw =
     (case map_of (fw_socks_udp fw) key of
        None \<Rightarrow> fw
      | Some s \<Rightarrow>
          (deregister (ss_relay s) (deregister (ss_ctrl s) fw))
            \<lparr>fw_socks_udp := AList.delete key (fw_socks_udp fw),
             fw_routes := AList.delete (ss_relay_token s) (AList.delete (ss_ctrl_token s) (fw_routes fw))\<rparr>)"

definition reuse_association ::
  "udp_key \<Rightarrow> bytes \<Rightarrow> int \<Rightarrow> socks_session \<Rightarrow> ('c, 'm) forwarder \<Rightarrow> ('c, 'm) forwarder" where
  "reuse_association key payload now s fw =
     (let s = s\<lparr>ss_last_used_ms := now\<rparr>
      in if ss_ready s then
           send_dgram (ss_relay s) (socks5_udp_encapsulate (ss_target s) payload)
             (fw\<lparr>fw_socks_udp := AList.update key s (fw_socks_udp fw)\<rparr>)
         else
           let s = (if length (ss_pending s) < SOCKS_UDP_PENDING_CAP then s\<lparr>ss_pending := ss_pending s @ [payload]\<rparr> else s)
           in fw\<lparr>fw_socks_udp := AList.update key s (fw_socks_udp fw)\<rparr>)"

definition open_association ::
  "('c, 'm) sys \<Rightarrow> proxy \<Rightarrow> udp_datagram \<Rightarrow> sock_addr \<Rightarrow> int \<Rightarrow> ('c, 'm) forwarder \<Rightarrow> ('c, 'm) forwarder" where
  "open_association X p dgram target now fw =
     (let key = udp_key_of dgram; (c, fw) = connect_socks_ctrl X fw
      in case c of
           None \<Rightarrow> bump st_connect_fail_update fw
         | Some (ctrl, ctrl_token) \<Rightarrow>
             let (r, fw) = new_relay_socket X fw
             in case r of
                  None \<Rightarrow> bump st_connect_fail_update (deregister ctrl fw)
                | Some (relay, relay_token) \<Rightarrow>
                    (bump st_udp_new_update fw)
                      \<lparr>fw_routes := AList.update relay_token (Route_SocksRelay key)
                                     (AList.update ctrl_token (Route_SocksCtrl key) (fw_routes fw)),
                       fw_socks_udp := AList.update key
                         \<lparr>ss_ctrl = ctrl, ss_ctrl_token = ctrl_token, ss_ctrl_connecting = True,
                          ss_handshake = Some (hs_udp_associate p), ss_hs_out = [], ss_relay = relay,
                          ss_relay_token = relay_token, ss_app = ud_src dgram, ss_reply_src = ud_dst dgram,
                          ss_target = target, ss_pending = [ud_payload dgram], ss_ready = False,
                          ss_last_used_ms = now\<rparr> (fw_socks_udp fw)\<rparr>)"

definition forward_udp_socks ::
  "('c, 'm) sys \<Rightarrow> udp_datagram \<Rightarrow> sock_addr \<Rightarrow> ('c, 'm) forwarder \<Rightarrow> ('c, 'm) forwarder" where
  "forward_udp_socks X dgram target fw =
     (let key = udp_key_of dgram; (now, fw) = now_ms X fw
      in case map_of (fw_socks_udp fw) key of
           Some s \<Rightarrow> reuse_association key (ud_payload dgram) now s fw
         | None \<Rightarrow>
             (case fw_proxy fw of None \<Rightarrow> fw | Some p \<Rightarrow> open_association X p dgram target now fw))"

fun send_pending :: "sock \<Rightarrow> sock_addr \<Rightarrow> bytes list \<Rightarrow> ('c, 'm) forwarder \<Rightarrow> ('c, 'm) forwarder" where
  "send_pending relay target [] fw = fw"
| "send_pending relay target (p # ps) fw =
     send_pending relay target ps (send_dgram relay (socks5_udp_encapsulate target p) fw)"

definition relay_addr_of :: "ip_addr \<Rightarrow> sock_addr \<Rightarrow> sock_addr" where
  \<comment> \<open>an all-zero bound address means the proxy host\<close>
  "relay_addr_of proxy_ip a = (if is_unspecified (sa_ip a) then SockAddr proxy_ip (sa_port a) else a)"

definition relay_ready ::
  "('c, 'm) sys \<Rightarrow> udp_key \<Rightarrow> sock_addr \<Rightarrow> ('c, 'm) forwarder \<Rightarrow> ('c, 'm) forwarder" where
  "relay_ready X key relay_addr fw =
     (case map_of (fw_socks_udp fw) key of
        None \<Rightarrow> fw
      | Some s \<Rightarrow>
          (let (connected, fw) = ask (sy_ok X) (emit (E_Relay_Connect (ss_relay s) relay_addr) fw)
           in if connected then
                bump st_proxy_ok_update
                  (send_pending (ss_relay s) (ss_target s) (ss_pending s)
                    (fw\<lparr>fw_socks_udp := AList.update key
                         (s\<lparr>ss_handshake := None, ss_ready := True, ss_pending := []\<rparr>) (fw_socks_udp fw)\<rparr>))
              else teardown_socks key fw))"

definition socks_associate_ready ::
  "('c, 'm) sys \<Rightarrow> udp_key \<Rightarrow> sock_addr option \<Rightarrow> ('c, 'm) forwarder \<Rightarrow> ('c, 'm) forwarder" where
  "socks_associate_ready X key bound fw =
     (case (fw_proxy fw, bound) of
        (Some p, Some a) \<Rightarrow> relay_ready X key (relay_addr_of (sa_ip (px_addr p)) a) fw
      | _ \<Rightarrow> teardown_socks key fw)"

definition pump_ctrl :: "('c, 'm) sys \<Rightarrow> udp_key \<Rightarrow> ('c, 'm) forwarder \<Rightarrow> ('c, 'm) forwarder" where
  "pump_ctrl X key fw =
     (case map_of (fw_socks_udp fw) key of
        None \<Rightarrow> fw
      | Some s \<Rightarrow>
          (case ss_handshake s of
             None \<Rightarrow> fw
           | Some hs \<Rightarrow>
               (let (r, fw) = pump_ctrl_handshake X (ss_ctrl s) hs (ss_hs_out s) fw
                in case r of
                     Ctrl_Pending hs' rest \<Rightarrow>
                       fw\<lparr>fw_socks_udp := AList.update key (s\<lparr>ss_handshake := Some hs', ss_hs_out := rest\<rparr>) (fw_socks_udp fw)\<rparr>
                   | Ctrl_Failed \<Rightarrow> teardown_socks key (fw\<lparr>fw_socks_udp_unsupported := True\<rparr>)
                   | Ctrl_Ready bound \<Rightarrow> socks_associate_ready X key bound fw
                   | Ctrl_Panic \<Rightarrow> panic fw)))"

definition drive_socks_ctrl :: "('c, 'm) sys \<Rightarrow> udp_key \<Rightarrow> ('c, 'm) forwarder \<Rightarrow> ('c, 'm) forwarder" where
  "drive_socks_ctrl X key fw =
     (case map_of (fw_socks_udp fw) key of
        Some s \<Rightarrow>
          if ss_ctrl_connecting s then
            (let (err, fw) = take_error X fw;
                 fw = fw\<lparr>fw_socks_udp := AList.update key (s\<lparr>ss_ctrl_connecting := False\<rparr>) (fw_socks_udp fw)\<rparr>
             in if err then teardown_socks key fw else pump_ctrl X key fw)
          else pump_ctrl X key fw
      | None \<Rightarrow> fw)"

fun relay_replies ::
  "('c, 'm) sys \<Rightarrow> udp_key \<Rightarrow> sock_addr \<Rightarrow> sock_addr \<Rightarrow> bytes list \<Rightarrow> ('c, 'm) forwarder \<Rightarrow> ('c, 'm) forwarder" where
  \<comment> \<open>each relayed datagram is decapsulated and sent to the app from what it targeted\<close>
  "relay_replies X key reply_src app [] fw = fw"
| "relay_replies X key reply_src app (d # ds) fw =
     (let (now, fw) = now_ms X fw;
          fw = fw\<lparr>fw_socks_udp := AList.map_entry key (ss_last_used_ms_update (\<lambda>_. now)) (fw_socks_udp fw)\<rparr>;
          fw = bump st_upstream_reply_update fw
      in case socks5_udp_decapsulate d of
           None \<Rightarrow> panic fw
         | Some None \<Rightarrow> relay_replies X key reply_src app ds fw
         | Some (Some (_, payload)) \<Rightarrow>
             relay_replies X key reply_src app ds (push_out (build_reply (sy_wire X) reply_src app payload) fw))"

definition pump_socks_relay :: "('c, 'm) sys \<Rightarrow> udp_key \<Rightarrow> ('c, 'm) forwarder \<Rightarrow> ('c, 'm) forwarder" where
  "pump_socks_relay X key fw =
     (case map_of (fw_socks_udp fw) key of
        None \<Rightarrow> fw
      | Some s \<Rightarrow>
          (let (ds, fw) = ask (sy_dgrams X) fw in relay_replies X key (ss_reply_src s) (ss_app s) ds fw))"

definition reap_socks :: "int \<Rightarrow> ('c, 'm) forwarder \<Rightarrow> ('c, 'm) forwarder" where
  "reap_socks now fw =
     fold teardown_socks (map fst (filter (\<lambda>(_, s). now - ss_last_used_ms s > UDP_IDLE_MS) (fw_socks_udp fw))) fw"

definition give_up_association :: "udp_key \<Rightarrow> ('c, 'm) forwarder \<Rightarrow> ('c, 'm) forwarder" where
  "give_up_association key fw = teardown_socks key (fw\<lparr>fw_socks_udp_unsupported := True\<rparr>)"

definition reap_associations :: "int \<Rightarrow> ('c, 'm) forwarder \<Rightarrow> ('c, 'm) forwarder" where
  \<comment> \<open>the second half of \<open>reap_proxy_handshakes\<close>\<close>
  "reap_associations now fw =
     fold give_up_association
       (map fst (filter (\<lambda>(_, s). ss_handshake s \<noteq> None \<and> now - ss_last_used_ms s > PROXY_HS_TIMEOUT_MS) (fw_socks_udp fw))) fw"

end
