(* ===== verification/Fw_Dns_Jobs.thy ===== *)
theory Fw_Dns_Jobs
  imports Fw_Io
begin

section \<open>One-shot DNS jobs\<close>

text \<open>
  DNS over TCP through the proxy and DNS over TLS or HTTPS to the resolver: one socket per query,
  driven by readiness events until the answer is injected toward the app or the job is dropped.
\<close>

subsection \<open>DNS over TCP through the proxy\<close>

definition teardown_dns_tcp :: "token \<Rightarrow> ('c, 'm) forwarder \<Rightarrow> ('c, 'm) forwarder" where
  "teardown_dns_tcp t fw =
     (case map_of (fw_dns_tcp fw) t of
        None \<Rightarrow> fw
      | Some j \<Rightarrow>
          (deregister (io_sock (dj_io j)) fw)
            \<lparr>fw_dns_tcp := AList.delete t (fw_dns_tcp fw), fw_routes := AList.delete t (fw_routes fw)\<rparr>)"

definition put_dns_tcp :: "token \<Rightarrow> dns_tcp_job \<Rightarrow> ('c, 'm) forwarder \<Rightarrow> ('c, 'm) forwarder" where
  "put_dns_tcp t j fw = fw\<lparr>fw_dns_tcp := AList.update t j (fw_dns_tcp fw)\<rparr>"

definition forward_dns_over_proxy ::
  "('c, 'm) sys \<Rightarrow> udp_datagram \<Rightarrow> sock_addr \<Rightarrow> ('c, 'm) forwarder \<Rightarrow> ('c, 'm) forwarder" where
  "forward_dns_over_proxy X dgram resolver fw =
     (if length (fw_dns_tcp fw) \<ge> DNS_TCP_MAX_JOBS \<or> length (ud_payload dgram) > 65535 then fw
      else case fw_proxy fw of
        None \<Rightarrow> fw
      | Some p \<Rightarrow>
          (let (c, fw) = connect_tcp X resolver fw
           in case c of
                None \<Rightarrow> bump st_connect_fail_update fw
              | Some (io, t) \<Rightarrow>
                  (let (now, fw) = now_ms X (fw\<lparr>fw_routes := AList.update t Route_DnsTcp (fw_routes fw)\<rparr>)
                   in put_dns_tcp t
                        \<lparr>dj_io = io, dj_connecting = True, dj_handshake = Some (hs_connect p resolver),
                         dj_hs_out = [], dj_to_send = frame_query (ud_payload dgram), dj_query_sent = False,
                         dj_resp_buf = [], dj_app = ud_src dgram, dj_reply_src = ud_dst dgram,
                         dj_created_ms = now\<rparr> fw)))"

definition answer_dns_tcp ::
  "('c, 'm) sys \<Rightarrow> token \<Rightarrow> bool \<Rightarrow> ('c, 'm) forwarder \<Rightarrow> ('c, 'm) forwarder" where
  \<comment> \<open>the end of a drive: reply and finish once a full message is buffered, drop at the end of the stream\<close>
  "answer_dns_tcp X t eof fw =
     (case map_of (fw_dns_tcp fw) t of
        None \<Rightarrow> fw
      | Some j \<Rightarrow>
          (case take_dns_tcp_response (dj_resp_buf j) of
             Some message \<Rightarrow>
               teardown_dns_tcp t (bump st_upstream_reply_update
                 (push_out (build_reply (sy_wire X) (dj_reply_src j) (dj_app j) message) fw))
           | None \<Rightarrow> if eof then teardown_dns_tcp t fw else fw))"

definition exchange_dns_tcp :: "('c, 'm) sys \<Rightarrow> token \<Rightarrow> ('c, 'm) forwarder \<Rightarrow> ('c, 'm) forwarder" where
  \<comment> \<open>the tunnel is open: send the query, read the response\<close>
  "exchange_dns_tcp X t fw =
     (case map_of (fw_dns_tcp fw) t of
        None \<Rightarrow> fw
      | Some j \<Rightarrow>
          let (send_failed, j, fw) =
                (if dj_handshake j = None \<and> \<not> dj_query_sent j then
                   (case flush_io X (dj_io j) (dj_to_send j) fw of
                      ((ok, rest), fw) \<Rightarrow>
                        if ok then (False, j\<lparr>dj_to_send := rest, dj_query_sent := (rest = [])\<rparr>, fw)
                        else (True, j\<lparr>dj_to_send := rest\<rparr>, fw))
                 else (False, j, fw))
          in if send_failed then teardown_dns_tcp t fw
             else if \<not> dj_query_sent j then answer_dns_tcp X t False (put_dns_tcp t j fw)
             else
               let ((input, e), fw) = read_all X fw
               in answer_dns_tcp X t (e \<noteq> Rx_Open)
                    (put_dns_tcp t (j\<lparr>dj_resp_buf := dj_resp_buf j @ input\<rparr>) fw))"

definition tunnel_dns_tcp :: "('c, 'm) sys \<Rightarrow> token \<Rightarrow> ('c, 'm) forwarder \<Rightarrow> ('c, 'm) forwarder" where
  "tunnel_dns_tcp X t fw =
     (case map_of (fw_dns_tcp fw) t of
        None \<Rightarrow> fw
      | Some j \<Rightarrow>
          (case dj_handshake j of
             None \<Rightarrow> exchange_dns_tcp X t fw
           | Some hs \<Rightarrow>
               (let (r, fw) = pump_handshake_io X (dj_io j) hs (dj_hs_out j) fw
                in case r of
                     Hp_Pending hs' rest \<Rightarrow> put_dns_tcp t (j\<lparr>dj_handshake := Some hs', dj_hs_out := rest\<rparr>) fw
                   | Hp_Failed _ \<Rightarrow> teardown_dns_tcp t fw
                   | Hp_Panic \<Rightarrow> panic fw
                   | Hp_Done _ leftover \<Rightarrow>
                       exchange_dns_tcp X t (put_dns_tcp t
                         (j\<lparr>dj_handshake := None, dj_hs_out := [], dj_resp_buf := dj_resp_buf j @ leftover\<rparr>) fw))))"

definition drive_dns_tcp :: "('c, 'm) sys \<Rightarrow> token \<Rightarrow> ('c, 'm) forwarder \<Rightarrow> ('c, 'm) forwarder" where
  "drive_dns_tcp X t fw =
     (case map_of (fw_dns_tcp fw) t of
        None \<Rightarrow> fw
      | Some j \<Rightarrow>
          if dj_connecting j then
            (let (err, fw) = take_error X fw; fw = put_dns_tcp t (j\<lparr>dj_connecting := False\<rparr>) fw
             in if err then teardown_dns_tcp t fw else tunnel_dns_tcp X t fw)
          else tunnel_dns_tcp X t fw)"

definition reap_dns_tcp :: "int \<Rightarrow> ('c, 'm) forwarder \<Rightarrow> ('c, 'm) forwarder" where
  "reap_dns_tcp now fw =
     fold teardown_dns_tcp (map fst (filter (\<lambda>(_, j). now - dj_created_ms j > DNS_TCP_TIMEOUT_MS) (fw_dns_tcp fw))) fw"

subsection \<open>DNS over TLS and HTTPS\<close>

definition teardown_dns_tls :: "token \<Rightarrow> ('c, 'm) forwarder \<Rightarrow> ('c, 'm) forwarder" where
  "teardown_dns_tls t fw =
     (case map_of (fw_dns_tls fw) t of
        None \<Rightarrow> fw
      | Some j \<Rightarrow>
          (deregister (io_sock (tj_io j)) fw)
            \<lparr>fw_dns_tls := AList.delete t (fw_dns_tls fw), fw_routes := AList.delete t (fw_routes fw)\<rparr>)"

definition put_dns_tls :: "token \<Rightarrow> dns_tls_job \<Rightarrow> ('c, 'm) forwarder \<Rightarrow> ('c, 'm) forwarder" where
  "put_dns_tls t j fw = fw\<lparr>fw_dns_tls := AList.update t j (fw_dns_tls fw)\<rparr>"

definition mode_of :: "dns_transport \<Rightarrow> dns_tls_mode option" where
  "mode_of transport = (case transport of Dns_Dot \<Rightarrow> Some Mode_Dot | Dns_Doh \<Rightarrow> Some Mode_Doh | Dns_Plain \<Rightarrow> None)"

definition dns_tls_query :: "dns_tls_mode \<Rightarrow> bytes \<Rightarrow> bytes option \<Rightarrow> bytes \<Rightarrow> bytes" where
  "dns_tls_query mode host path payload =
     (case mode of
        Mode_Dot \<Rightarrow> frame_query payload
      | Mode_Doh \<Rightarrow> Doh_Request.doh_request host (case path of Some p \<Rightarrow> p | None \<Rightarrow> asc ''/dns-query'') payload)"

definition forward_dns_tls ::
  "('c, 'm) sys \<Rightarrow> udp_datagram \<Rightarrow> sock_addr \<Rightarrow> ('c, 'm) forwarder \<Rightarrow> ('c, 'm) forwarder" where
  "forward_dns_tls X dgram dial fw =
     (if length (fw_dns_tls fw) \<ge> DNS_TLS_MAX_JOBS \<or> length (ud_payload dgram) > 65535 then fw
      else case mode_of (fw_dns_transport fw) of
        None \<Rightarrow> fw
      | Some mode \<Rightarrow>
          (case fw_dns_host fw of
             None \<Rightarrow> fw
           | Some host \<Rightarrow>
               (let (c, fw) = connect_dns_tls X dial fw
                in case c of
                     None \<Rightarrow> bump st_connect_fail_update fw
                   | Some (io, t) \<Rightarrow>
                       (let to_send = dns_tls_query mode host (fw_dns_path fw) (ud_payload dgram);
                            (now, fw) = now_ms X (fw\<lparr>fw_routes := AList.update t Route_DnsTls (fw_routes fw)\<rparr>)
                        in put_dns_tls t
                             \<lparr>tj_io = io, tj_connecting = True, tj_mode = mode, tj_to_send = to_send,
                              tj_query_sent = False, tj_resp_buf = [], tj_app = ud_src dgram,
                              tj_reply_src = ud_dst dgram, tj_created_ms = now\<rparr> fw))))"

definition dns_tls_message :: "dns_tls_job \<Rightarrow> bool \<Rightarrow> bytes option" where
  "dns_tls_message j eof =
     (case tj_mode j of
        Mode_Dot \<Rightarrow> take_dns_tcp_response (tj_resp_buf j)
      | Mode_Doh \<Rightarrow> take_doh_response (tj_resp_buf j) eof)"

definition answer_dns_tls ::
  "('c, 'm) sys \<Rightarrow> token \<Rightarrow> bool \<Rightarrow> ('c, 'm) forwarder \<Rightarrow> ('c, 'm) forwarder" where
  "answer_dns_tls X t eof fw =
     (case map_of (fw_dns_tls fw) t of
        None \<Rightarrow> fw
      | Some j \<Rightarrow>
          (case dns_tls_message j eof of
             Some message \<Rightarrow>
               teardown_dns_tls t (bump st_upstream_reply_update
                 (push_out (build_reply (sy_wire X) (tj_reply_src j) (tj_app j) message) fw))
           | None \<Rightarrow> if eof then teardown_dns_tls t fw else fw))"

definition exchange_dns_tls :: "('c, 'm) sys \<Rightarrow> token \<Rightarrow> ('c, 'm) forwarder \<Rightarrow> ('c, 'm) forwarder" where
  \<comment> \<open>the TLS handshake was over when last asked; it is asked again before the query is sent\<close>
  "exchange_dns_tls X t fw =
     (case map_of (fw_dns_tls fw) t of
        None \<Rightarrow> fw
      | Some j \<Rightarrow>
          let (busy, fw) = tls_handshaking X (tj_io j) fw;
              (send_failed, j, fw) =
                (if \<not> busy \<and> \<not> tj_query_sent j then
                   (case flush_io X (tj_io j) (tj_to_send j) fw of
                      ((ok, rest), fw) \<Rightarrow>
                        if ok then (False, j\<lparr>tj_to_send := rest, tj_query_sent := (rest = [])\<rparr>, fw)
                        else (True, j\<lparr>tj_to_send := rest\<rparr>, fw))
                 else (False, j, fw))
          in if send_failed then teardown_dns_tls t fw
             else if \<not> tj_query_sent j then answer_dns_tls X t False (put_dns_tls t j fw)
             else
               let ((input, e), fw) = read_all X fw
               in answer_dns_tls X t (e \<noteq> Rx_Open)
                    (put_dns_tls t (j\<lparr>tj_resp_buf := tj_resp_buf j @ input\<rparr>) fw))"

definition secure_dns_tls :: "('c, 'm) sys \<Rightarrow> token \<Rightarrow> ('c, 'm) forwarder \<Rightarrow> ('c, 'm) forwarder" where
  "secure_dns_tls X t fw =
     (case map_of (fw_dns_tls fw) t of
        None \<Rightarrow> fw
      | Some j \<Rightarrow>
          (let (tls, fw) = finish_tls X (tj_io j) fw
           in case tls of
                None \<Rightarrow> teardown_dns_tls t fw
              | Some False \<Rightarrow> fw
              | Some True \<Rightarrow> exchange_dns_tls X t fw))"

definition drive_dns_tls :: "('c, 'm) sys \<Rightarrow> token \<Rightarrow> ('c, 'm) forwarder \<Rightarrow> ('c, 'm) forwarder" where
  "drive_dns_tls X t fw =
     (case map_of (fw_dns_tls fw) t of
        None \<Rightarrow> fw
      | Some j \<Rightarrow>
          if tj_connecting j then
            (let (err, fw) = take_error X fw; fw = put_dns_tls t (j\<lparr>tj_connecting := False\<rparr>) fw
             in if err then teardown_dns_tls t fw else secure_dns_tls X t fw)
          else secure_dns_tls X t fw)"

definition reap_dns_tls :: "int \<Rightarrow> ('c, 'm) forwarder \<Rightarrow> ('c, 'm) forwarder" where
  "reap_dns_tls now fw =
     fold teardown_dns_tls (map fst (filter (\<lambda>(_, j). now - tj_created_ms j > DNS_TLS_TIMEOUT_MS) (fw_dns_tls fw))) fw"

end
