(* ===== verification/Fw_Packet.thy ===== *)
theory Fw_Packet
  imports Fw_Tcp Fw_Udp Fw_Dns_Jobs
begin

section \<open>Packets from the tunnel\<close>

text \<open>
  \<open>on_tun_packet\<close>: every packet an app sends is captured, decoded, judged by the firewall, the
  proxy's state and the encrypted-DNS mode, reported, and forwarded.
\<close>

definition refuse_tcp :: "('c, 'm) sys \<Rightarrow> bytes \<Rightarrow> decoded \<Rightarrow> i32 \<Rightarrow> ('c, 'm) forwarder \<Rightarrow> ('c, 'm) forwarder" where
  \<comment> \<open>a reset so that the app fails fast, and a block event\<close>
  "refuse_tcp X packet d uid fw =
     push_event X (\<lambda>t. with_uid uid (ev_blocked t d)) (push_out (reset_for_syn (sy_wire X) packet) fw)"

definition report_flow ::
  "('c, 'm) sys \<Rightarrow> decoded \<Rightarrow> i32 \<Rightarrow> L4 \<Rightarrow> bool \<Rightarrow> bytes option option \<Rightarrow> ('c, 'm) forwarder \<Rightarrow> ('c, 'm) forwarder" where
  \<comment> \<open>one event of an allowed packet, or its share of the coarse window\<close>
  "report_flow X d uid proto is_dns domain fw =
     (if coarse_mode fw uid then coarse_add (d_length d) proto is_dns fw
      else push_event X (\<lambda>t. case domain of
             None \<Rightarrow> with_uid uid (ev_flow t d)
           | Some name \<Rightarrow> with_domain name (with_uid uid (ev_flow t d))) fw)"

definition dot_refused :: "('c, 'm) forwarder \<Rightarrow> decoded \<Rightarrow> i32 \<Rightarrow> bool" where
  \<comment> \<open>DoT under Block, or under Filter where it cannot be intercepted\<close>
  "dot_refused fw d uid \<longleftrightarrow> d_dst_port d = DOT_PORT
     \<and> fw_encrypted_dns_mode fw \<noteq> Enc_Off
     \<and> \<not> (fw_encrypted_dns_mode fw = Enc_Filter \<and> can_intercept_enc_dns fw uid (d_dst d))"

definition forward_tcp_packet :: "('c, 'm) sys \<Rightarrow> bytes \<Rightarrow> decoded \<Rightarrow> i32 \<Rightarrow> ('c, 'm) forwarder \<Rightarrow> ('c, 'm) forwarder" where
  "forward_tcp_packet X packet d uid fw =
     (let fw = report_flow X d uid L4_Tcp False None fw;
          (new_flow, ns) = on_tcp_packet (sy_wire X) (sy_smol X) packet (fw_stack fw);
          fw = fw\<lparr>fw_stack := ns\<rparr>
      in case new_flow of None \<Rightarrow> fw | Some (fid, server) \<Rightarrow> open_tcp X fid server uid fw)"

definition on_tcp :: "('c, 'm) sys \<Rightarrow> bytes \<Rightarrow> decoded \<Rightarrow> ('c, 'm) forwarder \<Rightarrow> ('c, 'm) forwarder" where
  "on_tcp X packet d fw =
     (let (v, fw) = verdict_for X d IPPROTO_TCP fw
      in if vd_blocked v then refuse_tcp X packet d (vd_uid v) fw
         else if fw_proxy_broken fw then
           push_event X (\<lambda>t. with_uid (vd_uid v) (ev_blocked t d))
             (bump st_fail_closed_update (push_out (reset_for_syn (sy_wire X) packet) fw))
         else if dot_refused fw d (vd_uid v) then refuse_tcp X packet d (vd_uid v) fw
         else forward_tcp_packet X packet d (vd_uid v) fw)"

datatype dns_outcome = Sinkholed | Forward_Dns "bytes option" | Dns_Panic

definition handle_dns ::
  "('c, 'm) sys \<Rightarrow> decoded \<Rightarrow> udp_datagram \<Rightarrow> ('c, 'm) forwarder \<Rightarrow> dns_outcome \<times> ('c, 'm) forwarder" where
  "handle_dns X d dgram fw =
     (case parse_query (ud_payload dgram) of
        None \<Rightarrow> (Dns_Panic, panic fw)
      | Some None \<Rightarrow> (Forward_Dns None, fw)
      | Some (Some q) \<Rightarrow>
          if \<not> engine_blocks fw (q_name q) then (Forward_Dns (Some (q_name q)), fw)
          else case synthesize_nxdomain (ud_payload dgram) q of
            None \<Rightarrow> (Dns_Panic, panic fw)
          | Some response \<Rightarrow>
              (Sinkholed,
               push_event X (\<lambda>t. ev_blocked_domain t d (q_name q))
                 (push_out (build_reply (sy_wire X) (ud_dst dgram) (ud_src dgram) response) fw)))"

definition proxy_udp :: "('c, 'm) forwarder \<Rightarrow> bool option" where
  "proxy_udp fw = map_option supports_udp (fw_proxy fw)"

definition route_dns :: "('c, 'm) sys \<Rightarrow> udp_datagram \<Rightarrow> ('c, 'm) forwarder \<Rightarrow> ('c, 'm) forwarder" where
  \<comment> \<open>an allowed DNS query: through the proxy when the switch is on, else directly to the resolver\<close>
  "route_dns X dgram fw =
     (if fw_proxy fw \<noteq> None \<and> fw_proxy_dns_over_tcp fw then
        (let resolver = dns_upstream_plain fw (ud_dst dgram)
         in if proxy_udp fw = Some True \<and> \<not> fw_socks_udp_unsupported fw
            then forward_udp_socks X dgram resolver fw
            else forward_dns_over_proxy X dgram resolver fw)
      else
        (let upstream = dns_upstream fw (ud_dst dgram)
         in case fw_dns_transport fw of
              Dns_Plain \<Rightarrow> forward_udp X dgram upstream fw
            | _ \<Rightarrow> forward_dns_tls X dgram upstream fw))"

definition route_datagram :: "('c, 'm) sys \<Rightarrow> udp_datagram \<Rightarrow> ('c, 'm) forwarder \<Rightarrow> ('c, 'm) forwarder" where
  "route_datagram X dgram fw =
     (if proxy_udp fw = Some True then forward_udp_socks X dgram (ud_dst dgram) fw
      else forward_udp X dgram (ud_dst dgram) fw)"

definition forward_datagram ::
  "('c, 'm) sys \<Rightarrow> decoded \<Rightarrow> i32 \<Rightarrow> bool \<Rightarrow> udp_datagram \<Rightarrow> ('c, 'm) forwarder \<Rightarrow> ('c, 'm) forwarder" where
  "forward_datagram X d uid is_dns dgram fw =
     (if is_dns then
        (let (outcome, fw) = handle_dns X d dgram fw
         in case outcome of
              Forward_Dns name \<Rightarrow> route_dns X dgram (report_flow X d uid L4_Udp True (Some name) fw)
            | _ \<Rightarrow> fw)
      else route_datagram X dgram (report_flow X d uid L4_Udp False (Some None) fw))"

definition quic_dns_refused :: "('c, 'm) forwarder \<Rightarrow> decoded \<Rightarrow> bool" where
  \<comment> \<open>DoQ always, DoH3 to the addresses of known resolvers\<close>
  "quic_dns_refused fw d \<longleftrightarrow> fw_encrypted_dns_mode fw \<noteq> Enc_Off
     \<and> (d_dst_port d = DOT_PORT \<or> d_dst_port d = HTTPS_PORT \<and> is_known_doh_ip (d_dst d))"

definition dns_port :: "u16 \<Rightarrow> bool" where
  "dns_port p \<longleftrightarrow> p = 53 \<or> p = 5353"

definition udp_admitted :: "('c, 'm) sys \<Rightarrow> bytes \<Rightarrow> decoded \<Rightarrow> i32 \<Rightarrow> ('c, 'm) forwarder \<Rightarrow> ('c, 'm) forwarder" where
  \<comment> \<open>past every refusal\<close>
  "udp_admitted X packet d uid fw =
     (let is_dns = dns_port (d_dst_port d)
      in case udp_parse (sy_wire X) packet of
           Some dgram \<Rightarrow> forward_datagram X d uid is_dns dgram fw
         | None \<Rightarrow> report_flow X d uid L4_Udp is_dns None fw)"

definition on_udp :: "('c, 'm) sys \<Rightarrow> bytes \<Rightarrow> decoded \<Rightarrow> ('c, 'm) forwarder \<Rightarrow> ('c, 'm) forwarder" where
  "on_udp X packet d fw =
     (if quic_dns_refused fw d then push_event X (\<lambda>t. ev_blocked t d) fw
      else
        let (v, fw) = verdict_for X d IPPROTO_UDP fw; uid = vd_uid v;
            refuse = push_event X (\<lambda>t. with_uid uid (ev_blocked t d))
        in if vd_blocked v then refuse fw
           else if fw_proxy_broken fw then refuse (bump st_fail_closed_update fw)
           else if proxy_udp fw = Some False \<and> \<not> dns_port (d_dst_port d) then refuse (bump st_fail_closed_update fw)
           else if fw_cosmetic_element_hiding fw \<and> d_dst_port d = HTTPS_PORT \<and> app_inspects fw uid then refuse fw
           else udp_admitted X packet d uid fw)"

definition on_tun_packet :: "('c, 'm) sys \<Rightarrow> bytes \<Rightarrow> ('c, 'm) forwarder \<Rightarrow> ('c, 'm) forwarder" where
  "on_tun_packet X packet fw =
     (let fw = tap X packet (bump st_tun_in_update fw)
      in case decode packet of
           None \<Rightarrow> panic fw
         | Some None \<Rightarrow> fw
         | Some (Some d) \<Rightarrow>
             (case d_proto d of
                L4_Tcp \<Rightarrow> on_tcp X packet d fw
              | L4_Udp \<Rightarrow> on_udp X packet d fw
              | _ \<Rightarrow>
                  if coarse_mode fw (-1) then coarse_add (d_length d) (d_proto d) False fw
                  else push_event X (\<lambda>t. ev_flow t d) fw))"

end
