(* ===== verification/Fw_Service.thy ===== *)
theory Fw_Service
  imports Fw_Packet
begin

section \<open>The service pass and readiness events\<close>

text \<open>
  \<open>service\<close> advances the stack and pumps every flow; \<open>on_ready\<close> handles the readiness of one
  upstream socket. The datapath loop interleaves them with packets and setting changes in any
  order: the steps of the forwarder as a whole.
\<close>

subsection \<open>One service pass\<close>

definition unless_panic :: "(('c, 'm) forwarder \<Rightarrow> ('c, 'm) forwarder) \<Rightarrow> ('c, 'm) forwarder \<Rightarrow> ('c, 'm) forwarder" where
  \<comment> \<open>nothing runs after a panic\<close>
  "unless_panic f fw = (if fw_panic fw then fw else f fw)"

definition close_flow :: "('c, 'm) sys \<Rightarrow> flow_id \<Rightarrow> ('c, 'm) forwarder \<Rightarrow> ('c, 'm) forwarder" where
  "close_flow X fid fw =
     (let fw = teardown_tcp X fid fw in fw\<lparr>fw_stack := remove_flow (sy_smol X) fid (fw_stack fw)\<rparr>)"

definition take_app_data :: "('c, 'm) sys \<Rightarrow> flow_id \<Rightarrow> ('c, 'm) forwarder \<Rightarrow> bytes \<times> ('c, 'm) forwarder" where
  "take_app_data X fid fw =
     (let (data, ns) = tcp_take_app_data (sy_smol X) fid (fw_stack fw) in (data, fw\<lparr>fw_stack := ns\<rparr>))"

definition app_finished :: "('c, 'm) sys \<Rightarrow> flow_id \<Rightarrow> ('c, 'm) forwarder \<Rightarrow> bool" where
  "app_finished X fid fw = tcp_app_finished (sy_smol X) fid (fw_stack fw)"

definition flow_pending :: "flow_id \<Rightarrow> ('c, 'm) forwarder \<Rightarrow> bool" where
  "flow_pending fid fw = (case map_of (fw_tcp fw) fid of Some up \<Rightarrow> pending_sni up | None \<Rightarrow> False)"

definition flow_mitm :: "flow_id \<Rightarrow> ('c, 'm) forwarder \<Rightarrow> bool" where
  "flow_mitm fid fw = (case map_of (fw_tcp fw) fid of Some up \<Rightarrow> up_mitm up \<noteq> None | None \<Rightarrow> False)"

definition service_pending :: "('c, 'm) sys \<Rightarrow> flow_id \<Rightarrow> bytes \<Rightarrow> ('c, 'm) forwarder \<Rightarrow> ('c, 'm) forwarder" where
  "service_pending X fid data fw =
     unless_panic
       (\<lambda>fw. let fw = flush_to_app X fid (flush_to_upstream X fid fw)
             in if flow_pending fid fw \<and> app_finished X fid fw then abort_app X fid fw else fw)
       (classify_pending X fid data fw)"

definition half_close :: "('c, 'm) sys \<Rightarrow> flow_id \<Rightarrow> ('c, 'm) forwarder \<Rightarrow> ('c, 'm) forwarder" where
  \<comment> \<open>the app's half-close, once its data is drained and never while connecting\<close>
  "half_close X fid fw =
     (if \<not> app_finished X fid fw then fw
      else case map_of (fw_tcp fw) fid of
        None \<Rightarrow> fw
      | Some up \<Rightarrow>
          if up_to_upstream up = [] \<and> \<not> up_write_closed up \<and> \<not> up_connecting up
          then put_tcp fid (up\<lparr>up_write_closed := True\<rparr>) (shutdown_write X (up_io up) fw) else fw)"

definition relay_app_data :: "('c, 'm) sys \<Rightarrow> flow_id \<Rightarrow> bytes \<Rightarrow> ('c, 'm) forwarder \<Rightarrow> bool \<times> ('c, 'm) forwarder" where
  \<comment> \<open>the app's bytes toward the upstream queue; whether the flow goes on in this pass\<close>
  "relay_app_data X fid data fw =
     (if flow_mitm fid fw then (True, drive_mitm X fid (feed_mitm X fid data fw))
      else if data = [] then (True, fw)
      else case map_of (fw_tcp fw) fid of
        None \<Rightarrow> (True, fw)
      | Some up \<Rightarrow>
          (case up_http_forward up of
             Some hf \<Rightarrow>
               (case hf_push hf data of
                  (Inr out, hf') \<Rightarrow> (True, queue_raw fid out (put_tcp fid (up\<lparr>up_http_forward := Some hf'\<rparr>) fw))
                | (Inl e, hf') \<Rightarrow> (False, fail_proxy X fid (put_tcp fid (up\<lparr>up_http_forward := Some hf'\<rparr>) fw)))
           | None \<Rightarrow> (True, unless_panic (queue_raw fid data) (if fw_log_open fw then observe_sni X fid data fw else fw))))"

definition service_relay :: "('c, 'm) sys \<Rightarrow> flow_id \<Rightarrow> bytes \<Rightarrow> ('c, 'm) forwarder \<Rightarrow> ('c, 'm) forwarder" where
  "service_relay X fid data fw =
     (let (go, fw) = relay_app_data X fid data fw
      in if go then unless_panic (\<lambda>fw. half_close X fid (flush_to_app X fid (flush_to_upstream X fid fw))) fw else fw)"

definition service_flow :: "('c, 'm) sys \<Rightarrow> flow_id \<Rightarrow> ('c, 'm) forwarder \<Rightarrow> ('c, 'm) forwarder" where
  \<comment> \<open>relay is deferred until the upstream tunnel is open\<close>
  "service_flow X fid fw =
     (case map_option (\<lambda>up. (up_connecting up, up_handshake up \<noteq> None)) (map_of (fw_tcp fw) fid) of
        Some (True, _) \<Rightarrow> fw
      | Some (False, True) \<Rightarrow> drive_proxy_handshake X fid fw
      | _ \<Rightarrow>
          (let (data, fw) = take_app_data X fid fw
           in if flow_pending fid fw then service_pending X fid data fw else service_relay X fid data fw))"

definition reap_proxy_handshakes :: "('c, 'm) sys \<Rightarrow> int \<Rightarrow> ('c, 'm) forwarder \<Rightarrow> ('c, 'm) forwarder" where
  "reap_proxy_handshakes X now fw = reap_associations now (reap_tcp_handshakes X now fw)"

definition drain_stack_outbound :: "('c, 'm) forwarder \<Rightarrow> ('c, 'm) forwarder" where
  "drain_stack_outbound fw =
     (let (packets, ns) = drain_outbound (fw_stack fw) in fw\<lparr>fw_outbox := fw_outbox fw @ packets, fw_stack := ns\<rparr>)"

definition reap_all :: "('c, 'm) sys \<Rightarrow> int \<Rightarrow> ('c, 'm) forwarder \<Rightarrow> ('c, 'm) forwarder" where
  "reap_all X now fw =
     drain_stack_outbound (reap_pending_sni X now (reap_proxy_handshakes X now
       (reap_dns_tls now (reap_dns_tcp now (reap_socks now (reap_udp now fw))))))"

definition service :: "('c, 'm) sys \<Rightarrow> ('c, 'm) forwarder \<Rightarrow> ('c, 'm) forwarder" where
  "service X fw =
     (let (now, fw) = now_ms X fw;
          (closed, ns) = ns_poll (sy_smol X) now (fw_stack fw);
          fw = fold (close_flow X) closed (fw\<lparr>fw_stack := ns\<rparr>);
          fw = fold (\<lambda>fid. unless_panic (service_flow X fid)) (active_flows (fw_stack fw)) fw
      in unless_panic (reap_all X now) fw)"

subsection \<open>Readiness\<close>

record ready =
  rd_readable :: bool
  rd_writable :: bool
  rd_read_closed :: bool
  rd_write_closed :: bool

definition tcp_readable :: "('c, 'm) sys \<Rightarrow> flow_id \<Rightarrow> bool \<Rightarrow> ('c, 'm) forwarder \<Rightarrow> ('c, 'm) forwarder" where
  \<comment> \<open>pull from the upstream: through the splice, or straight to the app\<close>
  "tcp_readable X fid is_mitm fw =
     (if is_mitm then unless_panic (flush_to_app X fid) (drive_mitm X fid (read_upstream_into_mitm X fid fw))
      else pump_upstream_to_app X fid fw)"

definition tcp_relay_ready :: "('c, 'm) sys \<Rightarrow> flow_id \<Rightarrow> ready \<Rightarrow> ('c, 'm) forwarder \<Rightarrow> ('c, 'm) forwarder" where
  "tcp_relay_ready X fid r fw =
     (let fw = (if rd_writable r then flush_to_upstream X fid fw else fw);
          is_mitm = flow_mitm fid fw;
          fw = (if rd_readable r then tcp_readable X fid is_mitm fw else fw)
      in if rd_read_closed r \<or> rd_write_closed r
         then unless_panic (\<lambda>fw. unless_panic (close_app X fid) (tcp_readable X fid is_mitm fw)) fw else fw)"

definition tcp_connected :: "('c, 'm) sys \<Rightarrow> flow_id \<Rightarrow> ('c, 'm) forwarder \<Rightarrow> bool \<times> ('c, 'm) forwarder" where
  \<comment> \<open>the first writable: a failed connect has its error latched on the socket\<close>
  "tcp_connected X fid fw =
     (case map_of (fw_tcp fw) fid of
        Some up \<Rightarrow>
          if up_connecting up then
            (let (err, fw) = take_error X fw; fw = put_tcp fid (up\<lparr>up_connecting := False\<rparr>) fw
             in if err then (False, abort_app X fid (bump st_connect_fail_update fw)) else (True, fw))
          else (True, fw)
      | None \<Rightarrow> (True, fw))"

definition on_ready_tcp :: "('c, 'm) sys \<Rightarrow> flow_id \<Rightarrow> ready \<Rightarrow> ('c, 'm) forwarder \<Rightarrow> ('c, 'm) forwarder" where
  "on_ready_tcp X fid r fw =
     (let (ok, fw) = (if rd_writable r then tcp_connected X fid fw else (True, fw))
      in if \<not> ok then fw
         else case map_of (fw_tcp fw) fid of
           Some up \<Rightarrow> if up_handshake up \<noteq> None then drive_proxy_handshake X fid fw else tcp_relay_ready X fid r fw
         | None \<Rightarrow> tcp_relay_ready X fid r fw)"

definition on_ready :: "('c, 'm) sys \<Rightarrow> token \<Rightarrow> ready \<Rightarrow> ('c, 'm) forwarder \<Rightarrow> ('c, 'm) forwarder" where
  "on_ready X t r fw =
     (case map_of (fw_routes fw) t of
        Some (Route_Tcp fid) \<Rightarrow> on_ready_tcp X fid r fw
      | Some (Route_Udp key) \<Rightarrow> pump_udp_reply X key fw
      | Some (Route_SocksCtrl key) \<Rightarrow>
          if (case map_of (fw_socks_udp fw) key of Some s \<Rightarrow> ss_handshake s \<noteq> None | None \<Rightarrow> False)
          then drive_socks_ctrl X key fw
          else if rd_read_closed r \<or> rd_write_closed r then teardown_socks key fw else fw
      | Some (Route_SocksRelay key) \<Rightarrow> if rd_readable r then pump_socks_relay X key fw else fw
      | Some Route_DnsTcp \<Rightarrow> drive_dns_tcp X t fw
      | Some Route_DnsTls \<Rightarrow> drive_dns_tls X t fw
      | None \<Rightarrow> fw)"

subsection \<open>Steps of the forwarder\<close>

definition flush_batch :: "('c, 'm) sys \<Rightarrow> ('c, 'm) forwarder \<Rightarrow> bytes option \<times> ('c, 'm) forwarder" where
  \<comment> \<open>the datapath thread empties the batcher, the coarse window folded into it\<close>
  "flush_batch X fw =
     (let (coarse, fw) = take_coarse X fw;
          (blob, events) = drain_encoded (case coarse of Some e \<Rightarrow> batcher_push e (fw_events fw) | None \<Rightarrow> fw_events fw)
      in (blob, fw\<lparr>fw_events := events\<rparr>))"

datatype fw_op =
    Op_Packet bytes | Op_Service | Op_Ready token ready | Op_TakeOutbox | Op_TakeStats | Op_TakeCoarse
  | Op_Flush | Op_PollTimeout | Op_StartPcap nat | Op_StopPcap | Op_LoadEngine bytes "bytes option"
  | Op_DnsMode encrypted_dns_mode
  | Op_DnsUpstream dns_transport "ip_addr option" u16 "bytes option" "bytes option"
  | Op_Firewall "(i32, app_policy) hash_map" | Op_Transport u8 | Op_LogOpen bool
  | Op_Cosmetic bool bool | Op_ProxyDns bool

fun fw_apply :: "('c, 'm) sys \<Rightarrow> fw_op \<Rightarrow> ('c, 'm) forwarder \<Rightarrow> ('c, 'm) forwarder" where
  "fw_apply X (Op_Packet p) fw = on_tun_packet X p fw"
| "fw_apply X Op_Service fw = service X fw"
| "fw_apply X (Op_Ready t r) fw = on_ready X t r fw"
| "fw_apply X Op_TakeOutbox fw = snd (take_outbox X fw)"
| "fw_apply X Op_TakeStats fw = snd (take_stats fw)"
| "fw_apply X Op_TakeCoarse fw = snd (take_coarse X fw)"
| "fw_apply X Op_Flush fw = snd (flush_batch X fw)"
| "fw_apply X Op_PollTimeout fw = snd (poll_timeout_ms X fw)"
| "fw_apply X (Op_StartPcap n) fw = start_pcap X n fw"
| "fw_apply X Op_StopPcap fw = stop_pcap fw"
| "fw_apply X (Op_LoadEngine path resources) fw = load_engine X path resources fw"
| "fw_apply X (Op_DnsMode m) fw = set_encrypted_dns_mode m fw"
| "fw_apply X (Op_DnsUpstream tr ip port host path) fw = set_dns_upstream tr ip port host path fw"
| "fw_apply X (Op_Firewall rules) fw = set_firewall rules fw"
| "fw_apply X (Op_Transport n) fw = set_transport n fw"
| "fw_apply X (Op_LogOpen b) fw = set_log_open b fw"
| "fw_apply X (Op_Cosmetic a b) fw = fw_set_cosmetic a b fw"
| "fw_apply X (Op_ProxyDns b) fw = set_proxy_dns_over_tcp b fw"

definition fw_run :: "('c, 'm) sys \<Rightarrow> fw_op list \<Rightarrow> ('c, 'm) forwarder \<Rightarrow> ('c, 'm) forwarder" where
  "fw_run X ops fw = fold (\<lambda>a. unless_panic (fw_apply X a)) ops fw"

end
