(* ===== verification/Fw_Moves.thy ===== *)
theory Fw_Moves
  imports Fw_Service
begin

section \<open>The forwarder as a transition system\<close>

text \<open>
  An abstract specification of the handlers: \<open>mv\<close> lists the moves the forwarder may make, each with
  the guard under which the code makes it. Every handler is a sequence of moves (the refinement
  lemmas below), so that what holds of every move holds of every run; the properties of the
  forwarder are inductions over the moves.
\<close>

fun benign :: "effect \<Rightarrow> bool" where
  "benign (E_Connect s a) = False"
| "benign (E_Udp_Connect s a) = False"
| "benign (E_Relay_Connect s a) = False"
| "benign e = True"

definition resolver :: "('c, 'm) forwarder \<Rightarrow> sock_addr \<Rightarrow> bool" where
  \<comment> \<open>the configured resolver, where DNS is not to ride the proxy\<close>
  "resolver fw a \<longleftrightarrow> \<not> (fw_proxy fw \<noteq> None \<and> fw_proxy_dns_over_tcp fw) \<and> (\<exists>q. a = dns_upstream fw q)"

definition tcp_dial_ok :: "('c, 'm) forwarder \<Rightarrow> sock_addr \<Rightarrow> bool" where
  "tcp_dial_ok fw a \<longleftrightarrow> \<not> fw_proxy_broken fw
     \<and> (case fw_proxy fw of None \<Rightarrow> True | Some p \<Rightarrow> a = px_addr p \<or> resolver fw a)"

definition udp_dial_ok :: "('c, 'm) forwarder \<Rightarrow> sock_addr \<Rightarrow> bool" where
  "udp_dial_ok fw a \<longleftrightarrow> \<not> fw_proxy_broken fw \<and> (fw_proxy fw = None \<or> resolver fw a)"

definition up_alike :: "'m tcp_upstream \<Rightarrow> 'm tcp_upstream \<Rightarrow> bool" where
  "up_alike up up' \<longleftrightarrow> up_io up' = up_io up \<and> up_token up' = up_token up \<and> up_server up' = up_server up
     \<and> up_uid up' = up_uid up \<and> up_opened_ms up' = up_opened_ms up
     \<and> (up_handshake up = None \<longrightarrow> up_handshake up' = None)
     \<and> (up_mitm up \<noteq> None \<longrightarrow> up_mitm up' \<noteq> None)"

definition new_flow_ok :: "('c, 'm) forwarder \<Rightarrow> 'm tcp_upstream \<Rightarrow> bool" where
  "new_flow_ok fw up \<longleftrightarrow>
     (fw_encrypted_dns_mode fw = Enc_Filter \<and> sa_port (up_server up) = DOT_PORT \<longrightarrow> up_mitm up \<noteq> None)
     \<and> (fw_encrypted_dns_mode fw = Enc_Filter \<and> sa_port (up_server up) = HTTPS_PORT \<longrightarrow> pending_sni up)"

inductive mv :: "('c, 'm) sys \<Rightarrow> ('c, 'm) forwarder \<Rightarrow> ('c, 'm) forwarder \<Rightarrow> bool" for X where
  mv_idle: "mv X fw (fw\<lparr>fw_outbox := out, fw_pcap := pc, fw_stats := st, fw_coarse := co, fw_events := ev, fw_calls := n\<rparr>)"
| mv_lookup: "mv X fw (fw\<lparr>fw_verdicts := snd (ft_get k (fw_verdicts fw))\<rparr>)"
| mv_decide: "vd_blocked v = policy_blocks fw (vd_uid v) \<Longrightarrow> mv X fw (fw\<lparr>fw_verdicts := ft_insert k v (fw_verdicts fw)\<rparr>)"
| mv_panic: "mo_pump_dns (sy_mitm X) f m = None \<Longrightarrow> mv X fw (panic fw)"
| mv_effect: "benign e \<Longrightarrow> mv X fw (emit e fw)"
| mv_dial_tcp: "tcp_dial_ok fw a \<Longrightarrow> mv X fw (emit (E_Connect s a) fw)"
| mv_dial_udp: "udp_dial_ok fw a \<Longrightarrow> mv X fw (emit (E_Udp_Connect s a) fw)"
| mv_dial_relay: "fw_proxy fw \<noteq> None \<Longrightarrow> mv X fw (emit (E_Relay_Connect s a) fw)"
| mv_token: "mv X fw (fw\<lparr>fw_next_token := Suc (fw_next_token fw)\<rparr>)"
| mv_unsupported: "mv X fw (fw\<lparr>fw_socks_udp_unsupported := True\<rparr>)"
| mv_http80: "mv X fw (fw\<lparr>fw_http_forward_80 := True\<rparr>)"
| mv_stack: "ns_step (sy_wire X) (sy_smol X) b (fw_stack fw) = (r, ns)
    \<Longrightarrow> (\<And>fid. b = Ns_Remove fid \<Longrightarrow> map_of (fw_tcp fw) fid = None) \<Longrightarrow> mv X fw (fw\<lparr>fw_stack := ns\<rparr>)"
| mv_har: "mv X fw (fw\<lparr>fw_har := har_add ts (fw_har fw)\<rparr>)"
| mv_pin: "length (fw_pinned fw) < PINNED_CAP \<Longrightarrow> mv X fw (fw\<lparr>fw_pinned := List.insert pin (fw_pinned fw)\<rparr>)"
| mv_tcp_upd: "map_of (fw_tcp fw) fid = Some up \<Longrightarrow> up_alike up up' \<Longrightarrow> mv X fw (put_tcp fid up' fw)"
| mv_tcp_new: "map_of (fw_tcp fw) fid = None \<Longrightarrow> fid \<in> dom (map_of (ns_flows (fw_stack fw)))
    \<Longrightarrow> map_of (fw_routes fw) (up_token up) = None \<Longrightarrow> up_token up < fw_next_token fw \<Longrightarrow> new_flow_ok fw up
    \<Longrightarrow> mv X fw (put_tcp fid up (fw\<lparr>fw_routes := AList.update (up_token up) (Route_Tcp fid) (fw_routes fw)\<rparr>))"
| mv_tcp_drop: "map_of (fw_tcp fw) fid = Some up
    \<Longrightarrow> mv X fw (fw\<lparr>fw_tcp := AList.delete fid (fw_tcp fw), fw_routes := AList.delete (up_token up) (fw_routes fw)\<rparr>)"
| mv_udp_upd: "map_of (fw_udp fw) key = Some s \<Longrightarrow> us_token s' = us_token s
    \<Longrightarrow> us_app s' = us_app s \<Longrightarrow> us_server s' = us_server s
    \<Longrightarrow> mv X fw (fw\<lparr>fw_udp := AList.update key s' (fw_udp fw)\<rparr>)"
| mv_udp_new: "map_of (fw_udp fw) key = None \<Longrightarrow> map_of (fw_routes fw) (us_token s) = None
    \<Longrightarrow> us_token s < fw_next_token fw \<Longrightarrow> key = \<lparr>uk_app = us_app s, uk_server = us_server s\<rparr>
    \<Longrightarrow> mv X fw (fw\<lparr>fw_routes := AList.update (us_token s) (Route_Udp key) (fw_routes fw),
                    fw_udp := AList.update key s (fw_udp fw)\<rparr>)"
| mv_udp_drop: "map_of (fw_udp fw) key = Some s
    \<Longrightarrow> mv X fw (fw\<lparr>fw_udp := AList.delete key (fw_udp fw), fw_routes := AList.delete (us_token s) (fw_routes fw)\<rparr>)"
| mv_socks_upd: "map_of (fw_socks_udp fw) key = Some s \<Longrightarrow> ss_ctrl_token s' = ss_ctrl_token s
    \<Longrightarrow> ss_relay_token s' = ss_relay_token s \<Longrightarrow> ss_app s' = ss_app s \<Longrightarrow> ss_reply_src s' = ss_reply_src s
    \<Longrightarrow> (length (ss_pending s) \<le> SOCKS_UDP_PENDING_CAP \<longrightarrow> length (ss_pending s') \<le> SOCKS_UDP_PENDING_CAP)
    \<Longrightarrow> mv X fw (fw\<lparr>fw_socks_udp := AList.update key s' (fw_socks_udp fw)\<rparr>)"
| mv_socks_new: "map_of (fw_socks_udp fw) key = None \<Longrightarrow> map_of (fw_routes fw) (ss_ctrl_token s) = None
    \<Longrightarrow> map_of (fw_routes fw) (ss_relay_token s) = None \<Longrightarrow> ss_ctrl_token s \<noteq> ss_relay_token s
    \<Longrightarrow> ss_ctrl_token s < fw_next_token fw \<Longrightarrow> ss_relay_token s < fw_next_token fw
    \<Longrightarrow> key = \<lparr>uk_app = ss_app s, uk_server = ss_reply_src s\<rparr> \<Longrightarrow> length (ss_pending s) \<le> SOCKS_UDP_PENDING_CAP
    \<Longrightarrow> mv X fw (fw\<lparr>fw_routes := AList.update (ss_relay_token s) (Route_SocksRelay key)
                                   (AList.update (ss_ctrl_token s) (Route_SocksCtrl key) (fw_routes fw)),
                    fw_socks_udp := AList.update key s (fw_socks_udp fw)\<rparr>)"
| mv_socks_drop: "map_of (fw_socks_udp fw) key = Some s
    \<Longrightarrow> mv X fw (fw\<lparr>fw_socks_udp := AList.delete key (fw_socks_udp fw),
                    fw_routes := AList.delete (ss_relay_token s) (AList.delete (ss_ctrl_token s) (fw_routes fw))\<rparr>)"
| mv_dtcp_upd: "map_of (fw_dns_tcp fw) t = Some j \<Longrightarrow> mv X fw (put_dns_tcp t j' fw)"
| mv_dtcp_new: "map_of (fw_dns_tcp fw) t = None \<Longrightarrow> length (fw_dns_tcp fw) < DNS_TCP_MAX_JOBS
    \<Longrightarrow> map_of (fw_routes fw) t = None \<Longrightarrow> t < fw_next_token fw
    \<Longrightarrow> mv X fw (put_dns_tcp t j (fw\<lparr>fw_routes := AList.update t Route_DnsTcp (fw_routes fw)\<rparr>))"
| mv_dtcp_drop: "map_of (fw_dns_tcp fw) t = Some j
    \<Longrightarrow> mv X fw (fw\<lparr>fw_dns_tcp := AList.delete t (fw_dns_tcp fw), fw_routes := AList.delete t (fw_routes fw)\<rparr>)"
| mv_dtls_upd: "map_of (fw_dns_tls fw) t = Some tj \<Longrightarrow> mv X fw (put_dns_tls t tj' fw)"
| mv_dtls_new: "map_of (fw_dns_tls fw) t = None \<Longrightarrow> length (fw_dns_tls fw) < DNS_TLS_MAX_JOBS
    \<Longrightarrow> map_of (fw_routes fw) t = None \<Longrightarrow> t < fw_next_token fw
    \<Longrightarrow> mv X fw (put_dns_tls t tj (fw\<lparr>fw_routes := AList.update t Route_DnsTls (fw_routes fw)\<rparr>))"
| mv_dtls_drop: "map_of (fw_dns_tls fw) t = Some tj
    \<Longrightarrow> mv X fw (fw\<lparr>fw_dns_tls := AList.delete t (fw_dns_tls fw), fw_routes := AList.delete t (fw_routes fw)\<rparr>)"

abbreviation mvs where "mvs X \<equiv> (mv X)\<^sup>*\<^sup>*"

lemma mvs_step: "mvs X a fw \<Longrightarrow> mv X fw fw' \<Longrightarrow> mvs X a fw'"
  by (rule rtranclp.rtrancl_into_rtrancl)

subsection \<open>Bookkeeping\<close>

lemma mvs_idle:
  assumes "mvs X a fw"
    and "fw' = fw\<lparr>fw_outbox := out, fw_pcap := pc, fw_stats := st, fw_coarse := co, fw_events := ev, fw_calls := n\<rparr>"
  shows "mvs X a fw'"
  using mvs_step[OF assms(1) mv_idle] assms(2) by metis

lemma mvs_calls [intro!]: "mvs X a fw \<Longrightarrow> mvs X a (fw\<lparr>fw_calls := n\<rparr>)"
  by (erule mvs_idle[where out = "fw_outbox fw" and pc = "fw_pcap fw" and st = "fw_stats fw" and co = "fw_coarse fw" and ev = "fw_events fw" and n = n]) simp

lemma mvs_outbox [intro!]: "mvs X a fw \<Longrightarrow> mvs X a (fw\<lparr>fw_outbox := out\<rparr>)"
  by (erule mvs_idle[where out = out and pc = "fw_pcap fw" and st = "fw_stats fw" and co = "fw_coarse fw" and ev = "fw_events fw" and n = "fw_calls fw"]) simp

lemma mvs_pcap [intro!]: "mvs X a fw \<Longrightarrow> mvs X a (fw\<lparr>fw_pcap := pc\<rparr>)"
  by (erule mvs_idle[where out = "fw_outbox fw" and pc = pc and st = "fw_stats fw" and co = "fw_coarse fw" and ev = "fw_events fw" and n = "fw_calls fw"]) simp

lemma mvs_stats [intro!]: "mvs X a fw \<Longrightarrow> mvs X a (fw\<lparr>fw_stats := st\<rparr>)"
  by (erule mvs_idle[where out = "fw_outbox fw" and pc = "fw_pcap fw" and st = st and co = "fw_coarse fw" and ev = "fw_events fw" and n = "fw_calls fw"]) simp

lemma mvs_coarse [intro!]: "mvs X a fw \<Longrightarrow> mvs X a (fw\<lparr>fw_coarse := co\<rparr>)"
  by (erule mvs_idle[where out = "fw_outbox fw" and pc = "fw_pcap fw" and st = "fw_stats fw" and co = co and ev = "fw_events fw" and n = "fw_calls fw"]) simp

lemma mvs_events [intro!]: "mvs X a fw \<Longrightarrow> mvs X a (fw\<lparr>fw_events := ev\<rparr>)"
  by (erule mvs_idle[where out = "fw_outbox fw" and pc = "fw_pcap fw" and st = "fw_stats fw" and co = "fw_coarse fw" and ev = ev and n = "fw_calls fw"]) simp

lemma mvs_book [intro!]:
  assumes "mvs X a fw"
  shows "mvs X a (tick fw)" "mvs X a (bump f fw)" "mvs X a (push_out p fw)" "mvs X a (push_event X e fw)"
    "mvs X a (coarse_add l pr b fw)" "mvs X a (tap X pkt fw)" "mvs X a (count_replies k fw)"
  using assms
  by (auto simp: tick_def bump_def push_out_def push_event_def coarse_add_def tap_def count_replies_def ask_def
      split: option.split)

lemma mvs_ask [intro!]: "mvs X a fw \<Longrightarrow> mvs X a (snd (ask f fw))"
  by (auto simp: ask_def)

lemma mvs_effect [intro!]: "mvs X a fw \<Longrightarrow> benign e \<Longrightarrow> mvs X a (emit e fw)"
  by (rule mvs_step[OF _ mv_effect])

lemma mvs_trace [intro!]: "mvs X a fw \<Longrightarrow> list_all benign es \<Longrightarrow> mvs X a (fw\<lparr>fw_trace := fw_trace fw @ es\<rparr>)"
proof (induction es arbitrary: fw)
  case Nil
  then show ?case by simp
next
  case (Cons e es)
  have "mvs X a (emit e fw)" using Cons.prems by auto
  from Cons.IH[OF this] Cons.prems show ?case by (simp add: emit_def)
qed

lemma mvs_sockets [intro!]:
  assumes "mvs X a fw"
  shows "mvs X a (deregister s fw)" "mvs X a (send_dgram s p fw)" "mvs X a (shutdown_write X io fw)"
proof -
  have t: "mvs X a (tick (emit e fw))" if "benign e" for e using assms that by (intro mvs_book(1) mvs_effect)
  show "mvs X a (send_dgram s p fw)" using t by (simp add: send_dgram_def)
  have e: "mvs X a (emit e (tick fw))" "mvs X a (emit e (tick (tick fw)))" if "benign e" for e
    using assms that by (auto intro: mvs_effect mvs_book(1))
  show "mvs X a (deregister s fw)" "mvs X a (shutdown_write X io fw)"
    using e by (simp_all add: deregister_def shutdown_write_def split: upstream_io.split)
qed

lemma mvs_fold:
  assumes "\<And>x fw. mvs X a fw \<Longrightarrow> mvs X a (f x fw)" and "mvs X a fw"
  shows "mvs X a (fold f xs fw)"
  using assms(2) by (induction xs arbitrary: fw) (auto intro: assms(1))

end
