(* ===== verification/Fw_Refine.thy ===== *)
theory Fw_Refine
  imports Fw_Moves
begin

section \<open>The handlers refine the transition system\<close>

text \<open>
  Every handler of the forwarder is a sequence of moves. The calls on streams only count calls and
  record writes (\<open>io_frame\<close>), so a state after them is the state before with two fields changed.
\<close>

subsection \<open>Streams\<close>

definition io_frame :: "('c, 'm) forwarder \<Rightarrow> ('c, 'm) forwarder \<Rightarrow> bool" where
  "io_frame fw fw' \<longleftrightarrow> (\<exists>n es. fw' = fw\<lparr>fw_trace := fw_trace fw @ es, fw_calls := n\<rparr> \<and> list_all benign es)"

lemma io_frame_refl [simp]: "io_frame fw fw"
  unfolding io_frame_def by (rule exI[of _ "fw_calls fw"], rule exI[of _ "[]"]) simp

lemma io_frame_trans: "io_frame a b \<Longrightarrow> io_frame b c \<Longrightarrow> io_frame a c"
  by (auto simp: io_frame_def) (metis (no_types) append_assoc list_all_append)

lemma io_frame_tick [simp]: "io_frame fw (tick fw)"
  unfolding io_frame_def tick_def by (rule exI[of _ "Suc (fw_calls fw)"], rule exI[of _ "[]"]) simp

lemma io_frame_emit: "benign e \<Longrightarrow> io_frame fw (emit e fw)"
  unfolding io_frame_def emit_def by (rule exI[of _ "fw_calls fw"], rule exI[of _ "[e]"]) simp

lemma io_frame_mvs: "io_frame fw fw' \<Longrightarrow> mvs X a fw \<Longrightarrow> mvs X a fw'"
proof -
  assume "io_frame fw fw'" and m: "mvs X a fw"
  then obtain n es where f: "fw' = fw\<lparr>fw_trace := fw_trace fw @ es, fw_calls := n\<rparr>" and "list_all benign es"
    by (auto simp: io_frame_def)
  then have "mvs X a (fw\<lparr>fw_trace := fw_trace fw @ es\<rparr>\<lparr>fw_calls := n\<rparr>)" using m by (intro mvs_calls mvs_trace)
  then show ?thesis by (simp add: f)
qed

lemma io_frame_same:
  assumes "io_frame fw fw'"
  shows "fw_stack fw' = fw_stack fw" "fw_tcp fw' = fw_tcp fw" "fw_udp fw' = fw_udp fw" "fw_socks_udp fw' = fw_socks_udp fw"
    "fw_dns_tcp fw' = fw_dns_tcp fw" "fw_dns_tls fw' = fw_dns_tls fw" "fw_routes fw' = fw_routes fw"
    "fw_next_token fw' = fw_next_token fw" "fw_proxy fw' = fw_proxy fw" "fw_pinned fw' = fw_pinned fw"
    "fw_panic fw' = fw_panic fw"
  using assms by (auto simp: io_frame_def)

lemma io_frame_ask: "ask f fw = (r, fw') \<Longrightarrow> io_frame fw fw'"
  by (auto simp: ask_def)

lemma io_frame_sock_write: "sock_write X s data fw = (r, fw') \<Longrightarrow> io_frame fw fw'"
  by (auto simp: sock_write_def ask_def Let_def intro!: io_frame_trans[OF io_frame_tick io_frame_emit] split: write_result.splits)

lemma io_frame_io_write: "io_write X io data fw = (r, fw') \<Longrightarrow> io_frame fw fw'"
  by (auto simp: io_write_def Let_def split: upstream_io.splits if_splits write_result.splits prod.splits
      dest!: io_frame_sock_write io_frame_ask intro: io_frame_trans)

lemma io_frame_write_loop: "io_frame fw (snd (write_loop X io data fw))"
proof (induction "length data" arbitrary: data fw rule: less_induct)
  case less
  obtain r fw1 where w: "io_write X io data fw = (r, fw1)" by force
  note f = io_frame_io_write[OF w]
  show ?case
  proof (cases "data = [] \<or> r = Wr_Block \<or> r = Wr_Error \<or> r = Wr_Ok 0")
    case True
    with f w show ?thesis by (subst write_loop.simps) auto
  next
    case False
    then obtain n where n: "r = Wr_Ok n" "n \<noteq> 0" "data \<noteq> []" by (cases r) auto
    then have "length (drop n data) < length data" by simp
    from less[OF this, where fw = fw1] have "io_frame fw1 (snd (write_loop X io (drop n data) fw1))" .
    then have "io_frame fw (snd (write_loop X io (drop n data) fw1))" using f io_frame_trans by blast
    with n w show ?thesis by (subst write_loop.simps) simp
  qed
qed

lemma io_frame_write: "write_loop X io data fw = (r, fw') \<Longrightarrow> io_frame fw fw'"
  using io_frame_write_loop[of fw X io data] by simp

lemma io_frame_flush_io: "flush_io X io out fw = (r, fw') \<Longrightarrow> io_frame fw fw'"
  using io_frame_write_loop[of fw X io out] by (auto simp: flush_io_def split: if_splits)

lemma io_frame_finish_tls: "finish_tls X io fw = (r, fw') \<Longrightarrow> io_frame fw fw'"
  by (auto simp: finish_tls_def tls_handshaking_def pump_tls_def Let_def split: upstream_io.splits if_splits prod.splits
      dest!: io_frame_ask intro: io_frame_trans)

lemma io_frame_hs_loop: "io_frame fw (snd (hs_loop X io eof hs input fw)) \<and> fst (hs_loop X io eof hs input fw) \<noteq> Hp_Panic"
proof (induction "hs_rank hs" arbitrary: hs input fw rule: less_induct)
  case less
  obtain r hs' where s: "hs_step hs input = Some (r, hs')" using hs_step_total by (metis surj_pair)
  show ?case
  proof (cases "\<exists>b. r = Inr (Step_Write b)")
    case False
    with s show ?thesis
      by (subst (1 2) hs_loop.simps) (auto split: sum.split step.split)
  next
    case True
    then obtain b where b: "r = Inr (Step_Write b)" by blast
    obtain ok rest fw1 where f: "flush_io X io b fw = ((ok, rest), fw1)" by (metis prod.collapse)
    have "hs_rank hs' < hs_rank hs" using s b hs_step_write_rank by blast
    from less[OF this, where input = "[]" and fw = fw1] io_frame_flush_io[OF f] s b f show ?thesis
      by (subst (1 2) hs_loop.simps) (auto intro: io_frame_trans)
  qed
qed

lemma io_frame_pump:
  assumes "pump_handshake X io hs out fw = (r, fw')"
  shows "io_frame fw fw' \<and> r \<noteq> Hp_Panic"
proof -
  obtain ok rest fw1 where f: "flush_io X io out fw = ((ok, rest), fw1)" by (metis prod.collapse)
  note f1 = io_frame_flush_io[OF f]
  obtain input e where rd: "read_all X fw1 = ((input, e), tick fw1)" by (metis ask_def read_all_def surj_pair)
  have t: "io_frame fw (tick fw1)" using f1 io_frame_tick io_frame_trans by blast
  show ?thesis
  proof (cases "ok \<and> rest = [] \<and> e \<noteq> Rx_Error")
    case True
    then have "hs_loop X io (e = Rx_Eof) hs input (tick fw1) = (r, fw')"
      using assms f rd by (simp add: pump_handshake_def)
    then show ?thesis using io_frame_hs_loop[of "tick fw1" X io "e = Rx_Eof" hs input] t io_frame_trans by auto
  next
    case False
    then show ?thesis using assms f rd f1 t by (auto simp: pump_handshake_def split: if_splits)
  qed
qed

lemma io_frame_pump_io:
  assumes "pump_handshake_io X io hs out fw = (r, fw')"
  shows "io_frame fw fw' \<and> r \<noteq> Hp_Panic"
proof -
  obtain tls fw1 where f: "finish_tls X io fw = (tls, fw1)" by force
  show ?thesis using assms f io_frame_finish_tls[OF f] io_frame_pump[of X io hs out fw1]
    by (cases "tls = Some True")
      (auto simp: pump_handshake_io_def intro: io_frame_trans split: option.splits bool.splits)
qed

lemma io_frame_pump_ctrl: "pump_ctrl_handshake X s hs out fw = (r, fw') \<Longrightarrow> io_frame fw fw' \<and> r \<noteq> Ctrl_Panic"
  by (auto simp: pump_ctrl_handshake_def split: prod.splits hs_pump.splits dest: io_frame_pump)

subsection \<open>TCP flows\<close>

lemma mvs_stack:
  assumes "mvs X a fw" and "ns_step (sy_wire X) (sy_smol X) b (fw_stack fw) = (r, ns)"
    and "\<And>fid. b = Ns_Remove fid \<Longrightarrow> map_of (fw_tcp fw) fid = None"
  shows "mvs X a (fw\<lparr>fw_stack := ns\<rparr>)"
  by (rule mvs_step[OF assms(1) mv_stack[OF assms(2,3)]])

lemma mvs_stack_calls [intro!]:
  assumes "mvs X a fw"
  shows "mvs X a (abort_app X fid fw)" "mvs X a (close_app X fid fw)"
    "mvs X a (fw\<lparr>fw_stack := snd (tcp_send_to_app (sy_smol X) fid data (fw_stack fw))\<rparr>)"
    "mvs X a (snd (take_app_data X fid fw))"
    "mvs X a (drain_stack_outbound fw)"
proof -
  note st = mvs_stack[OF assms]
  show "mvs X a (abort_app X fid fw)" using st[of "Ns_Abort fid"] by (simp add: abort_app_def)
  show "mvs X a (close_app X fid fw)" using st[of "Ns_Close fid"] by (simp add: close_app_def)
  show "mvs X a (fw\<lparr>fw_stack := snd (tcp_send_to_app (sy_smol X) fid data (fw_stack fw))\<rparr>)"
    using st[of "Ns_Send fid data"] by simp
  show "mvs X a (snd (take_app_data X fid fw))"
    using st[of "Ns_Take fid"] by (auto simp: take_app_data_def split: prod.split)
  have "mvs X a (fw\<lparr>fw_outbox := out, fw_stack := snd (drain_outbound (fw_stack fw))\<rparr>)" for out
    using mvs_stack[OF mvs_outbox[OF assms], of Ns_Drain out] by simp
  then show "mvs X a (drain_stack_outbound fw)"
    by (simp add: drain_stack_outbound_def drain_outbound_def)
qed

lemma mvs_put_tcp: "mvs X a fw \<Longrightarrow> map_of (fw_tcp fw) fid = Some up \<Longrightarrow> up_alike up up' \<Longrightarrow> mvs X a (put_tcp fid up' fw)"
  using mv_tcp_upd mvs_step by blast

lemma put_tcp_same [simp]:
  "fw_tcp (put_tcp fid up fw) = AList.update fid up (fw_tcp fw)" "fw_stack (put_tcp fid up fw) = fw_stack fw"
  by (simp_all add: put_tcp_def)

lemma tick_same [simp]:
  "fw_stack (tick fw) = fw_stack fw" "fw_tcp (tick fw) = fw_tcp fw" "fw_udp (tick fw) = fw_udp fw"
  "fw_socks_udp (tick fw) = fw_socks_udp fw" "fw_dns_tcp (tick fw) = fw_dns_tcp fw" "fw_dns_tls (tick fw) = fw_dns_tls fw"
  "fw_routes (tick fw) = fw_routes fw" "fw_next_token (tick fw) = fw_next_token fw"
  by (simp_all add: tick_def)

lemma mvs_drain_transactions [intro!]: "mvs X a fw \<Longrightarrow> mvs X a (drain_mitm_transactions X fid fw)"
proof -
  assume m: "mvs X a fw"
  have "mvs X a ((put_tcp fid (up\<lparr>up_mitm := Some m'\<rparr>) fw)\<lparr>fw_har := har_add ts (fw_har (put_tcp fid (up\<lparr>up_mitm := Some m'\<rparr>) fw))\<rparr>)"
    if "map_of (fw_tcp fw) fid = Some up" for up m' ts
    by (intro mvs_step[OF _ mv_har] mvs_put_tcp[OF m that]) (simp add: up_alike_def)
  then show ?thesis using m by (auto simp: drain_mitm_transactions_def put_tcp_def split: option.split prod.split)
qed

lemma mvs_finish_mitm [intro!]: "mvs X a fw \<Longrightarrow> mvs X a (finish_mitm X fid fw)"
  by (auto simp: finish_mitm_def up_alike_def intro: mvs_put_tcp split: option.split)

lemma mvs_drop_tcp [intro!]: "mvs X a fw \<Longrightarrow> mvs X a (drop_tcp fid fw)"
proof -
  assume m: "mvs X a fw"
  have "mvs X a (drop_tcp fid fw)" if u: "map_of (fw_tcp fw) fid = Some up" for up
  proof -
    let ?fw = "deregister (io_sock (up_io up)) fw"
    have "io_frame fw ?fw" by (auto simp: deregister_def intro: io_frame_trans[OF io_frame_tick io_frame_emit])
    from io_frame_same[OF this] have "fw_tcp ?fw = fw_tcp fw" "fw_routes ?fw = fw_routes fw" by simp_all
    with u mvs_step[OF mvs_sockets(1)[OF m] mv_tcp_drop[of ?fw fid up]] show ?thesis by (simp add: drop_tcp_def)
  qed
  then show ?thesis using m by (cases "map_of (fw_tcp fw) fid") (auto simp: drop_tcp_def)
qed

lemma mvs_teardown_tcp [intro!]: "mvs X a fw \<Longrightarrow> mvs X a (teardown_tcp X fid fw)"
  by (auto simp: teardown_tcp_def)

lemma mvs_fail_proxy [intro!]: "mvs X a fw \<Longrightarrow> mvs X a (fail_proxy X fid fw)"
  unfolding fail_proxy_def Let_def
  by (intro mvs_teardown_tcp mvs_stack_calls) (auto split: option.split intro: mvs_book)

lemma mvs_flush_to_upstream [intro!]: "mvs X a fw \<Longrightarrow> mvs X a (flush_to_upstream X fid fw)"
proof -
  assume m: "mvs X a fw"
  have "mvs X a (case write_loop X (up_io up) (up_to_upstream up) fw of
      ((ok, rest), fw) \<Rightarrow> if \<not> ok then abort_app X fid fw else put_tcp fid (up\<lparr>up_to_upstream := rest\<rparr>) fw)"
    if u: "map_of (fw_tcp fw) fid = Some up" for up
  proof -
    obtain ok rest fw1 where w: "write_loop X (up_io up) (up_to_upstream up) fw = ((ok, rest), fw1)" by (metis prod.collapse)
    note f = io_frame_write[OF w]
    have "mvs X a fw1" using io_frame_mvs[OF f m] .
    moreover from this have "mvs X a (put_tcp fid (up\<lparr>up_to_upstream := rest\<rparr>) fw1)"
      using u io_frame_same(2)[OF f] by (intro mvs_put_tcp) (auto simp: up_alike_def)
    ultimately show ?thesis using w by auto
  qed
  then show ?thesis using m by (simp add: flush_to_upstream_def split: option.split)
qed

lemma mvs_app_loop: "mvs X a fw \<Longrightarrow> mvs X a (fw\<lparr>fw_stack := snd (app_loop (sy_smol X) fid data (fw_stack fw))\<rparr>)"
proof (induction "length data" arbitrary: data fw rule: less_induct)
  case less
  let ?n = "min (tcp_send_space (sy_smol X) fid (fw_stack fw)) (length data)"
  let ?fw = "fw\<lparr>fw_stack := snd (tcp_send_to_app (sy_smol X) fid (take ?n data) (fw_stack fw))\<rparr>"
  show ?case
  proof (cases "tcp_send_space (sy_smol X) fid (fw_stack fw) = 0 \<or> data = []")
    case True
    with less.prems show ?thesis by (subst app_loop.simps) simp
  next
    case False
    then have "length (drop ?n data) < length data" by auto
    from less.hyps[OF this, of ?fw] less.prems False show ?thesis
      by (subst app_loop.simps) (simp add: Let_def mvs_stack_calls)
  qed
qed

lemma mvs_flush_to_app [intro!]: "mvs X a fw \<Longrightarrow> mvs X a (flush_to_app X fid fw)"
proof -
  assume m: "mvs X a fw"
  have "mvs X a ((put_tcp fid (up\<lparr>up_to_app := rest\<rparr>) fw)\<lparr>fw_stack := snd (app_loop (sy_smol X) fid (up_to_app up) (fw_stack fw))\<rparr>)"
    if "map_of (fw_tcp fw) fid = Some up" for up rest
    using mvs_app_loop[OF mvs_put_tcp[OF m that, of "up\<lparr>up_to_app := rest\<rparr>"], of fid "up_to_app up"]
    by (simp add: up_alike_def)
  then show ?thesis using m by (auto simp: flush_to_app_def split: option.split prod.split) (metis snd_conv)
qed

lemma mvs_relay_loop:
  "mvs X a fw \<Longrightarrow> mvs X a (fw\<lparr>fw_stack := snd (snd (relay_loop (sy_smol X) fid data cnt (fw_stack fw)))\<rparr>)"
proof (induction "length data" arbitrary: data cnt fw rule: less_induct)
  case less
  let ?n = "min (min (tcp_send_space (sy_smol X) fid (fw_stack fw)) (32 * 1024)) (length data)"
  let ?fw = "fw\<lparr>fw_stack := snd (tcp_send_to_app (sy_smol X) fid (take ?n data) (fw_stack fw))\<rparr>"
  show ?case
  proof (cases "tcp_send_space (sy_smol X) fid (fw_stack fw) = 0 \<or> data = []")
    case True
    with less.prems show ?thesis by (subst relay_loop.simps) (auto simp: Let_def)
  next
    case False
    then have "length (drop ?n data) < length data" by auto
    from less.hyps[OF this, of ?fw "Suc cnt"] less.prems False show ?thesis
      by (subst relay_loop.simps) (simp add: Let_def mvs_stack_calls)
  qed
qed

lemma mvs_read_all: "read_all X fw = (r, fw') \<Longrightarrow> mvs X a fw \<Longrightarrow> mvs X a fw'"
  by (auto simp: read_all_def ask_def)

lemma mvs_pump_upstream_to_app [intro!]: "mvs X a fw \<Longrightarrow> mvs X a (pump_upstream_to_app X fid fw)"
proof -
  assume m: "mvs X a fw"
  obtain data e where rd: "read_all X fw = ((data, e), tick fw)" by (metis ask_def read_all_def surj_pair)
  obtain dry n ns where l: "relay_loop (sy_smol X) fid data 0 (fw_stack fw) = (dry, n, ns)" by (metis prod_cases3)
  let ?fw = "count_replies n ((tick fw)\<lparr>fw_stack := ns\<rparr>)"
  have "mvs X a ((tick fw)\<lparr>fw_stack := ns\<rparr>)"
    using mvs_relay_loop[OF mvs_book(1)[OF m], of fid data 0] l by simp
  then have "mvs X a ?fw" by auto
  moreover have "pump_upstream_to_app X fid fw \<in> {fw, ?fw, close_app X fid ?fw, abort_app X fid ?fw}"
    using rd l by (cases e) (auto simp: pump_upstream_to_app_def Let_def)
  ultimately show ?thesis using m by auto
qed

lemma mvs_read_into_mitm [intro!]: "mvs X a fw \<Longrightarrow> mvs X a (read_upstream_into_mitm X fid fw)"
  by (auto simp: read_upstream_into_mitm_def read_all_def ask_def tick_def up_alike_def Let_def
      intro!: mvs_book(7) mvs_put_tcp[where fid = fid] mvs_calls split: option.split prod.split)

lemma mvs_provision [intro!]: "mvs X a fw \<Longrightarrow> mvs X a (provision_cosmetics X fid fw)"
  by (auto simp: provision_cosmetics_def up_alike_def intro!: mvs_put_tcp[where fid = fid] split: option.split prod.split)

lemma mvs_pin: "mvs X a fw \<Longrightarrow> length (fw_pinned fw) < PINNED_CAP \<Longrightarrow> mvs X a (fw\<lparr>fw_pinned := List.insert pin (fw_pinned fw)\<rparr>)"
  by (rule mvs_step[OF _ mv_pin])

lemma mvs_note_pin [intro!]: "mvs X a fw \<Longrightarrow> mvs X a (note_pin_if_rejected X fid fw)"
  by (auto simp: note_pin_if_rejected_def Let_def up_alike_def put_tcp_def[symmetric]
      intro!: mvs_book mvs_pin mvs_put_tcp[where fid = fid] split: option.split)

lemma mvs_shutdown_put:
  assumes "mvs X a fw" and "map_of (fw_tcp fw) fid = Some up"
  shows "mvs X a (put_tcp fid (up\<lparr>up_write_closed := True\<rparr>) (shutdown_write X (up_io up) fw))"
proof (rule mvs_put_tcp[where up = up])
  show "mvs X a (shutdown_write X (up_io up) fw)" using assms(1) by auto
  show "map_of (fw_tcp (shutdown_write X (up_io up) fw)) fid = Some up"
    using assms(2) by (cases "up_io up") (simp_all add: shutdown_write_def emit_def)
qed (simp add: up_alike_def)

lemma mvs_shutdown_upstream [intro!]: "mvs X a fw \<Longrightarrow> mvs X a (shutdown_upstream X fid fw)"
  by (auto simp: shutdown_upstream_def mvs_shutdown_put split: option.split)

lemma mvs_close_mitm [intro!]: "mvs X a fw \<Longrightarrow> mvs X a (close_mitm X fid fw)"
  by (auto simp: close_mitm_def)

lemma mvs_panic: "mvs X a fw \<Longrightarrow> mo_pump_dns (sy_mitm X) f m = None \<Longrightarrow> mvs X a (panic fw)"
  by (rule mvs_step[OF _ mv_panic])

lemma mvs_pump_mitm:
  assumes "mvs X a fw" and u: "map_of (fw_tcp fw) fid = Some up" and m: "up_mitm up = Some m"
    and "pump_mitm X fid up m fw = (r, fw')"
  shows "mvs X a fw'"
proof -
  have p: "mvs X a (put_tcp fid (up\<lparr>up_mitm := Some m'\<rparr>) fw)" for m'
    by (rule mvs_put_tcp[OF assms(1) u]) (simp add: up_alike_def)
  have "mvs X a (fold (report_blocked X uid sv) hits (put_tcp fid (up\<lparr>up_mitm := Some m'\<rparr>) fw))" for hits uid sv m'
    by (rule mvs_fold[OF _ p]) (auto simp: report_blocked_def)
  then show ?thesis using assms(4) p assms(1)
    by (auto simp: pump_mitm_def split: if_splits option.splits prod.splits intro: mvs_panic)
qed

lemma mvs_queue_output [intro!]: "mvs X a fw \<Longrightarrow> mvs X a (queue_mitm_output fid mio fw)"
  by (auto simp: queue_mitm_output_def up_alike_def intro!: mvs_put_tcp[where fid = fid] split: option.split)

lemma mvs_drive_mitm [intro!]: "mvs X a fw \<Longrightarrow> mvs X a (drive_mitm X fid fw)"
  by (auto simp: drive_mitm_def Let_def split: option.split prod.split dest: mvs_pump_mitm)

lemma mvs_flow_updates [intro!]:
  assumes "mvs X a fw"
  shows "mvs X a (feed_mitm X fid data fw)" "mvs X a (attach_mitm fid m fw)" "mvs X a (queue_raw fid data fw)"
    "mvs X a (mark_sni_reported fid fw)"
  using assms
  by (auto simp: feed_mitm_def attach_mitm_def queue_raw_def mark_sni_reported_def up_alike_def
      intro!: mvs_put_tcp[where fid = fid] split: option.split)

lemma mvs_feed_and_drive [intro!]: "mvs X a fw \<Longrightarrow> mvs X a (feed_and_drive X fid data fw)"
  by (auto simp: feed_and_drive_def)

lemma mvs_new_splice: "new_splice X kind fw = (r, fw') \<Longrightarrow> mvs X a fw \<Longrightarrow> mvs X a fw'"
  by (auto simp: new_splice_def ask_def split: if_splits option.splits)

lemma mvs_settle_doh [intro!]: "mvs X a fw \<Longrightarrow> mvs X a (settle_doh X fid buffered uid server fw)"
  by (auto simp: settle_doh_def split: prod.split option.split if_split dest: mvs_new_splice[rotated])

lemma mvs_settle_other [intro!]: "mvs X a fw \<Longrightarrow> mvs X a (settle_other X fid buffered sni uid server fw)"
proof -
  assume m: "mvs X a fw"
  have "mvs X a (surface_sni X fid sni uid server fw)" using m by (auto simp: surface_sni_def split: option.split)
  moreover have "mvs X a (inspect_or_relay X fid buffered uid server b)" if "mvs X a b" for b
    using that by (auto simp: inspect_or_relay_def split: prod.split option.split if_split dest: mvs_new_splice[rotated])
  ultimately show ?thesis by (simp add: settle_other_def)
qed

lemma peek_sni_never_panics: "\<exists>r. peek_sni buf = Some r"
proof (cases "5 \<le> length buf")
  case True
  then show ?thesis using parse_client_hello_total by (auto simp: peek_sni_record)
qed (simp add: peek_sni_def)

lemma mvs_classify_pending [intro!]: "mvs X a fw \<Longrightarrow> mvs X a (classify_pending X fid data fw)"
proof -
  assume m: "mvs X a fw"
  have p: "mvs X a (put_tcp fid (up\<lparr>up_classify := c\<rparr>) fw)" if "map_of (fw_tcp fw) fid = Some up" for up c
    by (rule mvs_put_tcp[OF m that]) (simp add: up_alike_def)
  show ?thesis
  proof (cases "map_of (fw_tcp fw) fid")
    case None
    with m show ?thesis by (simp add: classify_pending_def)
  next
    case (Some up)
    show ?thesis
    proof (cases "up_classify up")
      case Settled
      with m Some show ?thesis by (simp add: classify_pending_def)
    next
      case (PendingSni buf)
      obtain r where "peek_sni (buf @ data) = Some r" using peek_sni_never_panics by blast
      with Some PendingSni p[OF Some] show ?thesis
        by (auto simp: classify_pending_def settle_def Let_def)
    qed
  qed
qed

lemma mvs_observe_sni [intro!]: "mvs X a fw \<Longrightarrow> mvs X a (observe_sni X fid data fw)"
proof -
  assume m: "mvs X a fw"
  obtain r where "peek_sni data = Some r" using peek_sni_never_panics by blast
  with m show ?thesis
    by (auto simp: observe_sni_def split: option.split sni_peek.split)
qed

lemma mvs_refuse_proxy [intro!]: "mvs X a fw \<Longrightarrow> mvs X a (refuse_proxy X fid up e fw)"
proof -
  assume "mvs X a fw"
  then have "mvs X a (fw\<lparr>fw_http_forward_80 := True\<rparr>)" by (rule mvs_step[OF _ mv_http80])
  then show ?thesis using \<open>mvs X a fw\<close> by (auto simp: refuse_proxy_def split: option.split proxy_error.split)
qed

lemma mvs_tunnel_open:
  assumes "mvs X a fw" and u: "map_of (fw_tcp fw) fid = Some up"
  shows "mvs X a (tunnel_open X fid up leftover fw)"
proof -
  have "mvs X a (bump st_proxy_ok_update fw)" "map_of (fw_tcp (bump st_proxy_ok_update fw)) fid = Some up"
    using assms by (auto simp: bump_def)
  note p = mvs_put_tcp[OF this]
  show ?thesis
    unfolding tunnel_open_def Let_def
    by (rule mvs_flush_to_app, rule p) (auto simp: up_alike_def split: option.split)
qed

lemma mvs_drain_handshakeless:
  assumes m: "mvs X a fw" and u: "map_of (fw_tcp fw) fid = Some up"
  shows "mvs X a (drain_handshakeless X fid up fw)"
proof -
  obtain ok rest fw1 where w: "flush_io X (up_io up) (up_hs_out up) fw = ((ok, rest), fw1)" by (metis prod.collapse)
  note f = io_frame_flush_io[OF w]
  have m1: "mvs X a fw1" using io_frame_mvs[OF f m] .
  then have "mvs X a (put_tcp fid (up\<lparr>up_hs_out := rest\<rparr>) fw1)"
    using u io_frame_same(2)[OF f] by (intro mvs_put_tcp) (auto simp: up_alike_def)
  with m1 w show ?thesis
    by (auto simp: drain_handshakeless_def Let_def read_all_def ask_def split: prod.split)
qed

lemma mvs_drive_proxy_handshake [intro!]: "mvs X a fw \<Longrightarrow> mvs X a (drive_proxy_handshake X fid fw)"
proof -
  assume m: "mvs X a fw"
  show ?thesis
  proof (cases "map_of (fw_tcp fw) fid")
    case None
    with m show ?thesis by (auto simp: drive_proxy_handshake_def)
  next
    case (Some up)
    obtain tls fw1 where t: "finish_tls X (up_io up) fw = (tls, fw1)" by force
    note f = io_frame_finish_tls[OF t]
    have m1: "mvs X a fw1" and u1: "map_of (fw_tcp fw1) fid = Some up"
      using io_frame_mvs[OF f m] io_frame_same(2)[OF f] Some by auto
    show ?thesis
    proof (cases "tls = Some True \<and> up_handshake up \<noteq> None")
      case False
      then show ?thesis using Some t m1 u1
        by (auto simp: drive_proxy_handshake_def intro: mvs_drain_handshakeless split: option.split bool.split)
    next
      case True
      then obtain hs where hs: "up_handshake up = Some hs" by auto
      obtain r fw2 where p: "pump_handshake X (up_io up) hs (up_hs_out up) fw1 = (r, fw2)" by force
      note f2 = io_frame_pump[OF p]
      have m2: "mvs X a fw2" and u2: "map_of (fw_tcp fw2) fid = Some up"
        using io_frame_mvs[of fw1 fw2] m1 io_frame_same(2)[of fw1 fw2] f2 u1 by auto
      have "mvs X a (put_tcp fid (up\<lparr>up_handshake := Some hs', up_hs_out := rest\<rparr>) fw2)" for hs' rest
        using m2 u2 hs by (intro mvs_put_tcp) (auto simp: up_alike_def)
      then show ?thesis using Some t True hs p f2 m2 u2
        by (auto simp: drive_proxy_handshake_def intro: mvs_tunnel_open split: hs_pump.split)
    qed
  qed
qed

lemma mvs_reap_tcp [intro!]:
  assumes "mvs X a fw"
  shows "mvs X a (reap_pending_sni X now fw)" "mvs X a (reap_tcp_handshakes X now fw)"
  using assms by (auto simp: reap_pending_sni_def reap_tcp_handshakes_def intro!: mvs_fold)

end
