(* ===== verification/Fw_Invariant.thy ===== *)
theory Fw_Invariant
  imports Fw_Moves
begin

section \<open>Invariants of the forwarder\<close>

text \<open>
  What every move keeps: the settings, the agreement of the tables with the TCP stack, the route of
  every readiness token, the bounds of every buffer and the agreement of the cached verdicts with the
  policy. \<open>fwd_ok\<close> collects them.
\<close>

definition settings where
  "settings fw =
     (fw_proxy fw, fw_proxy_broken fw, fw_dns_override fw, fw_dns_port fw, fw_dns_transport fw, fw_dns_host fw,
      fw_dns_path fw, fw_proxy_dns_over_tcp fw, fw_encrypted_dns_mode fw, fw_firewall fw, fw_transport fw,
      fw_engine fw, fw_log_open fw, fw_tls fw, fw_cosmetic_element_hiding fw, fw_cosmetic_scriptlets fw)"

lemmas move_defs = emit_def panic_def put_tcp_def put_dns_tcp_def put_dns_tls_def

lemma mv_settings: "mv X fw fw' \<Longrightarrow> settings fw' = settings fw"
  by (induction rule: mv.induct) (simp_all add: settings_def move_defs)

lemma mvs_settings: "mvs X fw fw' \<Longrightarrow> settings fw' = settings fw"
  by (induction rule: rtranclp_induct) (auto dest: mv_settings)

subsection \<open>The flows and the stack\<close>

definition stack_ok :: "('c, 'm) forwarder \<Rightarrow> bool" where
  \<comment> \<open>a flow with an upstream socket is a flow of the stack\<close>
  "stack_ok fw \<longleftrightarrow> tables_ok (fw_stack fw) \<and> ns_max_flows (fw_stack fw) = DEFAULT_MAX_FLOWS
     \<and> hm_inv (fw_tcp fw) \<and> dom (map_of (fw_tcp fw)) \<subseteq> dom (map_of (ns_flows (fw_stack fw)))"

lemma ns_step_keeps:
  assumes "tables_ok ns" and "ns_step W S b ns = (r, ns')"
  shows "tables_ok ns' \<and> ns_max_flows ns' = ns_max_flows ns"
proof -
  obtain opened closed where r: "r = (opened, closed)" by force
  from op_ok_step[OF assms(1) assms(2)[unfolded r]] show ?thesis by (simp add: op_ok_def)
qed

lemma packet_keeps_flows:
  "on_tcp_packet W S p ns = (r, ns') \<Longrightarrow> dom (map_of (ns_flows ns)) \<subseteq> dom (map_of (ns_flows ns'))"
  by (auto simp: on_tcp_packet_def create_flow_def ns_push_def update_conv' Let_def
      split: option.splits if_splits prod.splits)

lemma poll_keeps_flows:
  "ns_poll S now ns = (closed, ns') \<Longrightarrow> dom (map_of (ns_flows ns')) = dom (map_of (ns_flows ns))"
  by (auto simp: ns_poll_def notify_closed_eq map_of_mark Let_def split: prod.splits)

lemma ns_step_flows:
  assumes "ns_step W S b ns = (r, ns')"
  shows "dom (map_of (ns_flows ns)) - (case b of Ns_Remove fid \<Rightarrow> {fid} | _ \<Rightarrow> {}) \<subseteq> dom (map_of (ns_flows ns'))"
  using assms
  by (cases b)
    (auto simp: tcp_take_app_data_def tcp_send_to_app_def tcp_close_app_def tcp_abort_def remove_flow_def drain_outbound_def
      delete_conv' dest!: packet_keeps_flows poll_keeps_flows split: prod.splits option.splits)

lemma mv_stack_ok: "mv X fw fw' \<Longrightarrow> stack_ok fw \<Longrightarrow> stack_ok fw'"
proof (induction rule: mv.induct)
  case (mv_stack b fw r ns)
  have "dom (map_of (fw_tcp fw)) \<subseteq> dom (map_of (ns_flows ns))"
  proof
    fix fid assume f: "fid \<in> dom (map_of (fw_tcp fw))"
    with mv_stack(2) have "b \<noteq> Ns_Remove fid" by (metis domD option.distinct(1))
    then have "fid \<notin> (case b of Ns_Remove fid \<Rightarrow> {fid} | _ \<Rightarrow> {})" by (cases b) auto
    moreover have "fid \<in> dom (map_of (ns_flows (fw_stack fw)))" using f mv_stack(3) by (auto simp: stack_ok_def)
    ultimately show "fid \<in> dom (map_of (ns_flows ns))" using ns_step_flows[OF mv_stack(1)] by blast
  qed
  then show ?case using mv_stack(3) ns_step_keeps[OF _ mv_stack(1)] by (simp add: stack_ok_def)
qed (auto simp: stack_ok_def move_defs update_conv' delete_conv' dom_if split: if_splits)

subsection \<open>Readiness tokens\<close>

definition owns :: "('c, 'm) forwarder \<Rightarrow> token \<Rightarrow> route \<Rightarrow> bool" where
  \<comment> \<open>the socket registered under the token belongs to this flow, session or job\<close>
  "owns fw t r \<longleftrightarrow>
     (case r of
        Route_Tcp fid \<Rightarrow> (\<exists>up. map_of (fw_tcp fw) fid = Some up \<and> up_token up = t)
      | Route_Udp key \<Rightarrow> (\<exists>s. map_of (fw_udp fw) key = Some s \<and> us_token s = t)
      | Route_SocksCtrl key \<Rightarrow> (\<exists>s. map_of (fw_socks_udp fw) key = Some s \<and> ss_ctrl_token s = t)
      | Route_SocksRelay key \<Rightarrow> (\<exists>s. map_of (fw_socks_udp fw) key = Some s \<and> ss_relay_token s = t)
      | Route_DnsTcp \<Rightarrow> map_of (fw_dns_tcp fw) t \<noteq> None
      | Route_DnsTls \<Rightarrow> map_of (fw_dns_tls fw) t \<noteq> None)"

definition routes_ok :: "('c, 'm) forwarder \<Rightarrow> bool" where
  "routes_ok fw \<longleftrightarrow> hm_inv (fw_routes fw)
     \<and> (\<forall>t r. map_of (fw_routes fw) t = Some r \<longleftrightarrow> owns fw t r)
     \<and> (\<forall>t\<in>dom (map_of (fw_routes fw)). t < fw_next_token fw)"

lemma routes_okI:
  assumes "hm_inv (fw_routes fw)" and "\<And>t r. map_of (fw_routes fw) t = Some r \<longleftrightarrow> owns fw t r"
    and "\<And>t. map_of (fw_routes fw) t \<noteq> None \<Longrightarrow> t < fw_next_token fw"
  shows "routes_ok fw"
  using assms by (auto simp: routes_ok_def)

lemma routes_okD:
  assumes "routes_ok fw"
  shows "hm_inv (fw_routes fw)" and "map_of (fw_routes fw) t = Some r \<longleftrightarrow> owns fw t r"
    and "map_of (fw_routes fw) t \<noteq> None \<Longrightarrow> t < fw_next_token fw"
  using assms by (auto simp: routes_ok_def dom_def)

lemma owns_same:
  assumes "fw_tcp fw' = fw_tcp fw" "fw_udp fw' = fw_udp fw" "fw_socks_udp fw' = fw_socks_udp fw"
    "fw_dns_tcp fw' = fw_dns_tcp fw" "fw_dns_tls fw' = fw_dns_tls fw"
  shows "owns fw' t r = owns fw t r"
  using assms by (cases r) (simp_all add: owns_def)

lemma routes_ok_same:
  assumes "fw_tcp fw' = fw_tcp fw" "fw_udp fw' = fw_udp fw" "fw_socks_udp fw' = fw_socks_udp fw"
    "fw_dns_tcp fw' = fw_dns_tcp fw" "fw_dns_tls fw' = fw_dns_tls fw" "fw_routes fw' = fw_routes fw"
    "fw_next_token fw \<le> fw_next_token fw'" and "routes_ok fw"
  shows "routes_ok fw'"
proof (rule routes_okI)
  show "hm_inv (fw_routes fw')" using assms(6) routes_okD(1)[OF assms(8)] by simp
  show "map_of (fw_routes fw') t = Some r \<longleftrightarrow> owns fw' t r" for t r
    using assms(6) routes_okD(2)[OF assms(8)] owns_same[OF assms(1-5)] by simp
  show "t < fw_next_token fw'" if "map_of (fw_routes fw') t \<noteq> None" for t
    using routes_okD(3)[OF assms(8), of t] that assms(6,7) by simp
qed

text \<open>A record may change as long as it keeps its tokens; a new record comes with its routes, and a
  dropped one takes them away.\<close>

lemma routes_ok_update:
  assumes "routes_ok fw" and "fw_routes fw' = fw_routes fw" and "fw_next_token fw' = fw_next_token fw"
    and "\<And>t r. owns fw' t r = owns fw t r"
  shows "routes_ok fw'"
  using assms by (auto simp: routes_ok_def)

lemma routes_ok_add:
  assumes "routes_ok fw" and "fw_routes fw' = AList.update tk rt (fw_routes fw)" and "fw_next_token fw' = fw_next_token fw"
    and "map_of (fw_routes fw) tk = None" and "tk < fw_next_token fw"
    and "\<And>t r. owns fw' t r \<longleftrightarrow> owns fw t r \<or> t = tk \<and> r = rt"
  shows "routes_ok fw'"
proof -
  have "\<not> owns fw tk r" for r using routes_okD(2)[OF assms(1), of tk r] assms(4) by simp
  then show ?thesis
    using assms by (auto simp: routes_ok_def update_conv')
qed

lemma owns_unique: "routes_ok fw \<Longrightarrow> owns fw t r \<Longrightarrow> owns fw t r' \<Longrightarrow> r = r'"
  by (metis option.inject routes_okD(2))

lemma routes_ok_drop:
  assumes ok: "routes_ok fw" and "fw_routes fw' = fold AList.delete (map fst gone) (fw_routes fw)"
    and "fw_next_token fw' = fw_next_token fw" and own: "\<forall>(tk, rt)\<in>set gone. owns fw tk rt"
    and "\<And>t r. owns fw' t r \<longleftrightarrow> owns fw t r \<and> (t, r) \<notin> set gone"
  shows "routes_ok fw'"
proof -
  have del: "map_of (fold AList.delete ts m) t = (if t \<in> set ts then None else map_of m t)"
    and inv: "hm_inv m \<Longrightarrow> hm_inv (fold AList.delete ts m)" for ts and m :: "(token, route) hash_map" and t
    by (induction ts arbitrary: m) (auto simp: delete_conv')
  have gone: "t \<in> fst ` set gone \<longleftrightarrow> (t, r) \<in> set gone" if "owns fw t r" for t r
  proof
    assume "t \<in> fst ` set gone"
    then obtain r' where "(t, r') \<in> set gone" by auto
    moreover from this have "r' = r" using own owns_unique[OF ok _ that] by blast
    ultimately show "(t, r) \<in> set gone" by simp
  qed (simp add: rev_image_eqI)
  show ?thesis
  proof (rule routes_okI)
    show "hm_inv (fw_routes fw')" unfolding assms(2) by (rule inv[OF routes_okD(1)[OF ok]])
    show "map_of (fw_routes fw') t = Some r \<longleftrightarrow> owns fw' t r" for t r
      using routes_okD(2)[OF ok, of t r] gone[of t r] by (auto simp: assms(2,5) del)
    show "t < fw_next_token fw'" if "map_of (fw_routes fw') t \<noteq> None" for t
      using that routes_okD(3)[OF ok, of t] by (simp add: assms(2,3) del split: if_splits)
  qed
qed

lemmas owns_simps = owns_def move_defs update_conv' delete_conv' up_alike_def

lemma routes_ok_upd_moves:
  assumes "routes_ok fw"
  shows "map_of (fw_tcp fw) fid = Some up \<Longrightarrow> up_alike up up' \<Longrightarrow> routes_ok (put_tcp fid up' fw)"
    and "map_of (fw_udp fw) key = Some s \<Longrightarrow> us_token s' = us_token s
      \<Longrightarrow> routes_ok (fw\<lparr>fw_udp := AList.update key s' (fw_udp fw)\<rparr>)"
    and "map_of (fw_socks_udp fw) key = Some a \<Longrightarrow> ss_ctrl_token a' = ss_ctrl_token a \<Longrightarrow> ss_relay_token a' = ss_relay_token a
      \<Longrightarrow> routes_ok (fw\<lparr>fw_socks_udp := AList.update key a' (fw_socks_udp fw)\<rparr>)"
    and "map_of (fw_dns_tcp fw) t = Some j \<Longrightarrow> routes_ok (put_dns_tcp t j' fw)"
    and "map_of (fw_dns_tls fw) t = Some tj \<Longrightarrow> routes_ok (put_dns_tls t tj' fw)"
proof -
  note upd = routes_ok_update[OF assms]
  show "map_of (fw_tcp fw) fid = Some up \<Longrightarrow> up_alike up up' \<Longrightarrow> routes_ok (put_tcp fid up' fw)"
    by (rule upd) (auto simp: owns_simps split: route.split)
  show "map_of (fw_udp fw) key = Some s \<Longrightarrow> us_token s' = us_token s
      \<Longrightarrow> routes_ok (fw\<lparr>fw_udp := AList.update key s' (fw_udp fw)\<rparr>)"
    by (rule upd) (auto simp: owns_simps split: route.split)
  show "map_of (fw_socks_udp fw) key = Some a \<Longrightarrow> ss_ctrl_token a' = ss_ctrl_token a \<Longrightarrow> ss_relay_token a' = ss_relay_token a
      \<Longrightarrow> routes_ok (fw\<lparr>fw_socks_udp := AList.update key a' (fw_socks_udp fw)\<rparr>)"
    by (rule upd) (auto simp: owns_simps split: route.split)
  show "map_of (fw_dns_tcp fw) t = Some j \<Longrightarrow> routes_ok (put_dns_tcp t j' fw)"
    by (rule upd) (auto simp: owns_simps split: route.split)
  show "map_of (fw_dns_tls fw) t = Some tj \<Longrightarrow> routes_ok (put_dns_tls t tj' fw)"
    by (rule upd) (auto simp: owns_simps split: route.split)
qed

lemma routes_ok_new_moves:
  assumes "routes_ok fw" and "map_of (fw_routes fw) t = None" and "t < fw_next_token fw"
  shows "map_of (fw_tcp fw) fid = None \<Longrightarrow> up_token up = t
      \<Longrightarrow> routes_ok (put_tcp fid up (fw\<lparr>fw_routes := AList.update t (Route_Tcp fid) (fw_routes fw)\<rparr>))"
    and "map_of (fw_udp fw) key = None \<Longrightarrow> us_token s = t
      \<Longrightarrow> routes_ok (fw\<lparr>fw_routes := AList.update t (Route_Udp key) (fw_routes fw), fw_udp := AList.update key s (fw_udp fw)\<rparr>)"
    and "map_of (fw_dns_tcp fw) t = None
      \<Longrightarrow> routes_ok (put_dns_tcp t j (fw\<lparr>fw_routes := AList.update t Route_DnsTcp (fw_routes fw)\<rparr>))"
    and "map_of (fw_dns_tls fw) t = None
      \<Longrightarrow> routes_ok (put_dns_tls t tj (fw\<lparr>fw_routes := AList.update t Route_DnsTls (fw_routes fw)\<rparr>))"
proof -
  note add = routes_ok_add[OF assms(1) _ _ assms(2,3)]
  show "map_of (fw_tcp fw) fid = None \<Longrightarrow> up_token up = t
      \<Longrightarrow> routes_ok (put_tcp fid up (fw\<lparr>fw_routes := AList.update t (Route_Tcp fid) (fw_routes fw)\<rparr>))"
    by (rule add[where rt = "Route_Tcp fid"]) (auto simp: owns_simps split: route.split)
  show "map_of (fw_udp fw) key = None \<Longrightarrow> us_token s = t
      \<Longrightarrow> routes_ok (fw\<lparr>fw_routes := AList.update t (Route_Udp key) (fw_routes fw), fw_udp := AList.update key s (fw_udp fw)\<rparr>)"
    by (rule add[where rt = "Route_Udp key"]) (auto simp: owns_simps split: route.split)
  show "map_of (fw_dns_tcp fw) t = None
      \<Longrightarrow> routes_ok (put_dns_tcp t j (fw\<lparr>fw_routes := AList.update t Route_DnsTcp (fw_routes fw)\<rparr>))"
    by (rule add[where rt = Route_DnsTcp]) (auto simp: owns_simps split: route.split)
  show "map_of (fw_dns_tls fw) t = None
      \<Longrightarrow> routes_ok (put_dns_tls t tj (fw\<lparr>fw_routes := AList.update t Route_DnsTls (fw_routes fw)\<rparr>))"
    by (rule add[where rt = Route_DnsTls]) (auto simp: owns_simps split: route.split)
qed

lemma routes_ok_drop_moves:
  assumes "routes_ok fw"
  shows "map_of (fw_tcp fw) fid = Some up \<Longrightarrow> routes_ok
      (fw\<lparr>fw_tcp := AList.delete fid (fw_tcp fw), fw_routes := AList.delete (up_token up) (fw_routes fw)\<rparr>)"
    and "map_of (fw_udp fw) key = Some s \<Longrightarrow> routes_ok
      (fw\<lparr>fw_udp := AList.delete key (fw_udp fw), fw_routes := AList.delete (us_token s) (fw_routes fw)\<rparr>)"
    and "map_of (fw_dns_tcp fw) t = Some j \<Longrightarrow> routes_ok
      (fw\<lparr>fw_dns_tcp := AList.delete t (fw_dns_tcp fw), fw_routes := AList.delete t (fw_routes fw)\<rparr>)"
    and "map_of (fw_dns_tls fw) t = Some tj \<Longrightarrow> routes_ok
      (fw\<lparr>fw_dns_tls := AList.delete t (fw_dns_tls fw), fw_routes := AList.delete t (fw_routes fw)\<rparr>)"
    and "map_of (fw_socks_udp fw) key = Some a \<Longrightarrow> routes_ok
      (fw\<lparr>fw_socks_udp := AList.delete key (fw_socks_udp fw),
          fw_routes := AList.delete (ss_relay_token a) (AList.delete (ss_ctrl_token a) (fw_routes fw))\<rparr>)"
proof -
  note drop = routes_ok_drop[OF assms]
  show "map_of (fw_tcp fw) fid = Some up \<Longrightarrow> routes_ok
      (fw\<lparr>fw_tcp := AList.delete fid (fw_tcp fw), fw_routes := AList.delete (up_token up) (fw_routes fw)\<rparr>)"
    by (rule drop[where gone = "[(up_token up, Route_Tcp fid)]"]) (auto simp: owns_simps split: route.split)
  show "map_of (fw_udp fw) key = Some s \<Longrightarrow> routes_ok
      (fw\<lparr>fw_udp := AList.delete key (fw_udp fw), fw_routes := AList.delete (us_token s) (fw_routes fw)\<rparr>)"
    by (rule drop[where gone = "[(us_token s, Route_Udp key)]"]) (auto simp: owns_simps split: route.split)
  show "map_of (fw_dns_tcp fw) t = Some j \<Longrightarrow> routes_ok
      (fw\<lparr>fw_dns_tcp := AList.delete t (fw_dns_tcp fw), fw_routes := AList.delete t (fw_routes fw)\<rparr>)"
    by (rule drop[where gone = "[(t, Route_DnsTcp)]"]) (auto simp: owns_simps split: route.split)
  show "map_of (fw_dns_tls fw) t = Some tj \<Longrightarrow> routes_ok
      (fw\<lparr>fw_dns_tls := AList.delete t (fw_dns_tls fw), fw_routes := AList.delete t (fw_routes fw)\<rparr>)"
    by (rule drop[where gone = "[(t, Route_DnsTls)]"]) (auto simp: owns_simps split: route.split)
  show "map_of (fw_socks_udp fw) key = Some a \<Longrightarrow> routes_ok
      (fw\<lparr>fw_socks_udp := AList.delete key (fw_socks_udp fw),
          fw_routes := AList.delete (ss_relay_token a) (AList.delete (ss_ctrl_token a) (fw_routes fw))\<rparr>)"
    by (rule drop[where gone = "[(ss_ctrl_token a, Route_SocksCtrl key), (ss_relay_token a, Route_SocksRelay key)]"])
      (auto simp: owns_simps split: route.split)
qed

lemma routes_ok_new_socks:
  assumes ok: "routes_ok fw" and "map_of (fw_socks_udp fw) key = None" and c: "map_of (fw_routes fw) (ss_ctrl_token s) = None"
    and r: "map_of (fw_routes fw) (ss_relay_token s) = None" and "ss_ctrl_token s \<noteq> ss_relay_token s"
    and "ss_ctrl_token s < fw_next_token fw" and "ss_relay_token s < fw_next_token fw"
  shows "routes_ok (fw\<lparr>fw_routes := AList.update (ss_relay_token s) (Route_SocksRelay key)
      (AList.update (ss_ctrl_token s) (Route_SocksCtrl key) (fw_routes fw)), fw_socks_udp := AList.update key s (fw_socks_udp fw)\<rparr>)"
    (is "routes_ok ?fw'")
proof -
  have "\<not> owns fw (ss_ctrl_token s) x" "\<not> owns fw (ss_relay_token s) x" for x
    using routes_okD(2)[OF ok] c r by (metis option.distinct(1))+
  moreover have "owns ?fw' t x \<longleftrightarrow> owns fw t x \<or> t = ss_ctrl_token s \<and> x = Route_SocksCtrl key \<or> t = ss_relay_token s \<and> x = Route_SocksRelay key" for t x
    using assms(2) by (auto simp: owns_simps split: route.split)
  ultimately show ?thesis using assms by (auto simp: routes_ok_def update_conv')
qed

lemma mv_routes_ok: "mv X fw fw' \<Longrightarrow> routes_ok fw \<Longrightarrow> routes_ok fw'"
proof (induction rule: mv.induct)
  case (mv_tcp_upd fw fid up up')
  then show ?case by (rule routes_ok_upd_moves(1)[rotated])
next
  case (mv_tcp_new fw fid up)
  show ?case by (rule routes_ok_new_moves(1)[OF mv_tcp_new(6) mv_tcp_new(3,4,1) refl])
next
  case (mv_tcp_drop fw fid up)
  show ?case by (rule routes_ok_drop_moves(1)[OF mv_tcp_drop(2,1)])
next
  case (mv_udp_upd fw key s s')
  show ?case by (rule routes_ok_upd_moves(2)[OF mv_udp_upd(5,1,2)])
next
  case (mv_udp_new fw key s)
  show ?case by (rule routes_ok_new_moves(2)[OF mv_udp_new(5) mv_udp_new(2,3,1) refl])
next
  case (mv_udp_drop fw key s)
  show ?case by (rule routes_ok_drop_moves(2)[OF mv_udp_drop(2,1)])
next
  case (mv_socks_upd fw key s s')
  show ?case by (rule routes_ok_upd_moves(3)[OF mv_socks_upd(7,1,2,3)])
next
  case (mv_socks_new fw key s)
  show ?case by (rule routes_ok_new_socks[OF mv_socks_new(9) mv_socks_new(1-6)])
next
  case (mv_socks_drop fw key s)
  show ?case by (rule routes_ok_drop_moves(5)[OF mv_socks_drop(2,1)])
next
  case (mv_dtcp_upd fw t j j')
  show ?case by (rule routes_ok_upd_moves(4)[OF mv_dtcp_upd(2,1)])
next
  case (mv_dtcp_new fw t j)
  show ?case by (rule routes_ok_new_moves(3)[OF mv_dtcp_new(5) mv_dtcp_new(3,4,1)])
next
  case (mv_dtcp_drop fw t j)
  show ?case by (rule routes_ok_drop_moves(3)[OF mv_dtcp_drop(2,1)])
next
  case (mv_dtls_upd fw t j j')
  show ?case by (rule routes_ok_upd_moves(5)[OF mv_dtls_upd(2,1)])
next
  case (mv_dtls_new fw t j)
  show ?case by (rule routes_ok_new_moves(4)[OF mv_dtls_new(5) mv_dtls_new(3,4,1)])
next
  case (mv_dtls_drop fw t j)
  show ?case by (rule routes_ok_drop_moves(4)[OF mv_dtls_drop(2,1)])
qed ((erule routes_ok_same[rotated 7]; simp add: emit_def panic_def)+)

subsection \<open>Bounds and keys\<close>

definition bounds_ok :: "('c, 'm) forwarder \<Rightarrow> bool" where
  "bounds_ok fw \<longleftrightarrow> hm_inv (fw_udp fw) \<and> hm_inv (fw_socks_udp fw) \<and> hm_inv (fw_dns_tcp fw) \<and> hm_inv (fw_dns_tls fw)
     \<and> length (fw_dns_tcp fw) \<le> DNS_TCP_MAX_JOBS \<and> length (fw_dns_tls fw) \<le> DNS_TLS_MAX_JOBS
     \<and> length (fw_har fw) \<le> HAR_MAX_ENTRIES \<and> length (fw_pinned fw) \<le> PINNED_CAP
     \<and> (\<forall>key s. map_of (fw_udp fw) key = Some s \<longrightarrow> key = \<lparr>uk_app = us_app s, uk_server = us_server s\<rparr>)
     \<and> (\<forall>key s. map_of (fw_socks_udp fw) key = Some s \<longrightarrow> key = \<lparr>uk_app = ss_app s, uk_server = ss_reply_src s\<rparr>
          \<and> length (ss_pending s) \<le> SOCKS_UDP_PENDING_CAP)"

lemma length_update_map_of: "length (AList.update k v m) = (if map_of m k = None then Suc (length m) else length m)"
  by (induction m) auto

lemma har_add_bound: "length har \<le> HAR_MAX_ENTRIES \<Longrightarrow> length (har_add ts har) \<le> HAR_MAX_ENTRIES"
  by (induction ts har rule: har_add.induct) (auto simp: HAR_MAX_ENTRIES_def)

lemma mv_bounds_ok: "mv X fw fw' \<Longrightarrow> bounds_ok fw \<Longrightarrow> bounds_ok fw'"
proof (induction rule: mv.induct)
  case (mv_pin fw pin)
  then show ?case by (auto simp: bounds_ok_def List.insert_def)
qed (auto simp: bounds_ok_def move_defs update_conv' delete_conv' length_update_map_of har_add_bound
    intro: order_trans[OF length_delete_le] split: if_splits)

subsection \<open>Verdicts\<close>

definition verdicts_ok :: "('c, 'm) forwarder \<Rightarrow> bool" where
  \<comment> \<open>a cached verdict is the policy's\<close>
  "verdicts_ok fw \<longleftrightarrow> ft_inv (fw_verdicts fw)
     \<and> ftab.all_cached (\<lambda>_ v. vd_blocked v = policy_blocks fw (vd_uid v)) (fw_verdicts fw)"

lemma policy_same:
  "fw_firewall fw' = fw_firewall fw \<Longrightarrow> fw_transport fw' = fw_transport fw \<Longrightarrow> policy_blocks fw' = policy_blocks fw"
  by (rule ext) (simp add: policy_blocks_def split: option.split)

lemma verdicts_ok_same:
  assumes "fw_firewall fw' = fw_firewall fw" "fw_transport fw' = fw_transport fw" "fw_verdicts fw' = fw_verdicts fw"
    and "verdicts_ok fw"
  shows "verdicts_ok fw'"
  using assms policy_same[OF assms(1,2)] by (simp add: verdicts_ok_def)

lemma mv_verdicts_ok: "mv X fw fw' \<Longrightarrow> verdicts_ok fw \<Longrightarrow> verdicts_ok fw'"
proof (induction rule: mv.induct)
  case (mv_lookup fw k)
  let ?fw' = "fw\<lparr>fw_verdicts := snd (ft_get k (fw_verdicts fw))\<rparr>"
  have "policy_blocks ?fw' = policy_blocks fw" by (rule policy_same) simp_all
  with mv_lookup show ?case by (simp add: verdicts_ok_def ftab.all_cached_lookup ftab.lookup_invar)
next
  case (mv_decide v fw k)
  let ?fw' = "fw\<lparr>fw_verdicts := ft_insert k v (fw_verdicts fw)\<rparr>"
  have "policy_blocks ?fw' = policy_blocks fw" by (rule policy_same) simp_all
  with mv_decide show ?case by (simp add: verdicts_ok_def ftab.all_cached_store ftab.store_invar)
qed ((erule verdicts_ok_same[rotated 3]; simp add: move_defs)+)

subsection \<open>All together\<close>

definition fwd_ok :: "('c, 'm) forwarder \<Rightarrow> bool" where
  "fwd_ok fw \<longleftrightarrow> stack_ok fw \<and> routes_ok fw \<and> bounds_ok fw \<and> verdicts_ok fw"

lemma mvs_fwd_ok: "mvs X fw fw' \<Longrightarrow> fwd_ok fw \<Longrightarrow> fwd_ok fw'"
  by (induction rule: rtranclp_induct) (auto simp: fwd_ok_def intro: mv_stack_ok mv_routes_ok mv_bounds_ok mv_verdicts_ok)

end
