(* ===== verification/Fw_Refine_Ops.thy ===== *)
theory Fw_Refine_Ops
  imports Fw_Refine Fw_Invariant
begin

section \<open>Dialling and the operations refine the transition system\<close>

text \<open>
  The dials, the datagram tables and the DNS jobs as moves, and with them whole operations. A dial
  changes nothing but the calls made, the counters, the trace and the next token (\<open>dialled\<close>).
\<close>

definition tables where
  "tables fw = (fw_stack fw, fw_tcp fw, fw_udp fw, fw_socks_udp fw, fw_dns_tcp fw, fw_dns_tls fw, fw_routes fw,
     fw_socks_udp_unsupported fw, fw_pinned fw)"

lemmas view_defs = settings_def tables_def

lemma dial_guards_settings:
  assumes "settings fw' = settings fw"
  shows "tcp_dial_ok fw' a = tcp_dial_ok fw a" "udp_dial_ok fw' a = udp_dial_ok fw a" "fw_proxy fw' = fw_proxy fw"
  using assms by (auto simp: settings_def tcp_dial_ok_def udp_dial_ok_def resolver_def dns_upstream_def split: option.split)

text \<open>A step that only counts, and a dial, whose token is the next one.\<close>

definition quiet where
  "quiet X fw fw' \<longleftrightarrow> settings fw' = settings fw \<and> tables fw' = tables fw \<and> fw_next_token fw' = fw_next_token fw
     \<and> (\<forall>a. mvs X a fw \<longrightarrow> mvs X a fw')"

definition dialled where
  "dialled X fw c fw' \<longleftrightarrow> settings fw' = settings fw \<and> tables fw' = tables fw
     \<and> fw_next_token fw \<le> fw_next_token fw'
     \<and> (\<forall>t. c = Some t \<longrightarrow> fw_next_token fw \<le> t \<and> t < fw_next_token fw')
     \<and> (\<forall>a. mvs X a fw \<longrightarrow> mvs X a fw')"

lemma quiet_refl [simp]: "quiet X fw fw"
  by (simp add: quiet_def)

lemma quiet_trans: "quiet X a b \<Longrightarrow> quiet X b c \<Longrightarrow> quiet X a c"
  by (simp add: quiet_def)

lemma quiet_tick [simp]: "quiet X fw (tick fw)"
  by (auto simp: quiet_def view_defs tick_def)

lemma quiet_bump [simp]: "quiet X fw (bump f fw)"
  by (auto simp: quiet_def view_defs bump_def)

lemma quiet_ask: "ask f fw = (r, fw') \<Longrightarrow> quiet X fw fw'"
  by (auto simp: ask_def)

lemma quiet_emit:
  assumes "mv X fw (emit e fw)"
  shows "quiet X fw (emit e fw)"
proof -
  have "settings (emit e fw) = settings fw \<and> tables (emit e fw) = tables fw \<and> fw_next_token (emit e fw) = fw_next_token fw"
    by (simp add: view_defs emit_def)
  then show ?thesis using mvs_step[OF _ assms] unfolding quiet_def by simp
qed

lemma quiet_dialled: "quiet X a b \<Longrightarrow> dialled X b c d \<Longrightarrow> dialled X a c d"
  by (simp add: quiet_def dialled_def)

lemma quiet_no_dial: "quiet X a b \<Longrightarrow> dialled X a None b"
  by (simp add: quiet_def dialled_def)

lemma dialled_then: "dialled X a None b \<Longrightarrow> quiet X b c \<Longrightarrow> dialled X a None c"
  by (simp add: quiet_def dialled_def)

lemma open_protected_quiet: "open_protected X fw = (s, fw') \<Longrightarrow> quiet X fw fw'"
  unfolding open_protected_def Let_def
  by (auto split: prod.splits if_splits dest!: quiet_ask[where X = X] intro: quiet_trans quiet_trans[OF _ quiet_bump])

lemma mvs_token: "mvs X a fw \<Longrightarrow> mvs X a (fw\<lparr>fw_next_token := Suc (fw_next_token fw)\<rparr>)"
  by (rule mvs_step[OF _ mv_token])

lemma register_dialled:
  assumes "register X fw = (t, fw')"
  shows "dialled X fw t fw'"
proof -
  have fw': "fw' = tick (fw\<lparr>fw_next_token := Suc (fw_next_token fw)\<rparr>)" and t: "t = None \<or> t = Some (fw_next_token fw)"
    using assms by (auto simp: register_def alloc_token_def ask_def split: if_splits)
  then show ?thesis
    by (auto simp: dialled_def view_defs tick_def mvs_token intro!: mvs_calls)
qed

lemma token_of_pair: "map_option snd (map_option (Pair io) t) = t"
  by (cases t) simp_all

lemma register_pair:
  assumes "(let (t, fw) = register X fw in (map_option (Pair io) t, fw)) = (c, fw')"
  shows "dialled X fw (map_option snd c) fw'"
proof -
  obtain t fw4 where r: "register X fw = (t, fw4)" by force
  then have "c = map_option (Pair io) t" "fw' = fw4" using assms by simp_all
  then show ?thesis using register_dialled[OF r] by (simp only: token_of_pair)
qed

definition dial_addr where
  "dial_addr fw server = (case fw_proxy fw of Some p \<Rightarrow> px_addr p | None \<Rightarrow> server)"

text \<open>Every dial starts with a protected socket and ends with a token.\<close>

lemma open_then_dialled:
  assumes "open_protected X fw = (made, fw1)"
    and "made = None \<Longrightarrow> c = None \<and> fw' = fw1"
    and "\<And>s. made = Some s \<Longrightarrow> settings fw1 = settings fw \<Longrightarrow> dialled X fw1 (map_option snd c) fw'"
  shows "dialled X fw (map_option snd c) fw'"
proof (cases made)
  case None
  with assms(2) quiet_no_dial[OF open_protected_quiet[OF assms(1)]] show ?thesis by simp
next
  case (Some s)
  with open_protected_quiet[OF assms(1)] have "settings fw1 = settings fw" by (simp add: quiet_def)
  from quiet_dialled[OF open_protected_quiet[OF assms(1)] assms(3)[OF Some this]] show ?thesis .
qed

lemma connect_tcp_dialled:
  assumes "connect_tcp X server fw = (c, fw')" and ok: "tcp_dial_ok fw (dial_addr fw server)"
  shows "dialled X fw (map_option snd c) fw'"
proof -
  obtain made fw1 where o: "open_protected X fw = (made, fw1)" by force
  show ?thesis
  proof (rule open_then_dialled[OF o])
    show "made = None \<Longrightarrow> c = None \<and> fw' = fw1" using assms(1) o by (simp add: connect_tcp_def)
  next
    fix s assume s: "made = Some s" and set1: "settings fw1 = settings fw"
    let ?fw2 = "tick (emit (E_Connect s (dial_addr fw server)) fw1)"
    have px: "fw_proxy fw1 = fw_proxy fw" "fw_proxy ?fw2 = fw_proxy fw"
      using set1 by (simp_all add: settings_def tick_def emit_def)
    have "quiet X fw1 (emit (E_Connect s (dial_addr fw server)) fw1)"
      by (rule quiet_emit, rule mv_dial_tcp) (simp add: dial_guards_settings[OF set1] ok)
    then have q: "quiet X fw1 ?fw2" by (rule quiet_trans) simp
    show "dialled X fw1 (map_option snd c) fw'"
    proof (cases "\<exists>p. fw_proxy fw = Some p \<and> is_tls p")
      case True
      obtain built fw3 where b: "ask (sy_ok X) ?fw2 = (built, fw3)" by force
      have q3: "quiet X fw1 fw3" using quiet_trans[OF q quiet_ask[OF b]] .
      from True have *: "(if built then (let (t, fw4) = register X fw3 in (map_option (Pair (Io_Tls s)) t, fw4)) else (None, fw3)) = (c, fw')"
        using assms(1) o s b px by (auto simp: connect_tcp_def dial_addr_def Let_def split: if_splits)
      show ?thesis
      proof (cases built)
        case True
        then show ?thesis using * quiet_dialled[OF q3 register_pair] by simp
      next
        case False
        then show ?thesis using * quiet_no_dial[OF q3] by simp
      qed
    next
      case False
      then have "(let (t, fw4) = register X ?fw2 in (map_option (Pair (Io_Plain s)) t, fw4)) = (c, fw')"
        using assms(1) o s px by (auto simp: connect_tcp_def dial_addr_def Let_def split: option.splits)
      then show ?thesis by (rule quiet_dialled[OF q register_pair])
    qed
  qed
qed

lemma connect_udp_dialled:
  assumes "connect_udp X server fw = (c, fw')" and ok: "udp_dial_ok fw server"
  shows "dialled X fw (map_option snd c) fw'"
proof -
  obtain made fw1 where o: "open_protected X fw = (made, fw1)" by force
  show ?thesis
  proof (rule open_then_dialled[OF o])
    show "made = None \<Longrightarrow> c = None \<and> fw' = fw1" using assms(1) o by (simp add: connect_udp_def)
  next
    fix s assume s: "made = Some s" and set1: "settings fw1 = settings fw"
    obtain k fw3 where b: "ask (sy_ok X) (emit (E_Udp_Connect s server) fw1) = (k, fw3)" by force
    have "quiet X fw1 (emit (E_Udp_Connect s server) fw1)"
      by (rule quiet_emit, rule mv_dial_udp) (simp add: dial_guards_settings[OF set1] ok)
    then have q3: "quiet X fw1 fw3" using quiet_trans quiet_ask[OF b] by blast
    have *: "(if \<not> k then (None, fw3) else let (t, fw) = register X fw3 in (map_option (Pair s) t, fw)) = (c, fw')"
      using assms(1) o s b by (simp add: connect_udp_def)
    show "dialled X fw1 (map_option snd c) fw'"
    proof (cases k)
      case True
      then show ?thesis using * quiet_dialled[OF q3 register_pair] by simp
    next
      case False
      then show ?thesis using * quiet_no_dial[OF q3] by simp
    qed
  qed
qed

lemma connect_dns_tls_dialled:
  assumes "connect_dns_tls X dial fw = (c, fw')" and ok: "tcp_dial_ok fw dial"
  shows "dialled X fw (map_option snd c) fw'"
proof -
  obtain made fw1 where o: "open_protected X fw = (made, fw1)" by force
  show ?thesis
  proof (rule open_then_dialled[OF o])
    show "made = None \<Longrightarrow> c = None \<and> fw' = fw1" using assms(1) o by (simp add: connect_dns_tls_def)
  next
    fix s assume s: "made = Some s" and set1: "settings fw1 = settings fw"
    let ?fw2 = "tick (emit (E_Connect s dial) fw1)"
    obtain k fw3 where b: "ask (sy_ok X) ?fw2 = (k, fw3)" by force
    have "quiet X fw1 (emit (E_Connect s dial) fw1)"
      by (rule quiet_emit, rule mv_dial_tcp) (simp add: dial_guards_settings[OF set1] ok)
    then have "quiet X fw1 ?fw2" by (rule quiet_trans) simp
    from quiet_trans[OF this quiet_ask[OF b]] have q3: "quiet X fw1 fw3" .
    have *: "(if \<not> k then (None, fw3) else let (t, fw) = register X fw3 in (map_option (Pair (Io_Tls s)) t, fw)) = (c, fw')"
      using assms(1) o s b by (simp add: connect_dns_tls_def)
    show "dialled X fw1 (map_option snd c) fw'"
    proof (cases k)
      case True
      then show ?thesis using * quiet_dialled[OF q3 register_pair] by simp
    next
      case False
      then show ?thesis using * quiet_no_dial[OF q3] by simp
    qed
  qed
qed

lemma connect_socks_ctrl_dialled:
  assumes "connect_socks_ctrl X fw = (c, fw')" and ok: "\<not> fw_proxy_broken fw"
  shows "dialled X fw (map_option snd c) fw'"
proof (cases "fw_proxy fw")
  case None
  then show ?thesis using assms by (simp add: connect_socks_ctrl_def quiet_no_dial)
next
  case (Some p)
  obtain made fw1 where o: "open_protected X fw = (made, fw1)" by force
  show ?thesis
  proof (rule open_then_dialled[OF o])
    show "made = None \<Longrightarrow> c = None \<and> fw' = fw1" using assms(1) o Some by (simp add: connect_socks_ctrl_def)
  next
    fix s assume s: "made = Some s" and set1: "settings fw1 = settings fw"
    let ?fw2 = "tick (emit (E_Connect s (px_addr p)) fw1)"
    have "tcp_dial_ok fw (px_addr p)" using Some ok by (simp add: tcp_dial_ok_def)
    then have "quiet X fw1 (emit (E_Connect s (px_addr p)) fw1)"
      by (intro quiet_emit mv_dial_tcp) (simp add: dial_guards_settings[OF set1])
    then have q: "quiet X fw1 ?fw2" by (rule quiet_trans) simp
    have "(let (t, fw) = register X ?fw2 in (map_option (Pair s) t, fw)) = (c, fw')"
      using assms(1) o s Some by (simp add: connect_socks_ctrl_def)
    then show "dialled X fw1 (map_option snd c) fw'" by (rule quiet_dialled[OF q register_pair])
  qed
qed

lemma new_relay_socket_dialled:
  assumes "new_relay_socket X fw = (c, fw')"
  shows "dialled X fw (map_option snd c) fw'"
proof (cases "fw_proxy fw")
  case None
  then show ?thesis using assms by (simp add: new_relay_socket_def quiet_no_dial)
next
  case (Some p)
  obtain made fw1 where o: "open_protected X fw = (made, fw1)" by force
  show ?thesis
  proof (rule open_then_dialled[OF o])
    show "made = None \<Longrightarrow> c = None \<and> fw' = fw1" using assms(1) o Some by (simp add: new_relay_socket_def)
  next
    fix s assume "made = Some s"
    then have "(let (t, fw) = register X fw1 in (map_option (Pair s) t, fw)) = (c, fw')"
      using assms(1) o Some by (simp add: new_relay_socket_def)
    then show "dialled X fw1 (map_option snd c) fw'" by (rule register_pair)
  qed
qed

end
