(* ===== verification/Fw_Refine_Jobs.thy ===== *)
theory Fw_Refine_Jobs
  imports Fw_Refine_Ops
begin

section \<open>Datagrams and DNS jobs as moves\<close>

lemma dialled_mvs: "dialled X fw c fw' \<Longrightarrow> mvs X a fw \<Longrightarrow> mvs X a fw'"
  by (simp add: dialled_def)

lemma dialled_same:
  assumes "dialled X fw c fw'"
  shows "fw_stack fw' = fw_stack fw" "fw_tcp fw' = fw_tcp fw" "fw_udp fw' = fw_udp fw" "fw_socks_udp fw' = fw_socks_udp fw"
    "fw_dns_tcp fw' = fw_dns_tcp fw" "fw_dns_tls fw' = fw_dns_tls fw" "fw_routes fw' = fw_routes fw" "fw_pinned fw' = fw_pinned fw"
    "fw_next_token fw \<le> fw_next_token fw'" "settings fw' = settings fw"
  using assms by (simp_all add: dialled_def tables_def)

text \<open>A dialled token has never been used.\<close>

lemma dialled_fresh:
  assumes d: "dialled X fw (Some t) fw'" and ok: "routes_ok fw"
  shows "map_of (fw_routes fw') t = None" "t < fw_next_token fw'" "fw_next_token fw \<le> t"
    "map_of (fw_dns_tcp fw') t = None" "map_of (fw_dns_tls fw') t = None"
proof -
  show le: "fw_next_token fw \<le> t" and "t < fw_next_token fw'" using d by (simp_all add: dialled_def)
  have r: "map_of (fw_routes fw) t = None" using routes_okD(3)[OF ok, of t] le by (cases "map_of (fw_routes fw) t") auto
  then show "map_of (fw_routes fw') t = None" by (simp add: dialled_same[OF d])
  have "\<not> owns fw t x" for x using routes_okD(2)[OF ok, of t x] r by simp
  from this[of Route_DnsTcp] this[of Route_DnsTls]
  show "map_of (fw_dns_tcp fw') t = None" "map_of (fw_dns_tls fw') t = None"
    by (simp_all add: owns_def dialled_same[OF d])
qed

lemma fwd_okD: "fwd_ok fw \<Longrightarrow> routes_ok fw" "fwd_ok fw \<Longrightarrow> stack_ok fw" "fwd_ok fw \<Longrightarrow> bounds_ok fw" "fwd_ok fw \<Longrightarrow> verdicts_ok fw"
  by (simp_all add: fwd_ok_def)

lemma guards_along:
  assumes "mvs X a fw"
  shows "tcp_dial_ok fw x = tcp_dial_ok a x" "udp_dial_ok fw x = udp_dial_ok a x" "fw_proxy fw = fw_proxy a"
    "dial_addr fw x = dial_addr a x" "fw_proxy_broken fw = fw_proxy_broken a"
  using dial_guards_settings[OF mvs_settings[OF assms]] mvs_settings[OF assms] by (simp_all add: dial_addr_def settings_def)

subsection \<open>The NAT table\<close>

lemma mvs_udp_session:
  assumes m: "mvs X a fw" and ok: "fwd_ok a" and d: "udp_dial_ok a upstream"
    and s: "udp_session_for X dgram upstream now fw = (have_it, fw')"
  shows "mvs X a fw'"
proof (cases "map_of (fw_udp fw) (udp_key_of dgram) = None")
  case False
  then show ?thesis using s m by (simp add: udp_session_for_def)
next
  case True
  obtain c fw1 where c: "connect_udp X upstream fw = (c, fw1)" by force
  note ok1 = mvs_fwd_ok[OF m ok]
  have di: "dialled X fw (map_option snd c) fw1"
    by (rule connect_udp_dialled[OF c]) (simp add: guards_along[OF m] d)
  note m1 = dialled_mvs[OF di m]
  show ?thesis
  proof (cases c)
    case None
    then show ?thesis using s True c m1 by (auto simp: udp_session_for_def)
  next
    case (Some st)
    obtain sk t where st: "st = (sk, t)" by force
    let ?fw = "bump st_udp_new_update fw1"
    let ?s = "\<lparr>us_socket = sk, us_token = t, us_app = ud_src dgram, us_server = ud_dst dgram, us_last_used_ms = now\<rparr>"
    have di': "dialled X fw (Some t) fw1" using di Some st by simp
    note fr = dialled_fresh[OF di' fwd_okD(1)[OF ok1]]
    have "mv X ?fw (?fw\<lparr>fw_routes := AList.update (us_token ?s) (Route_Udp (udp_key_of dgram)) (fw_routes ?fw),
        fw_udp := AList.update (udp_key_of dgram) ?s (fw_udp ?fw)\<rparr>)"
      using True fr by (intro mv_udp_new) (simp_all add: bump_def dialled_same[OF di] udp_key_of_def)
    from mvs_step[OF mvs_book(2)[OF m1] this] show ?thesis
      using s True c Some st by (auto simp: udp_session_for_def bump_def Let_def)
  qed
qed

lemma mvs_udp_put:
  "mvs X a fw \<Longrightarrow> map_of (fw_udp fw) key = Some s \<Longrightarrow> mvs X a (fw\<lparr>fw_udp := AList.update key (s\<lparr>us_last_used_ms := now\<rparr>) (fw_udp fw)\<rparr>)"
  by (erule mvs_step, rule mv_udp_upd) simp_all

lemma mvs_forward_udp:
  assumes m: "mvs X a fw" and ok: "fwd_ok a" and d: "udp_dial_ok a upstream"
  shows "mvs X a (forward_udp X dgram upstream fw)"
proof -
  obtain have_it fw2 where s: "udp_session_for X dgram upstream (fst (now_ms X fw)) (snd (now_ms X fw)) = (have_it, fw2)" by force
  have "mvs X a (snd (now_ms X fw))" using m by (auto simp: now_ms_def)
  from mvs_udp_session[OF this ok d s] have m2: "mvs X a fw2" .
  show ?thesis
    using s m2 by (auto simp: forward_udp_def case_prod_unfold Let_def intro!: mvs_sockets(2) mvs_udp_put split: option.split)
qed

lemma map_entry_update:
  "AList.map_entry k f m = (case map_of m k of None \<Rightarrow> m | Some v \<Rightarrow> AList.update k (f v) m)"
  by (induction m) (auto split: option.splits)

lemma mvs_inject: "mvs X a fw \<Longrightarrow> mvs X a (inject_replies X key server app ds fw)"
proof (induction ds arbitrary: fw)
  case (Cons d ds)
  let ?fw1 = "snd (now_ms X fw)"
  have m: "mvs X a ?fw1" using Cons.prems by (auto simp: now_ms_def)
  have "mvs X a (?fw1\<lparr>fw_udp := AList.map_entry key (us_last_used_ms_update (\<lambda>_. fst (now_ms X fw))) (fw_udp ?fw1)\<rparr>)"
    using m mvs_udp_put[OF m] by (auto simp: map_entry_update split: option.split)
  then show ?case by (simp add: case_prod_unfold Let_def Cons.IH mvs_book)
qed simp

lemma mvs_pump_udp_reply [intro!]: "mvs X a fw \<Longrightarrow> mvs X a (pump_udp_reply X key fw)"
  by (auto simp: pump_udp_reply_def case_prod_unfold Let_def intro!: mvs_inject split: option.split)

lemma deregister_same [simp]:
  "fw_tcp (deregister s fw) = fw_tcp fw" "fw_udp (deregister s fw) = fw_udp fw" "fw_socks_udp (deregister s fw) = fw_socks_udp fw"
  "fw_dns_tcp (deregister s fw) = fw_dns_tcp fw" "fw_dns_tls (deregister s fw) = fw_dns_tls fw" "fw_routes (deregister s fw) = fw_routes fw"
  by (simp_all add: deregister_def tick_def emit_def)

lemma mvs_drop_udp: "mvs X a fw \<Longrightarrow> mvs X a (drop_udp key fw)"
proof -
  assume m: "mvs X a fw"
  have "mvs X a (drop_udp key fw)" if u: "map_of (fw_udp fw) key = Some s" for s
    using mvs_step[OF mvs_sockets(1)[OF m] mv_udp_drop[of "deregister (us_socket s) fw" key s]] u by (simp add: drop_udp_def)
  then show ?thesis using m by (cases "map_of (fw_udp fw) key") (auto simp: drop_udp_def)
qed

lemma mvs_reap_udp [intro!]: "mvs X a fw \<Longrightarrow> mvs X a (reap_udp now fw)"
  unfolding reap_udp_def by (rule mvs_fold) (rule mvs_drop_udp)

subsection \<open>SOCKS associations\<close>

lemma mvs_now [intro!]: "mvs X a fw \<Longrightarrow> mvs X a (snd (now_ms X fw))"
  by (auto simp: now_ms_def)

lemma now_same [simp]:
  "fw_socks_udp (snd (now_ms X fw)) = fw_socks_udp fw" "fw_dns_tcp (snd (now_ms X fw)) = fw_dns_tcp fw"
  "fw_dns_tls (snd (now_ms X fw)) = fw_dns_tls fw" "fw_routes (snd (now_ms X fw)) = fw_routes fw"
  "fw_next_token (snd (now_ms X fw)) = fw_next_token fw" "fw_proxy (snd (now_ms X fw)) = fw_proxy fw"
  "fw_tcp (snd (now_ms X fw)) = fw_tcp fw" "fw_stack (snd (now_ms X fw)) = fw_stack fw"
  by (simp_all add: now_ms_def ask_def tick_def)

lemma mvs_teardown_socks [intro!]: "mvs X a fw \<Longrightarrow> mvs X a (teardown_socks key fw)"
proof -
  assume m: "mvs X a fw"
  have "mvs X a (teardown_socks key fw)" if u: "map_of (fw_socks_udp fw) key = Some s" for s
  proof -
    let ?fw = "deregister (ss_relay s) (deregister (ss_ctrl s) fw)"
    have "mvs X a ?fw" using m by (intro mvs_sockets(1))
    from mvs_step[OF this mv_socks_drop[of ?fw key s]] u show ?thesis by (simp add: teardown_socks_def)
  qed
  then show ?thesis using m by (cases "map_of (fw_socks_udp fw) key") (auto simp: teardown_socks_def)
qed

definition same_association where
  \<comment> \<open>an update of a session that keeps its sockets and its endpoints, and does not overfill its queue\<close>
  "same_association s s' \<longleftrightarrow> ss_ctrl_token s' = ss_ctrl_token s \<and> ss_relay_token s' = ss_relay_token s
     \<and> ss_app s' = ss_app s \<and> ss_reply_src s' = ss_reply_src s
     \<and> (length (ss_pending s) \<le> SOCKS_UDP_PENDING_CAP \<longrightarrow> length (ss_pending s') \<le> SOCKS_UDP_PENDING_CAP)"

lemma mvs_socks_put:
  assumes "mvs X a fw" and "map_of (fw_socks_udp fw) key = Some s" and "same_association s s'"
  shows "mvs X a (fw\<lparr>fw_socks_udp := AList.update key s' (fw_socks_udp fw)\<rparr>)"
  by (rule mvs_step[OF assms(1) mv_socks_upd[OF assms(2)]]) (use assms(3) in \<open>simp_all add: same_association_def\<close>)

lemma mvs_reuse_association:
  "mvs X a fw \<Longrightarrow> map_of (fw_socks_udp fw) key = Some s \<Longrightarrow> mvs X a (reuse_association key payload now s fw)"
  by (auto simp: reuse_association_def Let_def same_association_def intro!: mvs_socks_put mvs_sockets(2))

lemma mvs_open_association:
  assumes m: "mvs X a fw" and ok: "fwd_ok a" and b: "\<not> fw_proxy_broken a"
    and new: "map_of (fw_socks_udp fw) (udp_key_of dgram) = None"
  shows "mvs X a (open_association X p dgram target now fw)"
proof -
  obtain c fw1 where c: "connect_socks_ctrl X fw = (c, fw1)" by force
  have d1: "dialled X fw (map_option snd c) fw1"
    by (rule connect_socks_ctrl_dialled[OF c]) (simp add: guards_along[OF m] b)
  note m1 = dialled_mvs[OF d1 m]
  show ?thesis
  proof (cases c)
    case None
    then show ?thesis using c m1 by (auto simp: open_association_def Let_def)
  next
    case (Some ct)
    obtain ctrl tc where ct: "ct = (ctrl, tc)" by force
    obtain r fw2 where r: "new_relay_socket X fw1 = (r, fw2)" by force
    note d2 = new_relay_socket_dialled[OF r]
    note m2 = dialled_mvs[OF d2 m1]
    show ?thesis
    proof (cases r)
      case None
      then show ?thesis using c r Some ct m2 by (auto simp: open_association_def Let_def)
    next
      case (Some rt)
      obtain relay tr where rt: "rt = (relay, tr)" by force
      have d1': "dialled X fw (Some tc) fw1" using d1 \<open>c = Some ct\<close> ct by simp
      have d2': "dialled X fw1 (Some tr) fw2" using d2 Some rt by simp
      note f1 = dialled_fresh[OF d1' fwd_okD(1)[OF mvs_fwd_ok[OF m ok]]]
      note f2 = dialled_fresh[OF d2' fwd_okD(1)[OF mvs_fwd_ok[OF m1 ok]]]
      let ?fw = "bump st_udp_new_update fw2"
      let ?s = "\<lparr>ss_ctrl = ctrl, ss_ctrl_token = tc, ss_ctrl_connecting = True,
                  ss_handshake = Some (hs_udp_associate p), ss_hs_out = [], ss_relay = relay,
                  ss_relay_token = tr, ss_app = ud_src dgram, ss_reply_src = ud_dst dgram,
                  ss_target = target, ss_pending = [ud_payload dgram], ss_ready = False, ss_last_used_ms = now\<rparr>"
      have "mv X ?fw (?fw\<lparr>fw_routes := AList.update (ss_relay_token ?s) (Route_SocksRelay (udp_key_of dgram))
              (AList.update (ss_ctrl_token ?s) (Route_SocksCtrl (udp_key_of dgram)) (fw_routes ?fw)),
            fw_socks_udp := AList.update (udp_key_of dgram) ?s (fw_socks_udp ?fw)\<rparr>)"
        using new f1 f2 dialled_same[OF d1'] dialled_same[OF d2']
        by (intro mv_socks_new) (simp_all add: bump_def udp_key_of_def SOCKS_UDP_PENDING_CAP_def)
      from mvs_step[OF mvs_book(2)[OF m2] this] show ?thesis
        using c r \<open>c = Some ct\<close> ct Some rt by (simp add: open_association_def bump_def Let_def)
    qed
  qed
qed

lemma mvs_forward_udp_socks:
  assumes m: "mvs X a fw" and ok: "fwd_ok a" and b: "\<not> fw_proxy_broken a"
  shows "mvs X a (forward_udp_socks X dgram target fw)"
proof -
  have "mvs X a (snd (now_ms X fw))" using m by (rule mvs_now)
  then show ?thesis
    by (auto simp: forward_udp_socks_def case_prod_unfold Let_def
        intro!: mvs_reuse_association mvs_open_association[OF _ ok b] split: option.split)
qed

lemma mvs_send_pending: "mvs X a fw \<Longrightarrow> mvs X a (send_pending relay target ps fw)"
  by (induction ps arbitrary: fw) (simp_all add: mvs_sockets(2))

lemma mvs_relay_ready:
  assumes m: "mvs X a fw" and p: "fw_proxy a \<noteq> None"
  shows "mvs X a (relay_ready X key relay_addr fw)"
proof (cases "map_of (fw_socks_udp fw) key")
  case None
  then show ?thesis using m by (simp add: relay_ready_def)
next
  case (Some s)
  let ?fw = "emit (E_Relay_Connect (ss_relay s) relay_addr) fw"
  obtain k fw1 where k: "ask (sy_ok X) ?fw = (k, fw1)" by force
  have "mvs X a ?fw" using p by (intro mvs_step[OF m mv_dial_relay]) (simp add: guards_along[OF m])
  then have m1: "mvs X a fw1" using mvs_ask[of X a ?fw "sy_ok X"] k by simp
  have "map_of (fw_socks_udp fw1) key = Some s" using k Some by (auto simp: ask_def emit_def)
  from mvs_socks_put[OF m1 this, of "s\<lparr>ss_handshake := None, ss_ready := True, ss_pending := []\<rparr>"]
  have "mvs X a (fw1\<lparr>fw_socks_udp := AList.update key (s\<lparr>ss_handshake := None, ss_ready := True, ss_pending := []\<rparr>) (fw_socks_udp fw1)\<rparr>)"
    by (simp add: same_association_def)
  from mvs_book(2)[OF mvs_send_pending[OF this]] mvs_teardown_socks[OF m1] show ?thesis
    using k Some by (simp add: relay_ready_def)
qed

lemma mvs_associate_ready: "mvs X a fw \<Longrightarrow> mvs X a (socks_associate_ready X key bound fw)"
  by (auto simp: socks_associate_ready_def guards_along intro!: mvs_relay_ready split: option.split)

lemma mvs_unsupported: "mvs X a fw \<Longrightarrow> mvs X a (fw\<lparr>fw_socks_udp_unsupported := True\<rparr>)"
  by (rule mvs_step[OF _ mv_unsupported])

lemma mvs_pump_ctrl:
  assumes m: "mvs X a fw"
  shows "mvs X a (pump_ctrl X key fw)"
proof (cases "\<exists>s hs. map_of (fw_socks_udp fw) key = Some s \<and> ss_handshake s = Some hs")
  case False
  then show ?thesis using m by (auto simp: pump_ctrl_def split: option.split)
next
  case True
  then obtain s hs where s: "map_of (fw_socks_udp fw) key = Some s" "ss_handshake s = Some hs" by blast
  obtain r fw1 where p: "pump_ctrl_handshake X (ss_ctrl s) hs (ss_hs_out s) fw = (r, fw1)" by force
  have io: "io_frame fw fw1" and np: "r \<noteq> Ctrl_Panic" using io_frame_pump_ctrl[OF p] by auto
  have m1: "mvs X a fw1" by (rule io_frame_mvs[OF io m])
  have s1: "map_of (fw_socks_udp fw1) key = Some s" using s io_frame_same[OF io] by simp
  have "mvs X a (fw1\<lparr>fw_socks_udp := AList.update key (s\<lparr>ss_handshake := Some hs', ss_hs_out := rest\<rparr>) (fw_socks_udp fw1)\<rparr>)" for hs' rest
    by (rule mvs_socks_put[OF m1 s1]) (simp add: same_association_def)
  then show ?thesis
    using s p np mvs_teardown_socks[OF mvs_unsupported[OF m1]] mvs_associate_ready[OF m1]
    by (cases r) (simp_all add: pump_ctrl_def)
qed

lemma mvs_drive_socks_ctrl [intro!]:
  assumes m: "mvs X a fw"
  shows "mvs X a (drive_socks_ctrl X key fw)"
proof (cases "map_of (fw_socks_udp fw) key")
  case None
  then show ?thesis using m by (simp add: drive_socks_ctrl_def)
next
  case (Some s)
  obtain e fw1 where e: "take_error X fw = (e, fw1)" by force
  then have m1: "mvs X a fw1" and s1: "map_of (fw_socks_udp fw1) key = Some s"
    using m Some by (auto simp: take_error_def ask_def)
  have "mvs X a (fw1\<lparr>fw_socks_udp := AList.update key (s\<lparr>ss_ctrl_connecting := False\<rparr>) (fw_socks_udp fw1)\<rparr>)"
    by (rule mvs_socks_put[OF m1 s1]) (simp add: same_association_def)
  then show ?thesis using Some e m by (auto simp: drive_socks_ctrl_def Let_def mvs_pump_ctrl)
qed

lemma decapsulate_never_panics: "socks5_udp_decapsulate d \<noteq> None"
proof (cases "length d < 4 \<or> d ! 2 \<noteq> 0")
  case False
  then show ?thesis
    by (auto simp: socks5_udp_decapsulate_def index_def slice_def)
qed (auto simp: socks5_udp_decapsulate_def)

lemma mvs_relay_replies: "mvs X a fw \<Longrightarrow> mvs X a (relay_replies X key reply_src app ds fw)"
proof (induction ds arbitrary: fw)
  case (Cons d ds)
  let ?fw1 = "snd (now_ms X fw)"
  have m: "mvs X a ?fw1" using Cons.prems by (rule mvs_now)
  have "mvs X a (?fw1\<lparr>fw_socks_udp := AList.map_entry key (ss_last_used_ms_update (\<lambda>_. fst (now_ms X fw))) (fw_socks_udp ?fw1)\<rparr>)"
    using m mvs_socks_put[OF m] by (auto simp: map_entry_update same_association_def simp del: now_same split: option.split)
  moreover obtain r where "socks5_udp_decapsulate d = Some r" using decapsulate_never_panics by blast
  ultimately show ?case
    by (cases r) (auto simp: case_prod_unfold Let_def mvs_book intro!: Cons.IH)
qed simp

lemma mvs_pump_socks_relay [intro!]: "mvs X a fw \<Longrightarrow> mvs X a (pump_socks_relay X key fw)"
  by (auto simp: pump_socks_relay_def case_prod_unfold Let_def intro!: mvs_relay_replies split: option.split)

lemma mvs_reap_socks [intro!]:
  assumes "mvs X a fw"
  shows "mvs X a (reap_socks now fw)" "mvs X a (reap_associations now fw)"
  unfolding reap_socks_def reap_associations_def
  by (rule mvs_fold[OF _ assms], auto simp: give_up_association_def intro: mvs_unsupported)+

subsection \<open>DNS jobs\<close>

lemma mvs_teardown_dns [intro!]:
  assumes m: "mvs X a fw"
  shows "mvs X a (teardown_dns_tcp t fw)" "mvs X a (teardown_dns_tls t fw)"
proof -
  have "mvs X a (teardown_dns_tcp t fw)" if "map_of (fw_dns_tcp fw) t = Some j" for j
    using mvs_step[OF mvs_sockets(1)[OF m] mv_dtcp_drop[of "deregister (io_sock (dj_io j)) fw" t j]] that
    by (simp add: teardown_dns_tcp_def)
  then show "mvs X a (teardown_dns_tcp t fw)" using m
    by (cases "map_of (fw_dns_tcp fw) t") (auto simp: teardown_dns_tcp_def)
  have "mvs X a (teardown_dns_tls t fw)" if "map_of (fw_dns_tls fw) t = Some j" for j
    using mvs_step[OF mvs_sockets(1)[OF m] mv_dtls_drop[of "deregister (io_sock (tj_io j)) fw" t j]] that
    by (simp add: teardown_dns_tls_def)
  then show "mvs X a (teardown_dns_tls t fw)" using m
    by (cases "map_of (fw_dns_tls fw) t") (auto simp: teardown_dns_tls_def)
qed

lemma mvs_reap_dns [intro!]:
  assumes "mvs X a fw"
  shows "mvs X a (reap_dns_tcp now fw)" "mvs X a (reap_dns_tls now fw)"
  unfolding reap_dns_tcp_def reap_dns_tls_def by (rule mvs_fold[OF _ assms], rule mvs_teardown_dns, assumption)+

lemma mvs_put_dns_tcp: "mvs X a fw \<Longrightarrow> map_of (fw_dns_tcp fw) t = Some j \<Longrightarrow> mvs X a (put_dns_tcp t j' fw)"
  by (rule mvs_step[OF _ mv_dtcp_upd])

lemma mvs_put_dns_tls: "mvs X a fw \<Longrightarrow> map_of (fw_dns_tls fw) t = Some j \<Longrightarrow> mvs X a (put_dns_tls t j' fw)"
  by (rule mvs_step[OF _ mv_dtls_upd])

lemma mvs_answer_dns_tcp: "mvs X a fw \<Longrightarrow> mvs X a (answer_dns_tcp X t eof fw)"
  by (auto simp: answer_dns_tcp_def split: option.split)

lemma mvs_answer_dns_tls: "mvs X a fw \<Longrightarrow> mvs X a (answer_dns_tls X t eof fw)"
  by (auto simp: answer_dns_tls_def split: option.split)

lemma read_all_same: "read_all X fw = (r, fw') \<Longrightarrow> io_frame fw fw'"
  by (auto simp: read_all_def dest: io_frame_ask)

lemma mvs_exchange_dns_tcp:
  assumes m: "mvs X a fw"
  shows "mvs X a (exchange_dns_tcp X t fw)"
proof (cases "map_of (fw_dns_tcp fw) t")
  case None
  then show ?thesis using m by (simp add: exchange_dns_tcp_def)
next
  case (Some j)
  have after: "mvs X a (teardown_dns_tcp t fw1)" "mvs X a (answer_dns_tcp X t eof (put_dns_tcp t j1 fw1))"
    "mvs X a (answer_dns_tcp X t eof (put_dns_tcp t j1 fw2))"
    if io: "io_frame fw fw1" and r: "read_all X fw1 = (input, fw2)" for fw1 fw2 input eof j1
  proof -
    have m1: "mvs X a fw1" by (rule io_frame_mvs[OF io m])
    have j: "map_of (fw_dns_tcp fw1) t = Some j" using Some io_frame_same[OF io] by simp
    note io2 = read_all_same[OF r]
    have "map_of (fw_dns_tcp fw2) t = Some j" using j io_frame_same[OF io2] by simp
    from mvs_answer_dns_tcp[OF mvs_put_dns_tcp[OF io_frame_mvs[OF io2 m1] this]]
      mvs_answer_dns_tcp[OF mvs_put_dns_tcp[OF m1 j]] mvs_teardown_dns(1)[OF m1]
    show "mvs X a (teardown_dns_tcp t fw1)" "mvs X a (answer_dns_tcp X t eof (put_dns_tcp t j1 fw1))"
      "mvs X a (answer_dns_tcp X t eof (put_dns_tcp t j1 fw2))" by (simp_all only:)
  qed
  obtain ok rest fw1 where f: "flush_io X (dj_io j) (dj_to_send j) fw = ((ok, rest), fw1)" by (metis prod.collapse)
  obtain i0 e0 w0 where r0: "read_all X fw = ((i0, e0), w0)" by (metis prod.collapse)
  obtain i1 e1 w1 where r1: "read_all X fw1 = ((i1, e1), w1)" by (metis prod.collapse)
  from after[OF io_frame_refl r0] after[OF io_frame_flush_io[OF f] r1] f Some r0 r1 show ?thesis
    by (simp add: exchange_dns_tcp_def Let_def)
qed

lemma mvs_tunnel_dns_tcp:
  assumes m: "mvs X a fw"
  shows "mvs X a (tunnel_dns_tcp X t fw)"
proof (cases "\<exists>j hs. map_of (fw_dns_tcp fw) t = Some j \<and> dj_handshake j = Some hs")
  case False
  then show ?thesis using m by (auto simp: tunnel_dns_tcp_def mvs_exchange_dns_tcp split: option.split)
next
  case True
  then obtain j hs where j: "map_of (fw_dns_tcp fw) t = Some j" "dj_handshake j = Some hs" by blast
  obtain r fw1 where p: "pump_handshake_io X (dj_io j) hs (dj_hs_out j) fw = (r, fw1)" by force
  have io: "io_frame fw fw1" and np: "r \<noteq> Hp_Panic" using io_frame_pump_io[OF p] by auto
  have m1: "mvs X a fw1" by (rule io_frame_mvs[OF io m])
  have "map_of (fw_dns_tcp fw1) t = Some j" using j io_frame_same[OF io] by simp
  note put = mvs_put_dns_tcp[OF m1 this]
  show ?thesis
    using j p np put mvs_exchange_dns_tcp[OF put] mvs_teardown_dns(1)[OF m1]
    by (cases r) (simp_all add: tunnel_dns_tcp_def)
qed

lemma mvs_drive_dns_tcp [intro!]:
  assumes m: "mvs X a fw"
  shows "mvs X a (drive_dns_tcp X t fw)"
proof (cases "map_of (fw_dns_tcp fw) t")
  case None
  then show ?thesis using m by (simp add: drive_dns_tcp_def)
next
  case (Some j)
  obtain e fw1 where e: "take_error X fw = (e, fw1)" by force
  then have m1: "mvs X a fw1" and j1: "map_of (fw_dns_tcp fw1) t = Some j"
    using m Some by (auto simp: take_error_def ask_def)
  from mvs_put_dns_tcp[OF m1 j1] show ?thesis
    using Some e m by (auto simp: drive_dns_tcp_def Let_def mvs_tunnel_dns_tcp)
qed

lemma mvs_exchange_dns_tls:
  assumes m: "mvs X a fw"
  shows "mvs X a (exchange_dns_tls X t fw)"
proof (cases "map_of (fw_dns_tls fw) t")
  case None
  then show ?thesis using m by (simp add: exchange_dns_tls_def)
next
  case (Some j)
  have after: "mvs X a (teardown_dns_tls t fw1)" "mvs X a (answer_dns_tls X t eof (put_dns_tls t j1 fw1))"
    "mvs X a (answer_dns_tls X t eof (put_dns_tls t j1 fw2))"
    if io: "io_frame fw fw1" and r: "read_all X fw1 = (input, fw2)" for fw1 fw2 input eof j1
  proof -
    have m1: "mvs X a fw1" by (rule io_frame_mvs[OF io m])
    have j: "map_of (fw_dns_tls fw1) t = Some j" using Some io_frame_same[OF io] by simp
    note io2 = read_all_same[OF r]
    have "map_of (fw_dns_tls fw2) t = Some j" using j io_frame_same[OF io2] by simp
    from mvs_answer_dns_tls[OF mvs_put_dns_tls[OF io_frame_mvs[OF io2 m1] this]]
      mvs_answer_dns_tls[OF mvs_put_dns_tls[OF m1 j]] mvs_teardown_dns(2)[OF m1]
    show "mvs X a (teardown_dns_tls t fw1)" "mvs X a (answer_dns_tls X t eof (put_dns_tls t j1 fw1))"
      "mvs X a (answer_dns_tls X t eof (put_dns_tls t j1 fw2))" by (simp_all only:)
  qed
  obtain busy fw0 where h: "tls_handshaking X (tj_io j) fw = (busy, fw0)" by force
  then have io0: "io_frame fw fw0"
    by (auto simp: tls_handshaking_def dest: io_frame_ask split: upstream_io.splits)
  obtain ok rest fw1 where f: "flush_io X (tj_io j) (tj_to_send j) fw0 = ((ok, rest), fw1)" by (metis prod.collapse)
  obtain i0 e0 w0 where r0: "read_all X fw0 = ((i0, e0), w0)" by (metis prod.collapse)
  obtain i1 e1 w1 where r1: "read_all X fw1 = ((i1, e1), w1)" by (metis prod.collapse)
  from after[OF io0 r0] after[OF io_frame_trans[OF io0 io_frame_flush_io[OF f]] r1] f h Some r0 r1 show ?thesis
    by (simp add: exchange_dns_tls_def Let_def)
qed

lemma mvs_drive_dns_tls [intro!]:
  assumes m: "mvs X a fw"
  shows "mvs X a (drive_dns_tls X t fw)"
proof -
  have secure: "mvs X a (secure_dns_tls X t fw)" if m: "mvs X a fw" for fw
  proof (cases "map_of (fw_dns_tls fw) t")
    case None
    then show ?thesis using m by (simp add: secure_dns_tls_def)
  next
    case (Some j)
    obtain tls fw1 where f: "finish_tls X (tj_io j) fw = (tls, fw1)" by force
    have m1: "mvs X a fw1" by (rule io_frame_mvs[OF io_frame_finish_tls[OF f] m])
    then show ?thesis using Some f
      by (auto simp: secure_dns_tls_def mvs_exchange_dns_tls split: option.split bool.split)
  qed
  show ?thesis
  proof (cases "map_of (fw_dns_tls fw) t")
    case None
    then show ?thesis using m by (simp add: drive_dns_tls_def)
  next
    case (Some j)
    obtain e fw1 where e: "take_error X fw = (e, fw1)" by force
    then have m1: "mvs X a fw1" and j1: "map_of (fw_dns_tls fw1) t = Some j"
      using m Some by (auto simp: take_error_def ask_def)
    from mvs_put_dns_tls[OF m1 j1] show ?thesis
      using Some e m secure by (auto simp: drive_dns_tls_def Let_def)
  qed
qed

subsection \<open>New jobs\<close>

lemma mvs_forward_dns_over_proxy:
  assumes m: "mvs X a fw" and ok: "fwd_ok a" and b: "\<not> fw_proxy_broken a"
  shows "mvs X a (forward_dns_over_proxy X dgram upstream fw)"
proof (cases "(length (fw_dns_tcp fw) \<ge> DNS_TCP_MAX_JOBS \<or> length (ud_payload dgram) > 65535) \<or> fw_proxy fw = None")
  case True
  then show ?thesis using m by (auto simp: forward_dns_over_proxy_def)
next
  case False
  then obtain p where p: "fw_proxy fw = Some p" by auto
  obtain c fw1 where c: "connect_tcp X upstream fw = (c, fw1)" by force
  have "tcp_dial_ok fw (dial_addr fw upstream)"
    using b p by (simp add: tcp_dial_ok_def dial_addr_def guards_along[OF m])
  note d = connect_tcp_dialled[OF c this]
  note m1 = dialled_mvs[OF d m]
  show ?thesis
  proof (cases c)
    case None
    then show ?thesis using False p c m1 by (auto simp: forward_dns_over_proxy_def)
  next
    case (Some iot)
    obtain io t where iot: "iot = (io, t)" by force
    have d': "dialled X fw (Some t) fw1" using d Some iot by simp
    note f = dialled_fresh[OF d' fwd_okD(1)[OF mvs_fwd_ok[OF m ok]]]
    obtain now where now: "now_ms X (fw1\<lparr>fw_routes := AList.update t Route_DnsTcp (fw_routes fw1)\<rparr>)
        = (now, (tick fw1)\<lparr>fw_routes := AList.update t Route_DnsTcp (fw_routes fw1)\<rparr>)"
      by (simp add: now_ms_def ask_def tick_def)
    have "mv X (tick fw1) (put_dns_tcp t j ((tick fw1)\<lparr>fw_routes := AList.update t Route_DnsTcp (fw_routes (tick fw1))\<rparr>))" for j
      using f False by (intro mv_dtcp_new) (simp_all add: dialled_same[OF d])
    note new = mvs_step[OF mvs_book(1)[OF m1] this]
    show ?thesis using new False p c Some iot now by (simp add: forward_dns_over_proxy_def)
  qed
qed

lemma mvs_forward_dns_tls:
  assumes m: "mvs X a fw" and ok: "fwd_ok a" and d: "tcp_dial_ok a dial"
  shows "mvs X a (forward_dns_tls X dgram dial fw)"
proof (cases "(length (fw_dns_tls fw) \<ge> DNS_TLS_MAX_JOBS \<or> length (ud_payload dgram) > 65535)
    \<or> mode_of (fw_dns_transport fw) = None \<or> fw_dns_host fw = None")
  case True
  then show ?thesis using m by (auto simp: forward_dns_tls_def split: option.split)
next
  case False
  then obtain mode host where p: "mode_of (fw_dns_transport fw) = Some mode" "fw_dns_host fw = Some host" by auto
  obtain c fw1 where c: "connect_dns_tls X dial fw = (c, fw1)" by force
  have "tcp_dial_ok fw dial" using d by (simp add: guards_along[OF m])
  note d = connect_dns_tls_dialled[OF c this]
  note m1 = dialled_mvs[OF d m]
  show ?thesis
  proof (cases c)
    case None
    then show ?thesis using False p c m1 by (auto simp: forward_dns_tls_def)
  next
    case (Some iot)
    obtain io t where iot: "iot = (io, t)" by force
    have d': "dialled X fw (Some t) fw1" using d Some iot by simp
    note f = dialled_fresh[OF d' fwd_okD(1)[OF mvs_fwd_ok[OF m ok]]]
    obtain now where now: "now_ms X (fw1\<lparr>fw_routes := AList.update t Route_DnsTls (fw_routes fw1)\<rparr>)
        = (now, (tick fw1)\<lparr>fw_routes := AList.update t Route_DnsTls (fw_routes fw1)\<rparr>)"
      by (simp add: now_ms_def ask_def tick_def)
    have "mv X (tick fw1) (put_dns_tls t j ((tick fw1)\<lparr>fw_routes := AList.update t Route_DnsTls (fw_routes (tick fw1))\<rparr>))" for j
      using f False by (intro mv_dtls_new) (simp_all add: dialled_same[OF d])
    note new = mvs_step[OF mvs_book(1)[OF m1] this]
    show ?thesis using new False p c Some iot now by (simp add: forward_dns_tls_def Let_def)
  qed
qed

end
