(* ===== verification/Fw_Refine_Run.thy ===== *)
theory Fw_Refine_Run
  imports Fw_Refine_Jobs
begin

section \<open>Every operation is a run of moves\<close>

text \<open>
  Packets, service passes and readiness events as sequences of moves, from any state that satisfies
  the invariant; the operations that change a setting are the only ones that are not.
\<close>

subsection \<open>Opening flows\<close>

lemma new_flow_fresh:
  assumes "on_tcp_packet W S p ns = (Some (fid, server), ns')"
  shows "fid = ns_next_id ns" "fid \<in> dom (map_of (ns_flows ns'))"
  using assms
  by (auto simp: on_tcp_packet_def create_flow_def ns_push_def update_conv' Let_def
      split: option.splits if_splits prod.splits)

lemma new_splice_same:
  assumes "new_splice X kind fw = (r, fw')"
  shows "tables fw' = tables fw \<and> fw_next_token fw' = fw_next_token fw"
  using assms by (auto simp: new_splice_def ask_def tick_def bump_def tables_def split: if_splits option.splits)

lemma new_mitm_moves:
  assumes "new_mitm_if_intercepting X server uid fw = (r, fw')" and "mvs X a fw"
  shows "mvs X a fw'" "tables fw' = tables fw"
  using assms
  by (auto simp: new_mitm_if_intercepting_def split: if_splits dest: mvs_new_splice new_splice_same)

lemma tick_routes: "tick (fw\<lparr>fw_routes := r\<rparr>) = (tick fw)\<lparr>fw_routes := r\<rparr>"
  by (rule forwarder.equality) (simp_all add: tick_def)

lemma mvs_insert_flow:
  assumes m: "mvs X a fw" and new: "map_of (fw_tcp fw) fid = None" and f: "fid \<in> dom (map_of (ns_flows (fw_stack fw)))"
    and t: "map_of (fw_routes fw) t = None" "t < fw_next_token fw"
    and guard: "fw_encrypted_dns_mode fw = Enc_Filter \<longrightarrow> sa_port server = DOT_PORT \<longrightarrow> mitm \<noteq> None"
      "fw_encrypted_dns_mode fw = Enc_Filter \<longrightarrow> sa_port server = HTTPS_PORT \<longrightarrow> cls = PendingSni []"
  shows "mvs X a (insert_flow X fid server uid mitm cls io t fw)"
proof -
  let ?fw = "tick (bump st_tcp_new_update fw)"
  have "mv X ?fw (put_tcp fid up (?fw\<lparr>fw_routes := AList.update (up_token up) (Route_Tcp fid) (fw_routes ?fw)\<rparr>))"
    if "up_token up = t" "up_server up = server" "up_mitm up = mitm" "up_classify up = cls" for up
    using assms(2-) that by (intro mv_tcp_new) (auto simp: tick_def bump_def new_flow_ok_def pending_sni_def)
  then have step: "mvs X a (put_tcp fid up ((tick (bump st_tcp_new_update fw))
      \<lparr>fw_routes := AList.update t (Route_Tcp fid) (fw_routes (bump st_tcp_new_update fw))\<rparr>))"
    if "up_token up = t" "up_server up = server" "up_mitm up = mitm" "up_classify up = cls" for up
    using mvs_step[OF mvs_book(1)[OF mvs_book(2)[OF m, of st_tcp_new_update]]] that by (fastforce simp: tick_def bump_def)
  show ?thesis
    by (auto simp: insert_flow_def Let_def now_ms_def ask_def tick_routes intro!: step)
qed

lemma mvs_open_tcp:
  assumes m: "mvs X a fw" and ok: "fwd_ok a" and b: "\<not> fw_proxy_broken a"
    and new: "map_of (fw_tcp fw) fid = None" and f: "fid \<in> dom (map_of (ns_flows (fw_stack fw)))"
  shows "mvs X a (open_tcp X fid server uid fw)"
proof -
  let ?defer = "fw_encrypted_dns_mode fw = Enc_Filter \<and> sa_port server = HTTPS_PORT"
  obtain mitm fw1 where s: "(if ?defer then (None, fw) else new_mitm_if_intercepting X server uid fw) = (mitm, fw1)" by force
  have m1: "mvs X a fw1" and t1: "tables fw1 = tables fw"
    using s m new_mitm_moves by (metis prod.inject)+
  have mode: "fw_encrypted_dns_mode fw1 = fw_encrypted_dns_mode fw"
    using mvs_settings[OF m1] mvs_settings[OF m] by (simp add: settings_def)
  obtain c fw2 where c: "connect_tcp X server fw1 = (c, fw2)" by force
  have "tcp_dial_ok fw1 (dial_addr fw1 server)"
    using b by (simp add: tcp_dial_ok_def dial_addr_def guards_along[OF m1] split: option.split)
  note d = connect_tcp_dialled[OF c this]
  note m2 = dialled_mvs[OF d m1]
  have mode2: "fw_encrypted_dns_mode fw2 = fw_encrypted_dns_mode fw"
    using mvs_settings[OF m2] mvs_settings[OF m] by (simp add: settings_def)
  show ?thesis
  proof (cases "\<not> ?defer \<and> mitm = None \<and> requires_enc_dns_intercept fw1 server")
    case True
    then show ?thesis using s mvs_stack_calls(1)[OF m1] by (simp add: open_tcp_def Let_def)
  next
    case False
    show ?thesis
    proof (cases c)
      case None
      then show ?thesis using s False c mvs_stack_calls(1)[OF mvs_book(2)[OF m2]]
        by (auto simp: open_tcp_def Let_def)
    next
      case (Some iot)
      obtain io t where iot: "iot = (io, t)" by force
      have d': "dialled X fw1 (Some t) fw2" using d Some iot by simp
      note fr = dialled_fresh[OF d' fwd_okD(1)[OF mvs_fwd_ok[OF m1 ok]]]
      have "mvs X a (insert_flow X fid server uid mitm (if ?defer then PendingSni [] else Settled) io t fw2)"
        by (rule mvs_insert_flow[OF m2])
          (use new f fr t1 False mode mode2 in \<open>auto simp: dialled_same[OF d] tables_def requires_enc_dns_intercept_def DOT_PORT_def HTTPS_PORT_def\<close>)
      then show ?thesis using s False c Some iot by (auto simp: open_tcp_def Let_def)
    qed
  qed
qed

subsection \<open>Packets\<close>

lemma policy_bump [simp]: "policy_blocks (bump f fw) = policy_blocks fw"
  by (rule policy_same) (simp_all add: bump_def)

lemma mvs_verdict:
  assumes m: "mvs X a fw" and v: "verdict_for X d proto fw = (v, fw')"
  shows "mvs X a fw'" "settings fw' = settings fw" "tables fw' = tables fw"
proof -
  have look: "mvs X a (fw\<lparr>fw_verdicts := snd (ft_get k (fw_verdicts fw))\<rparr>)" for k
    by (rule mvs_step[OF m mv_lookup])
  have dec: "mvs X a (fw1\<lparr>fw_verdicts := ft_insert k v (fw_verdicts fw1)\<rparr>)"
    if "mvs X a fw1" "vd_blocked v = policy_blocks fw1 (vd_uid v)" for fw1 v k
    by (rule mvs_step[OF that(1) mv_decide[OF that(2)]])
  show "mvs X a fw'"
    using v m look by (auto simp: verdict_for_def Let_def case_prod_unfold
        intro!: dec mvs_book(2) mvs_ask split: if_splits option.splits)
  show "settings fw' = settings fw" "tables fw' = tables fw"
    using v by (auto simp: verdict_for_def Let_def case_prod_unfold view_defs bump_def ask_def tick_def
        split: if_splits option.splits)
qed

lemma mvs_report [intro!]: "mvs X a fw \<Longrightarrow> mvs X a (report_flow X d uid proto is_dns domain fw)"
  by (auto simp: report_flow_def)

lemma mvs_refuse [intro!]: "mvs X a fw \<Longrightarrow> mvs X a (refuse_tcp X packet d uid fw)"
  by (auto simp: refuse_tcp_def)

lemma report_same [simp]: "settings (report_flow X d uid proto is_dns domain fw) = settings fw"
  "tables (report_flow X d uid proto is_dns domain fw) = tables fw"
  by (auto simp: report_flow_def view_defs coarse_add_def push_event_def ask_def tick_def Let_def split: option.split)

lemma nxdomain_never_panics:
  "parse_query query = Some (Some q) \<Longrightarrow> \<exists>resp. synthesize_nxdomain query q = Some resp"
  using build_response_answers[of query q 3 "[]" 0] by (auto simp: synthesize_nxdomain_def)

lemma handle_dns_outcome:
  assumes h: "handle_dns X d dgram fw = (outcome, fw')" and m: "mvs X a fw"
  shows "mvs X a fw'" "settings fw' = settings fw" "tables fw' = tables fw" "outcome \<noteq> Dns_Panic"
proof -
  obtain r where r: "parse_query (ud_payload dgram) = Some r" using parse_query_never_panics by blast
  have "mvs X a fw' \<and> settings fw' = settings fw \<and> tables fw' = tables fw \<and> outcome \<noteq> Dns_Panic"
  proof (cases "\<exists>q. r = Some q \<and> engine_blocks fw (q_name q)")
    case False
    then show ?thesis using h m r by (cases r) (auto simp: handle_dns_def)
  next
    case True
    then obtain q where q: "r = Some q" "engine_blocks fw (q_name q)" by blast
    then obtain resp where "synthesize_nxdomain (ud_payload dgram) q = Some resp"
      using nxdomain_never_panics r by blast
    moreover have "settings (push_event X e (push_out p fw)) = settings fw" "tables (push_event X e (push_out p fw)) = tables fw" for e p
      by (auto simp: view_defs push_event_def push_out_def ask_def tick_def Let_def split: option.split)
    ultimately show ?thesis using h m r q by (auto simp: handle_dns_def)
  qed
  then show "mvs X a fw'" "settings fw' = settings fw" "tables fw' = tables fw" "outcome \<noteq> Dns_Panic" by blast+
qed

lemma mvs_route_dns:
  assumes m: "mvs X a fw" and ok: "fwd_ok a" and b: "\<not> fw_proxy_broken a"
  shows "mvs X a (route_dns X dgram fw)"
proof (cases "fw_proxy fw \<noteq> None \<and> fw_proxy_dns_over_tcp fw")
  case True
  then show ?thesis
    using mvs_forward_udp_socks[OF m ok b] mvs_forward_dns_over_proxy[OF m ok b] by (simp add: route_dns_def Let_def)
next
  case False
  have r: "resolver fw (dns_upstream fw q)" for q using False by (auto simp: resolver_def)
  have br: "\<not> fw_proxy_broken fw" using b by (simp add: guards_along[OF m])
  have "tcp_dial_ok fw (dns_upstream fw (ud_dst dgram))" "udp_dial_ok fw (dns_upstream fw (ud_dst dgram))"
    using r br by (auto simp: tcp_dial_ok_def udp_dial_ok_def split: option.split)
  then have "tcp_dial_ok a (dns_upstream fw (ud_dst dgram))" "udp_dial_ok a (dns_upstream fw (ud_dst dgram))"
    by (simp_all only: guards_along[OF m])
  from mvs_forward_udp[OF m ok this(2)] mvs_forward_dns_tls[OF m ok this(1)] show ?thesis
    using False by (auto simp: route_dns_def Let_def split: dns_transport.split)
qed

lemma mvs_route_datagram:
  assumes m: "mvs X a fw" and ok: "fwd_ok a" and b: "\<not> fw_proxy_broken a" and p: "proxy_udp a \<noteq> Some False"
  shows "mvs X a (route_datagram X dgram fw)"
proof (cases "proxy_udp fw = Some True")
  case True
  then show ?thesis using mvs_forward_udp_socks[OF m ok b] by (simp add: route_datagram_def)
next
  case False
  then have "fw_proxy a = None" using p by (auto simp: proxy_udp_def guards_along[OF m])
  then have "udp_dial_ok a (ud_dst dgram)" using b by (simp add: udp_dial_ok_def)
  from mvs_forward_udp[OF m ok this] False show ?thesis by (simp add: route_datagram_def)
qed

lemma mvs_forward_datagram:
  assumes m: "mvs X a fw" and ok: "fwd_ok a" and b: "\<not> fw_proxy_broken a" and p: "is_dns \<or> proxy_udp a \<noteq> Some False"
  shows "mvs X a (forward_datagram X d uid is_dns dgram fw)"
proof (cases is_dns)
  case True
  obtain outcome fw1 where h: "handle_dns X d dgram fw = (outcome, fw1)" by force
  note o = handle_dns_outcome[OF h m]
  then show ?thesis
    using True h by (cases outcome) (auto simp: forward_datagram_def intro!: mvs_route_dns[OF _ ok b])
next
  case False
  then show ?thesis using p m by (auto simp: forward_datagram_def intro!: mvs_route_datagram[OF _ ok b])
qed

lemma mvs_on_udp:
  assumes m: "mvs X a fw" and ok: "fwd_ok a"
  shows "mvs X a (on_udp X packet d fw)"
proof -
  obtain v fw1 where v: "verdict_for X d IPPROTO_UDP fw = (v, fw1)" by force
  note m1 = mvs_verdict(1)[OF m v]
  have "mvs X a (udp_admitted X packet d (vd_uid v) fw1)"
    if "\<not> fw_proxy_broken fw1" "\<not> (proxy_udp fw1 = Some False \<and> \<not> dns_port (d_dst_port d))"
    using that m1 by (auto simp: udp_admitted_def guards_along[OF m1] proxy_udp_def Let_def
        intro!: mvs_forward_datagram[OF m1 ok] split: option.split)
  then show ?thesis using m m1 v by (auto simp: on_udp_def Let_def)
qed

lemma stack_ok_new_flow:
  assumes "stack_ok fw" and o: "on_tcp_packet W S p (fw_stack fw) = (Some (fid, server), ns)"
  shows "map_of (fw_tcp fw) fid = None"
proof -
  have "fid \<notin> dom (map_of (ns_flows (fw_stack fw)))"
    using assms(1) new_flow_fresh(1)[OF o] by (auto simp: stack_ok_def tables_ok_def)
  then show ?thesis using assms(1) by (auto simp: stack_ok_def)
qed

lemma mvs_on_tcp:
  assumes m: "mvs X a fw" and ok: "fwd_ok a"
  shows "mvs X a (on_tcp X packet d fw)"
proof -
  obtain v fw1 where v: "verdict_for X d IPPROTO_TCP fw = (v, fw1)" by force
  note m1 = mvs_verdict(1)[OF m v]
  have fwd: "mvs X a (forward_tcp_packet X packet d (vd_uid v) fw1)" if b: "\<not> fw_proxy_broken fw1"
  proof -
    let ?fw = "report_flow X d (vd_uid v) L4_Tcp False None fw1"
    obtain r ns where o: "on_tcp_packet (sy_wire X) (sy_smol X) packet (fw_stack ?fw) = (r, ns)" by force
    have m2: "mvs X a ?fw" using m1 by (rule mvs_report)
    have m3: "mvs X a (?fw\<lparr>fw_stack := ns\<rparr>)"
      using o by (intro mvs_stack[OF m2, of "Ns_Packet packet"]) auto
    have "mvs X a (open_tcp X fid server (vd_uid v) (?fw\<lparr>fw_stack := ns\<rparr>))" if "r = Some (fid, server)" for fid server
    proof (rule mvs_open_tcp[OF m3 ok])
      note o' = o[unfolded that]
      show "\<not> fw_proxy_broken a" using b by (simp add: guards_along[OF m1])
      show "map_of (fw_tcp (?fw\<lparr>fw_stack := ns\<rparr>)) fid = None"
        using stack_ok_new_flow[OF fwd_okD(2)[OF mvs_fwd_ok[OF m2 ok]] o'] by simp
      show "fid \<in> dom (map_of (ns_flows (fw_stack (?fw\<lparr>fw_stack := ns\<rparr>))))"
        using new_flow_fresh(2)[OF o'] by simp
    qed
    then show ?thesis using o m3 by (auto simp: forward_tcp_packet_def Let_def split: option.split)
  qed
  then show ?thesis using v m1 by (auto simp: on_tcp_def Let_def)
qed

lemma mvs_on_tun_packet:
  assumes m: "mvs X a fw" and ok: "fwd_ok a"
  shows "mvs X a (on_tun_packet X packet fw)"
proof -
  let ?fw = "tap X packet (bump st_tun_in_update fw)"
  have m1: "mvs X a ?fw" using m by (intro mvs_book)
  obtain r where "decode packet = Some r" using decode_never_panics by blast
  then show ?thesis
    using m1 mvs_on_tcp[OF m1 ok] mvs_on_udp[OF m1 ok]
    by (auto simp: on_tun_packet_def Let_def split: option.split L4.split)
qed

subsection \<open>A service pass\<close>

lemma mvs_unless [intro]: "(\<And>fw. mvs X a fw \<Longrightarrow> mvs X a (f fw)) \<Longrightarrow> mvs X a fw \<Longrightarrow> mvs X a (unless_panic f fw)"
  by (simp add: unless_panic_def)

lemma teardown_removes: "map_of (fw_tcp (teardown_tcp X fid fw)) fid = None"
  by (auto simp: teardown_tcp_def drop_tcp_def delete_conv' Let_def split: option.split)

lemma mvs_close_flow: "mvs X a fw \<Longrightarrow> mvs X a (close_flow X fid fw)"
  unfolding close_flow_def Let_def
  by (rule mvs_stack[where b = "Ns_Remove fid", OF mvs_teardown_tcp]) (auto simp: teardown_removes)

lemma mvs_service_pending: "mvs X a fw \<Longrightarrow> mvs X a (service_pending X fid data fw)"
  unfolding service_pending_def by (rule mvs_unless) (auto simp: Let_def)

lemma mvs_half_close: "mvs X a fw \<Longrightarrow> mvs X a (half_close X fid fw)"
  by (auto simp: half_close_def intro!: mvs_shutdown_put split: option.split)

lemma mvs_relay_app_data: "mvs X a fw \<Longrightarrow> mvs X a (snd (relay_app_data X fid data fw))"
proof -
  assume m: "mvs X a fw"
  have "mvs X a (put_tcp fid (up\<lparr>up_http_forward := Some hf'\<rparr>) fw)" if "map_of (fw_tcp fw) fid = Some up" for up hf'
    by (rule mvs_put_tcp[OF m that]) (simp add: up_alike_def)
  note put = this mvs_flow_updates(3)[OF this] mvs_fail_proxy[OF this]
  have raw: "mvs X a (unless_panic (queue_raw fid data) fw1)" if "mvs X a fw1" for fw1
    using that by (rule mvs_unless[rotated]) (rule mvs_flow_updates)
  show ?thesis
    using m put raw[OF m] raw[OF mvs_observe_sni[OF m]]
    by (auto simp: relay_app_data_def split: option.split prod.split sum.split)
qed

lemma mvs_service_relay: "mvs X a fw \<Longrightarrow> mvs X a (service_relay X fid data fw)"
  using mvs_relay_app_data[of X a fw fid data]
  by (auto simp: service_relay_def case_prod_unfold Let_def intro!: mvs_unless mvs_half_close)

lemma mvs_service_flow: "mvs X a fw \<Longrightarrow> mvs X a (service_flow X fid fw)"
proof -
  assume m: "mvs X a fw"
  have "mvs X a (if flow_pending fid fw' then service_pending X fid data fw' else service_relay X fid data fw')"
    if "take_app_data X fid fw = (data, fw')" for data fw'
    using mvs_stack_calls(4)[OF m, of fid] that by (simp add: mvs_service_pending mvs_service_relay)
  then show ?thesis using m
    by (auto simp: service_flow_def Let_def split: option.split prod.split bool.split)
qed

lemma mvs_reap_all: "mvs X a fw \<Longrightarrow> mvs X a (reap_all X now fw)"
  unfolding reap_all_def reap_proxy_handshakes_def
  by (intro mvs_stack_calls mvs_reap_tcp mvs_reap_socks mvs_reap_dns mvs_reap_udp)

lemma mvs_service:
  assumes m: "mvs X a fw"
  shows "mvs X a (service X fw)"
proof -
  let ?fw = "snd (now_ms X fw)"
  obtain closed ns where p: "ns_poll (sy_smol X) (fst (now_ms X fw)) (fw_stack ?fw) = (closed, ns)" by force
  have m1: "mvs X a (?fw\<lparr>fw_stack := ns\<rparr>)"
    by (rule mvs_stack[OF mvs_now[OF m], of "Ns_Poll (fst (now_ms X fw))"]) (use p in auto)
  have m2: "mvs X a (fold (close_flow X) closed (?fw\<lparr>fw_stack := ns\<rparr>))" by (rule mvs_fold[OF mvs_close_flow m1])
  have "mvs X a (fold (\<lambda>fid. unless_panic (service_flow X fid)) ids fw')" if "mvs X a fw'" for ids fw'
    by (rule mvs_fold[OF mvs_unless that]) (rule mvs_service_flow)
  from mvs_unless[OF mvs_reap_all this[OF m2]] show ?thesis
    using p by (simp add: service_def case_prod_unfold Let_def)
qed

subsection \<open>Readiness\<close>

lemma mvs_tcp_readable: "mvs X a fw \<Longrightarrow> mvs X a (tcp_readable X fid is_mitm fw)"
  unfolding tcp_readable_def by (auto intro!: mvs_unless)

lemma mvs_relay_ready_tcp: "mvs X a fw \<Longrightarrow> mvs X a (tcp_relay_ready X fid r fw)"
  unfolding tcp_relay_ready_def Let_def by (auto intro!: mvs_unless mvs_tcp_readable)

lemma mvs_tcp_connected: "mvs X a fw \<Longrightarrow> mvs X a (snd (tcp_connected X fid fw))"
proof -
  assume m: "mvs X a fw"
  have put: "mvs X a (put_tcp fid (up\<lparr>up_connecting := False\<rparr>) (tick fw))" if "map_of (fw_tcp fw) fid = Some up" for up
    by (rule mvs_put_tcp[OF mvs_book(1)[OF m], where up = up]) (use that in \<open>simp_all add: up_alike_def\<close>)
  show ?thesis
    using m put by (auto simp: tcp_connected_def take_error_def ask_def Let_def split: option.split)
qed

lemma mvs_on_ready_tcp: "mvs X a fw \<Longrightarrow> mvs X a (on_ready_tcp X fid r fw)"
  using mvs_tcp_connected[of X a fw fid]
  by (auto simp: on_ready_tcp_def case_prod_unfold Let_def intro!: mvs_relay_ready_tcp split: option.split)

lemma mvs_on_ready: "mvs X a fw \<Longrightarrow> mvs X a (on_ready X t r fw)"
  by (auto simp: on_ready_def intro!: mvs_on_ready_tcp split: option.split route.split)

subsection \<open>All operations\<close>

fun setting_op :: "fw_op \<Rightarrow> bool" where
  \<comment> \<open>the commands that change a setting\<close>
  "setting_op (Op_LoadEngine path resources) = True"
| "setting_op (Op_DnsMode m) = True"
| "setting_op (Op_DnsUpstream tr ip port host path) = True"
| "setting_op (Op_Firewall rules) = True"
| "setting_op (Op_Transport n) = True"
| "setting_op (Op_LogOpen b) = True"
| "setting_op (Op_Cosmetic x y) = True"
| "setting_op (Op_ProxyDns b) = True"
| "setting_op op = False"

lemma mvs_take_outbox: "mvs X a fw \<Longrightarrow> mvs X a (snd (take_outbox X fw))"
proof -
  assume m: "mvs X a fw"
  have key: "mvs X a (drain_key_log X fw)" if "mvs X a fw" for fw
    using that by (auto simp: drain_key_log_def ask_def Let_def)
  let ?fw = "fw\<lparr>fw_outbox := [], fw_stats := st_out_written_update (\<lambda>n. n + length (fw_outbox fw)) (fw_stats fw)\<rparr>"
  have "mvs X a (drain_key_log X ?fw)" by (rule key) (intro mvs_stats mvs_outbox m)
  then show ?thesis by (simp add: take_outbox_def Let_def mvs_fold mvs_book(6))
qed

lemma mvs_apply:
  assumes "\<not> setting_op op" and m: "mvs X a fw" and ok: "fwd_ok a"
  shows "mvs X a (fw_apply X op fw)"
  using assms
proof (cases op)
  case Op_TakeCoarse
  then show ?thesis using m by (auto simp: take_coarse_def ask_def Let_def)
next
  case Op_Flush
  then show ?thesis using m by (auto simp: flush_batch_def take_coarse_def ask_def case_prod_unfold Let_def)
next
  case Op_PollTimeout
  then show ?thesis using mvs_now[OF m] by (simp add: poll_timeout_ms_def case_prod_unfold Let_def)
qed (auto simp: take_stats_def start_pcap_def stop_pcap_def mvs_on_tun_packet mvs_service mvs_on_ready mvs_take_outbox)

lemma setting_same:
  assumes "setting_op op"
  shows "fw_trace (fw_apply X op fw) = fw_trace fw" "fw_panic (fw_apply X op fw) = fw_panic fw"
    "fw_proxy (fw_apply X op fw) = fw_proxy fw" "fw_proxy_broken (fw_apply X op fw) = fw_proxy_broken fw"
  using assms
  by (cases op; auto simp: load_engine_def set_encrypted_dns_mode_def set_dns_upstream_def set_firewall_def set_transport_def
      set_log_open_def fw_set_cosmetic_def set_proxy_dns_over_tcp_def split: option.split)+

lemma verdicts_ok_fresh: "fw_verdicts fw = ft_new VERDICT_CACHE_CAP \<Longrightarrow> verdicts_ok fw"
proof -
  assume "fw_verdicts fw = ft_new VERDICT_CACHE_CAP"
  moreover have "ftab.all_cached P (ft_new n)" for P :: "flow_key \<Rightarrow> verdict \<Rightarrow> bool" and n
    by (simp add: ftab.all_cached_def ft_view_def ft_view_of_def ft_new_def)
  ultimately show ?thesis by (simp add: verdicts_ok_def ft_inv_new)
qed

lemma fwd_ok_settings:
  assumes "stack_ok fw" "routes_ok fw" "bounds_ok fw" and "verdicts_ok fw'"
    and "fw_stack fw' = fw_stack fw" "fw_tcp fw' = fw_tcp fw" "fw_udp fw' = fw_udp fw" "fw_socks_udp fw' = fw_socks_udp fw"
    "fw_dns_tcp fw' = fw_dns_tcp fw" "fw_dns_tls fw' = fw_dns_tls fw" "fw_routes fw' = fw_routes fw"
    "fw_next_token fw' = fw_next_token fw" "fw_har fw' = fw_har fw" "fw_pinned fw' = fw_pinned fw"
  shows "fwd_ok fw'"
  using assms routes_ok_same[of fw' fw] by (simp add: fwd_ok_def stack_ok_def bounds_ok_def)

lemma setting_keeps_ok:
  assumes s: "setting_op op" and ok: "fwd_ok fw"
  shows "fwd_ok (fw_apply X op fw)"
proof -
  have "verdicts_ok (fw_apply X op fw)"
    using s fwd_okD(4)[OF ok]
    by (cases op) (auto simp: load_engine_def set_encrypted_dns_mode_def set_dns_upstream_def set_firewall_def
        set_transport_def set_log_open_def fw_set_cosmetic_def set_proxy_dns_over_tcp_def
        intro: verdicts_ok_fresh verdicts_ok_same[of _ fw] split: option.split)
  then show ?thesis
    by (rule fwd_ok_settings[OF fwd_okD(2,1,3)[OF ok]])
      (use s in \<open>cases op; auto simp: load_engine_def set_encrypted_dns_mode_def set_dns_upstream_def set_firewall_def
        set_transport_def set_log_open_def fw_set_cosmetic_def set_proxy_dns_over_tcp_def split: option.split\<close>)+
qed

lemma fwd_ok_new: "fwd_ok (fw_new X cfg)"
  by (auto simp: fwd_ok_def fw_new_def stack_ok_def routes_ok_def bounds_ok_def owns_def case_prod_unfold Let_def
      intro: verdicts_ok_fresh split: route.split) (simp add: ns_new_def)

lemma fwd_ok_apply: "fwd_ok fw \<Longrightarrow> fwd_ok (fw_apply X op fw)"
  using setting_keeps_ok mvs_fwd_ok[OF mvs_apply] by blast

lemma fwd_ok_run: "fwd_ok fw \<Longrightarrow> fwd_ok (fw_run X ops fw)"
  unfolding fw_run_def by (induction ops arbitrary: fw) (auto simp: unless_panic_def fwd_ok_apply)

end
