(* ===== verification/Fw_Demo.thy ===== *)
theory Fw_Demo
  imports Fw_Service
begin

section \<open>A concrete environment\<close>

text \<open>
  One environment the witnesses run the forwarder in: an operating system in which every call succeeds
  and nothing arrives, a wire that reads IPv4 headers at their fixed offsets, a TCP stack that only
  hands out sockets, and a TLS splice that stays idle.
\<close>

definition demo_ip :: "bytes \<Rightarrow> ip_addr" where
  "demo_ip b = (case b of b0 # b1 # b2 # b3 # _ \<Rightarrow> V4 b0 b1 b2 b3 | _ \<Rightarrow> V4 0 0 0 0)"

definition demo_u16 :: "bytes \<Rightarrow> u16" where
  "demo_u16 b = (case b of hi # lo # _ \<Rightarrow> be16w hi lo | _ \<Rightarrow> 0)"

definition demo_wire :: wire where
  "demo_wire =
     \<lparr>w_ipv4 = (\<lambda>p. if length p < 20 then None
        else Some \<lparr>iv_next = p ! 9, iv_src = demo_ip (drop 12 p), iv_dst = demo_ip (drop 16 p), iv_payload = drop 20 p\<rparr>),
      w_ipv6 = (\<lambda>_. None),
      w_udp = (\<lambda>p. if length p < 8 then None else Some (demo_u16 p, demo_u16 (drop 2 p), drop 8 p)),
      w_tcp = (\<lambda>p. if length p < 20 then None
        else Some \<lparr>tv_src_port = demo_u16 p, tv_dst_port = demo_u16 (drop 2 p),
                   tv_syn = bit (p ! 13) 1, tv_ack = bit (p ! 13) 4, tv_seq = 0\<rparr>),
      w_emit_udp = (\<lambda>_ _ payload. payload), w_emit_rst = (\<lambda>_ _ _. [])\<rparr>"

definition demo_smol :: "nat smol" where
  \<comment> \<open>the state counts the sockets handed out\<close>
  "demo_smol =
     \<lparr>sm_init = (\<lambda>_. 0), sm_poll = (\<lambda>_ dev n. (dev\<lparr>dev_inbound := []\<rparr>, n)), sm_poll_delay = (\<lambda>_ _. None),
      sm_listen = (\<lambda>_ n. Some (n, n + 1)), sm_state = (\<lambda>_ _. Tcp_Established), sm_can_recv = (\<lambda>_ _. False),
      sm_recv = (\<lambda>_ n. (None, n)), sm_send_slice = (\<lambda>_ data n. (length data, n)), sm_send_capacity = (\<lambda>_ _. 65536),
      sm_send_queue = (\<lambda>_ _. 0), sm_recv_queue = (\<lambda>_ _. 0), sm_close = (\<lambda>_ n. n), sm_abort = (\<lambda>_ n. n),
      sm_remove = (\<lambda>_ n. n)\<rparr>"

definition demo_mitm :: "unit mitm_ops" where
  "demo_mitm =
     \<lparr>mo_build = (\<lambda>_ _. True), mo_new = (\<lambda>_ _. Some ()), mo_key_log = (\<lambda>_. []), mo_is_dns = (\<lambda>_. True),
      mo_take_blocked = (\<lambda>m. ([], m)), mo_set_cosmetic = (\<lambda>_ _ m. m), mo_host = (\<lambda>_. None),
      mo_cert_rejected = (\<lambda>_. False), mo_take_transactions = (\<lambda>m. ([], m)), mo_recv_from_app = (\<lambda>_ m. m),
      mo_recv_from_upstream = (\<lambda>_ m. m),
      mo_pump = (\<lambda>m. (\<lparr>mi_to_app = [], mi_to_upstream = [], mi_closed = False\<rparr>, m)),
      mo_pump_dns = (\<lambda>_ m. Some (\<lparr>mi_to_app = [], mi_to_upstream = [], mi_closed = False\<rparr>, m)),
      mo_finish = (\<lambda>m. m)\<rparr>"

definition demo_sys :: "(nat, unit) sys" where
  "demo_sys =
     \<lparr>sy_wire = demo_wire, sy_smol = demo_smol, sy_mitm = demo_mitm, sy_pcap = (\<lambda>_ _. Some 0),
      sy_ok = (\<lambda>_. True), sy_flag = (\<lambda>_. False), sy_uid = (\<lambda>_. 10001), sy_now = int, sy_unix = (\<lambda>_. 0),
      sy_recv = (\<lambda>_. ([], Rx_Open)), sy_dgrams = (\<lambda>_. []), sy_write = (\<lambda>_. Wr_Block),
      sy_resolve = (\<lambda>_ _. None), sy_engine = (\<lambda>_ _. None)\<rparr>"

definition demo_packet :: "u8 \<Rightarrow> u8 \<Rightarrow> u8 \<Rightarrow> bytes" where
  \<comment> \<open>from 10.0.0.2:4660 to port \<open>256 * hi + lo\<close> of 1.1.1.1, a SYN when read as TCP\<close>
  "demo_packet proto hi lo =
     [0x45, 0, 0, 40, 0, 0, 0, 0, 64, proto, 0, 0, 10, 0, 0, 2, 1, 1, 1, 1,
      0x12, 0x34, hi, lo, 0, 20, 0, 0, 0, 0, 0, 0, 0x50, 0x02, 0, 0, 0, 0, 0, 0]"

end
