(* ===== verification/Fw_Properties.thy ===== *)
theory Fw_Properties
  imports Fw_Refine_Run Fw_Demo
begin

section \<open>Properties of the forwarder\<close>

text \<open>
  What holds of every run of the forwarder from its start, whatever packets arrive, whatever the
  operating system, smoltcp and the TLS sessions answer, and whatever commands change the settings.
\<close>

abbreviation reached :: "('c, 'm) sys \<Rightarrow> config \<Rightarrow> fw_op list \<Rightarrow> ('c, 'm) forwarder" where
  "reached X cfg ops \<equiv> fw_run X ops (fw_new X cfg)"

lemma reached_ok: "fwd_ok (reached X cfg ops)"
  by (rule fwd_ok_run[OF fwd_ok_new])

lemma fw_new_fields [simp]:
  "fw_panic (fw_new X cfg) = False" "fw_encrypted_dns_mode (fw_new X cfg) = cf_encrypted_dns_mode cfg"
  "fw_trace (fw_new X cfg) = []" "fw_tcp (fw_new X cfg) = []"
  by (simp_all add: fw_new_def case_prod_unfold Let_def)

subsection \<open>What leaves the device\<close>

fun effect_ok :: "('c, 'm) forwarder \<Rightarrow> effect \<Rightarrow> bool" where
  \<comment> \<open>the destinations the settings allow: nothing at all behind an unusable proxy; behind a proxy
     only the proxy, and the configured resolver while DNS is not to ride the proxy\<close>
  "effect_ok fw (E_Connect s a) = tcp_dial_ok fw a"
| "effect_ok fw (E_Udp_Connect s a) = udp_dial_ok fw a"
| "effect_ok fw (E_Relay_Connect s a) = (fw_proxy fw \<noteq> None)"
| "effect_ok fw e = True"

lemma effect_ok_settings: "settings fw' = settings fw \<Longrightarrow> effect_ok fw' = effect_ok fw"
proof
  fix e assume "settings fw' = settings fw"
  from dial_guards_settings[OF this] show "effect_ok fw' e = effect_ok fw e" by (cases e) simp_all
qed

lemma benign_ok: "benign e \<Longrightarrow> effect_ok fw e"
  by (cases e) simp_all

lemma mv_trace: "mv X fw fw' \<Longrightarrow> \<exists>es. fw_trace fw' = fw_trace fw @ es \<and> list_all (effect_ok fw) es"
proof (induction rule: mv.induct)
  case (mv_effect e fw)
  then show ?case by (auto simp: emit_def benign_ok intro!: exI[of _ "[e]"])
next
  case (mv_dial_tcp fw a s)
  then show ?case by (auto simp: emit_def intro!: exI[of _ "[E_Connect s a]"])
next
  case (mv_dial_udp fw a s)
  then show ?case by (auto simp: emit_def intro!: exI[of _ "[E_Udp_Connect s a]"])
next
  case (mv_dial_relay fw s a)
  then show ?case by (auto simp: emit_def intro!: exI[of _ "[E_Relay_Connect s a]"])
qed (auto simp: panic_def put_tcp_def put_dns_tcp_def put_dns_tls_def intro!: exI[of _ "[]"])

lemma mvs_trace_ok: "mvs X fw fw' \<Longrightarrow> \<exists>es. fw_trace fw' = fw_trace fw @ es \<and> list_all (effect_ok fw) es"
proof (induction rule: rtranclp_induct)
  case base
  then show ?case by (intro exI[of _ "[]"]) simp
next
  case (step y z)
  then obtain es where es: "fw_trace y = fw_trace fw @ es" "list_all (effect_ok fw) es" by blast
  from mv_trace[OF step(2)] obtain fs where "fw_trace z = fw_trace y @ fs" "list_all (effect_ok y) fs" by blast
  moreover have "effect_ok y = effect_ok fw" by (rule effect_ok_settings[OF mvs_settings[OF step(1)]])
  ultimately show ?case using es by (intro exI[of _ "es @ fs"]) simp
qed

lemma apply_trace_ok:
  assumes "fwd_ok fw"
  shows "\<exists>es. fw_trace (fw_apply X op fw) = fw_trace fw @ es \<and> list_all (effect_ok fw) es"
proof (cases "setting_op op")
  case True
  then show ?thesis by (intro exI[of _ "[]"]) (simp add: setting_same)
next
  case False
  then show ?thesis by (rule mvs_trace_ok[OF mvs_apply[OF _ rtranclp.rtrancl_refl assms]])
qed


subsection \<open>Tables\<close>

text \<open>C2: the tables of the forwarder stay consistent. In every reachable state a readiness token is
  routed to a flow, session or job exactly when that one registered it, so no event is delivered to
  the wrong flow, no socket is orphaned and no token is shared; and a TCP flow has an upstream socket
  only while the TCP stack knows the flow.\<close>

theorem forwarder_tables_consistent:
  "(map_of (fw_routes (reached X cfg ops)) t = Some r) = owns (reached X cfg ops) t r
   \<and> dom (map_of (fw_tcp (reached X cfg ops))) \<subseteq> dom (map_of (ns_flows (fw_stack (reached X cfg ops))))
   \<and> tables_ok (fw_stack (reached X cfg ops))"
  using fwd_okD[OF reached_ok, of X ops cfg] by (simp add: routes_okD(2) stack_ok_def)

lemma card_dom_hm: "hm_inv m \<Longrightarrow> card (dom (map_of m)) = length m"
  by (metis distinct_card dom_map_of_conv_image_fst hm_inv_def length_map set_map)

text \<open>C9: the memory of the forwarder is bounded. However long it runs and whatever it is fed, it
  holds at most 1024 upstream TCP sockets, 64 DNS-over-TCP and 64 DNS-over-TLS jobs, 5000 captured
  transactions, 4096 pinned pairs, no more cached verdicts than its table's capacity, and 8 datagrams
  waiting per association.\<close>

theorem forwarder_bounded:
  "length (fw_tcp (reached X cfg ops)) \<le> 1024
   \<and> length (fw_dns_tcp (reached X cfg ops)) \<le> 64 \<and> length (fw_dns_tls (reached X cfg ops)) \<le> 64
   \<and> length (fw_har (reached X cfg ops)) \<le> 5000 \<and> length (fw_pinned (reached X cfg ops)) \<le> 4096
   \<and> length (ft_map (fw_verdicts (reached X cfg ops))) \<le> ft_capacity (fw_verdicts (reached X cfg ops))
   \<and> list_all (\<lambda>(key, s). length (ss_pending s) \<le> 8) (fw_socks_udp (reached X cfg ops))"
proof -
  let ?fw = "reached X cfg ops"
  note ok = fwd_okD[OF reached_ok, of X ops cfg]
  have "length (fw_tcp ?fw) = card (dom (map_of (fw_tcp ?fw)))" using ok(2) by (simp add: stack_ok_def card_dom_hm)
  also have "\<dots> \<le> card (dom (map_of (ns_flows (fw_stack ?fw))))"
    using ok(2) by (intro card_mono) (simp_all add: stack_ok_def finite_dom_map_of)
  also have "\<dots> = length (ns_flows (fw_stack ?fw))" using ok(2) by (simp add: stack_ok_def tables_ok_def card_dom_hm)
  also have "\<dots> \<le> 1024" using ok(2) by (simp add: stack_ok_def tables_ok_def DEFAULT_MAX_FLOWS_def)
  finally have "length (fw_tcp ?fw) \<le> 1024" .
  moreover have "list_all (\<lambda>(key, s). length (ss_pending s) \<le> 8) (fw_socks_udp ?fw)"
    using ok(3) by (auto simp: bounds_ok_def hm_inv_def list_all_iff SOCKS_UDP_PENDING_CAP_def)
  ultimately show ?thesis
    using ok(3,4) by (simp add: bounds_ok_def verdicts_ok_def ft_inv_def DNS_TCP_MAX_JOBS_def DNS_TLS_MAX_JOBS_def
        HAR_MAX_ENTRIES_def PINNED_CAP_def)
qed

subsection \<open>The firewall\<close>

lemma policy_updates:
  "policy_blocks (tick fw) = policy_blocks fw" "policy_blocks (fw\<lparr>fw_verdicts := x\<rparr>) = policy_blocks fw"
  by (rule policy_same; simp add: tick_def)+

lemma verdict_is_policy:
  assumes ok: "verdicts_ok fw"
  shows "vd_blocked (fst (verdict_for X d proto fw)) = policy_blocks fw (vd_uid (fst (verdict_for X d proto fw)))"
proof (cases "fw_firewall fw = [] \<and> \<not> fw_log_open fw")
  case True
  then show ?thesis by (simp add: verdict_for_def policy_blocks_def)
next
  case False
  let ?k = "flow_key_new proto (d_src d) (d_src_port d) (d_dst d) (d_dst_port d)"
  show ?thesis
  proof (cases "fst (ft_get ?k (fw_verdicts fw))")
    case None
    then show ?thesis using False None
      by (auto simp: verdict_for_def Let_def case_prod_unfold ask_def policy_updates)
  next
    case (Some v)
    from ftab.all_cached_hit[OF _ _ this, where P = "\<lambda>_ v. vd_blocked v = policy_blocks fw (vd_uid v)"] ok
    have "vd_blocked v = policy_blocks fw (vd_uid v)" by (simp add: verdicts_ok_def)
    then show ?thesis using False Some by (auto simp: verdict_for_def Let_def case_prod_unfold)
  qed
qed

text \<open>C3: the firewall never acts on a stale decision. In every reachable state the verdict of a
  packet, taken from the cache or looked up, is what the current rules and the current transport say
  for the app it is attributed to: changing either cannot leave an old decision in force.\<close>

theorem firewall_verdicts_current:
  "vd_blocked (fst (verdict_for X d proto (reached X cfg ops)))
   = policy_blocks (reached X cfg ops) (vd_uid (fst (verdict_for X d proto (reached X cfg ops))))"
  by (rule verdict_is_policy[OF fwd_okD(4)[OF reached_ok]])

subsection \<open>Panics\<close>

lemma mv_no_panic: "mv X fw fw' \<Longrightarrow> (\<And>f m. mo_pump_dns (sy_mitm X) f m \<noteq> None) \<Longrightarrow> fw_panic fw' = fw_panic fw"
  by (induction rule: mv.induct) (auto simp: emit_def put_tcp_def put_dns_tcp_def put_dns_tls_def)

lemma mvs_no_panic: "mvs X fw fw' \<Longrightarrow> (\<And>f m. mo_pump_dns (sy_mitm X) f m \<noteq> None) \<Longrightarrow> fw_panic fw' = fw_panic fw"
  by (induction rule: rtranclp_induct) (auto simp: mv_no_panic)

lemma apply_no_panic:
  assumes "fwd_ok fw" and "\<And>f m. mo_pump_dns (sy_mitm X) f m \<noteq> None"
  shows "fw_panic (fw_apply X op fw) = fw_panic fw"
proof (cases "setting_op op")
  case True
  then show ?thesis by (simp add: setting_same)
next
  case False
  then show ?thesis by (rule mvs_no_panic[OF mvs_apply[OF _ rtranclp.rtrancl_refl assms(1)] assms(2)])
qed



subsection \<open>Encrypted DNS\<close>

definition dot_spliced :: "('c, 'm) forwarder \<Rightarrow> bool" where
  "dot_spliced fw \<longleftrightarrow> fw_encrypted_dns_mode fw = Enc_Filter
     \<and> (\<forall>fid up. map_of (fw_tcp fw) fid = Some up \<longrightarrow> sa_port (up_server up) = DOT_PORT \<longrightarrow> up_mitm up \<noteq> None)"

lemma mv_dot_spliced: "mv X fw fw' \<Longrightarrow> dot_spliced fw \<Longrightarrow> dot_spliced fw'"
proof (induction rule: mv.induct)
  case (mv_tcp_upd fw fid up up')
  then show ?case by (force simp: dot_spliced_def put_tcp_def update_conv' up_alike_def)
next
  case (mv_tcp_new fw fid up)
  then show ?case by (auto simp: dot_spliced_def put_tcp_def update_conv' new_flow_ok_def)
qed (auto simp: dot_spliced_def move_defs update_conv' delete_conv' split: if_splits)

lemma mvs_dot_spliced: "mvs X fw fw' \<Longrightarrow> dot_spliced fw \<Longrightarrow> dot_spliced fw'"
  by (induction rule: rtranclp_induct) (auto simp: mv_dot_spliced)

fun keeps_dns_mode :: "fw_op \<Rightarrow> bool" where
  "keeps_dns_mode (Op_DnsMode m) = (m = Enc_Filter)"
| "keeps_dns_mode op = True"

lemma apply_dot_spliced:
  assumes "fwd_ok fw" and "keeps_dns_mode op" and d: "dot_spliced fw"
  shows "dot_spliced (fw_apply X op fw)"
proof (cases "setting_op op")
  case True
  then show ?thesis using assms(2) d
    by (cases op) (auto simp: dot_spliced_def load_engine_def set_encrypted_dns_mode_def set_dns_upstream_def set_firewall_def
        set_transport_def set_log_open_def fw_set_cosmetic_def set_proxy_dns_over_tcp_def split: option.split)
next
  case False
  then show ?thesis by (rule mvs_dot_spliced[OF mvs_apply[OF _ rtranclp.rtrancl_refl assms(1)] d])
qed

text \<open>C15: while encrypted DNS is filtered, DNS over TLS is never relayed unseen. As long as the mode
  stays Filter, every flow the forwarder ever opens to port 853 carries a TLS splice, so its queries
  pass the blocklist; one that cannot be intercepted is never opened.\<close>

theorem dot_never_relayed_raw:
  assumes "cf_encrypted_dns_mode cfg = Enc_Filter" and "list_all keeps_dns_mode ops"
  shows "list_all (\<lambda>(fid, up). sa_port (up_server up) \<noteq> DOT_PORT \<or> up_mitm up \<noteq> None) (fw_tcp (reached X cfg ops))"
proof -
  have "fwd_ok fw \<Longrightarrow> dot_spliced fw \<Longrightarrow> dot_spliced (fw_run X ops fw)" for fw
    using assms(2)
    by (induction ops arbitrary: fw) (auto simp: fw_run_def unless_panic_def fwd_ok_apply apply_dot_spliced)
  moreover have "dot_spliced (fw_new X cfg)" using assms(1) by (simp add: dot_spliced_def)
  ultimately have d: "dot_spliced (reached X cfg ops)" by (simp add: fwd_ok_new)
  have "hm_inv (fw_tcp (reached X cfg ops))" using fwd_okD(2)[OF reached_ok, of X ops cfg] by (simp add: stack_ok_def)
  then have "map_of (fw_tcp (reached X cfg ops)) fid = Some up" if "(fid, up) \<in> set (fw_tcp (reached X cfg ops))" for fid up
    using that by (simp add: hm_inv_def)
  then show ?thesis using d by (fastforce simp: dot_spliced_def list_all_iff)
qed

definition demo_filter_cfg :: config where
  \<comment> \<open>encrypted DNS filtered, interception on\<close>
  "demo_filter_cfg = default_config\<lparr>cf_encrypted_dns_mode := Enc_Filter, cf_intercept_tls := True,
     cf_ca_cert_pem := Some [], cf_ca_key_pem := Some []\<rparr>"

lemma dot_never_relayed_raw_witness:
  "length (fw_tcp (reached demo_sys demo_filter_cfg [Op_Packet (demo_packet 6 3 85)])) = 1
   \<and> list_all (\<lambda>(fid, up). sa_port (up_server up) \<noteq> DOT_PORT \<or> up_mitm up \<noteq> None)
       (fw_tcp (reached demo_sys demo_filter_cfg [Op_Packet (demo_packet 6 3 85)]))"
proof
  show "length (fw_tcp (reached demo_sys demo_filter_cfg [Op_Packet (demo_packet 6 3 85)])) = 1"
    by code_simp
  show "list_all (\<lambda>(fid, up). sa_port (up_server up) \<noteq> DOT_PORT \<or> up_mitm up \<noteq> None)
       (fw_tcp (reached demo_sys demo_filter_cfg [Op_Packet (demo_packet 6 3 85)]))"
    by (rule dot_never_relayed_raw) (simp_all add: demo_filter_cfg_def)
qed

subsection \<open>Deadlines\<close>

lemma fold_delete: "fold AList.delete ks m = filter (\<lambda>p. fst p \<notin> set ks) m"
  by (induction ks arbitrary: m) (auto simp: delete_filter intro: filter_cong)

lemma fold_delete_stale: "list_all (\<lambda>p. \<not> P p) (fold AList.delete (map fst (filter P m)) m)"
  by (auto simp: fold_delete list_all_iff image_iff)

lemma delete_absent: "map_of m k = None \<Longrightarrow> AList.delete k m = m"
  by (simp add: delete_filter map_of_eq_None_iff) (metis (mono_tags, lifting) filter_True image_eqI)

lemma fold_table:
  assumes "\<And>k fw. tbl (f k fw) = AList.delete k (tbl fw)"
  shows "tbl (fold f ks fw) = fold AList.delete ks (tbl fw)"
  by (induction ks arbitrary: fw) (simp_all add: assms)

lemma fold_frame:
  assumes "\<And>k fw. tbl (f k fw) = tbl fw"
  shows "tbl (fold f ks fw) = tbl fw"
  by (induction ks arbitrary: fw) (simp_all add: assms)

lemma drop_tables:
  "fw_udp (drop_udp key fw) = AList.delete key (fw_udp fw)"
  "fw_socks_udp (teardown_socks key fw) = AList.delete key (fw_socks_udp fw)"
  "fw_dns_tcp (teardown_dns_tcp t fw) = AList.delete t (fw_dns_tcp fw)"
  "fw_dns_tls (teardown_dns_tls t fw) = AList.delete t (fw_dns_tls fw)"
  by (auto simp: drop_udp_def teardown_socks_def teardown_dns_tcp_def teardown_dns_tls_def delete_absent split: option.split)

lemma drop_tcp_table: "fw_tcp (drop_tcp fid fw) = AList.delete fid (fw_tcp fw)"
  by (auto simp: drop_tcp_def delete_absent split: option.split)

lemma teardown_table: "fw_tcp (teardown_tcp X fid fw) = AList.delete fid (fw_tcp fw)"
proof -
  have "AList.delete fid (fw_tcp (drain_mitm_transactions X fid fw)) = AList.delete fid (fw_tcp fw)"
    "AList.delete fid (fw_tcp (finish_mitm X fid fw)) = AList.delete fid (fw_tcp fw)" for fw
    by (auto simp: drain_mitm_transactions_def finish_mitm_def put_tcp_def delete_update_same split: option.split prod.split)
  then show ?thesis by (simp add: teardown_tcp_def Let_def drop_tcp_table)
qed

definition within_deadlines :: "int \<Rightarrow> ('c, 'm) forwarder \<Rightarrow> bool" where
  \<comment> \<open>at the time \<open>now\<close>: sessions idle for a minute at most, handshakes through the proxy ten seconds old
     at most, DNS jobs five and eight seconds\<close>
  "within_deadlines now fw \<longleftrightarrow>
     list_all (\<lambda>(_, s). now - us_last_used_ms s \<le> 60000) (fw_udp fw)
     \<and> list_all (\<lambda>(_, s). now - ss_last_used_ms s \<le> 60000) (fw_socks_udp fw)
     \<and> list_all (\<lambda>(_, s). ss_handshake s = None \<or> now - ss_last_used_ms s \<le> 10000) (fw_socks_udp fw)
     \<and> list_all (\<lambda>(_, up). up_handshake up = None \<or> now - up_opened_ms up \<le> 10000) (fw_tcp fw)
     \<and> list_all (\<lambda>(_, j). now - dj_created_ms j \<le> 5000) (fw_dns_tcp fw)
     \<and> list_all (\<lambda>(_, j). now - tj_created_ms j \<le> 8000) (fw_dns_tls fw)"

lemma other_tables [simp]:
  "fw_socks_udp (drop_udp key fw) = fw_socks_udp fw" "fw_tcp (drop_udp key fw) = fw_tcp fw"
  "fw_dns_tcp (drop_udp key fw) = fw_dns_tcp fw" "fw_dns_tls (drop_udp key fw) = fw_dns_tls fw"
  "fw_udp (teardown_socks key fw) = fw_udp fw" "fw_tcp (teardown_socks key fw) = fw_tcp fw"
  "fw_dns_tcp (teardown_socks key fw) = fw_dns_tcp fw" "fw_dns_tls (teardown_socks key fw) = fw_dns_tls fw"
  "fw_udp (teardown_dns_tcp t fw) = fw_udp fw" "fw_socks_udp (teardown_dns_tcp t fw) = fw_socks_udp fw"
  "fw_tcp (teardown_dns_tcp t fw) = fw_tcp fw" "fw_dns_tls (teardown_dns_tcp t fw) = fw_dns_tls fw"
  "fw_udp (teardown_dns_tls t fw) = fw_udp fw" "fw_socks_udp (teardown_dns_tls t fw) = fw_socks_udp fw"
  "fw_tcp (teardown_dns_tls t fw) = fw_tcp fw" "fw_dns_tcp (teardown_dns_tls t fw) = fw_dns_tcp fw"
  by (auto simp: drop_udp_def teardown_socks_def teardown_dns_tcp_def teardown_dns_tls_def split: option.split)

definition datagram_tables where
  "datagram_tables fw = (fw_udp fw, fw_socks_udp fw, fw_dns_tcp fw, fw_dns_tls fw)"

lemma fail_proxy_tables:
  "fw_tcp (fail_proxy X fid fw) = AList.delete fid (fw_tcp fw)"
  "datagram_tables (fail_proxy X fid fw) = datagram_tables fw"
proof -
  show "fw_tcp (fail_proxy X fid fw) = AList.delete fid (fw_tcp fw)"
    by (auto simp: fail_proxy_def teardown_table abort_app_def bump_def push_event_def ask_def tick_def Let_def split: option.split)
  have "datagram_tables (teardown_tcp X fid fw') = datagram_tables fw'" for fw'
    by (auto simp: teardown_tcp_def drop_tcp_def finish_mitm_def drain_mitm_transactions_def put_tcp_def datagram_tables_def
        Let_def split: option.split prod.split)
  then show "datagram_tables (fail_proxy X fid fw) = datagram_tables fw"
    by (auto simp: fail_proxy_def abort_app_def bump_def push_event_def ask_def tick_def datagram_tables_def Let_def split: option.split)
qed

lemma abort_tables [simp]: "fw_tcp (abort_app X fid fw) = fw_tcp fw" "datagram_tables (abort_app X fid fw) = datagram_tables fw"
  by (simp_all add: abort_app_def datagram_tables_def)

lemma reaped_tables:
  "fw_udp (reap_udp now fw) = fold AList.delete (map fst (filter (\<lambda>(_, s). now - us_last_used_ms s > UDP_IDLE_MS) (fw_udp fw))) (fw_udp fw)"
  "fw_socks_udp (reap_socks now fw) = fold AList.delete (map fst (filter (\<lambda>(_, s). now - ss_last_used_ms s > UDP_IDLE_MS) (fw_socks_udp fw))) (fw_socks_udp fw)"
  "fw_dns_tcp (reap_dns_tcp now fw) = fold AList.delete (map fst (filter (\<lambda>(_, j). now - dj_created_ms j > DNS_TCP_TIMEOUT_MS) (fw_dns_tcp fw))) (fw_dns_tcp fw)"
  "fw_dns_tls (reap_dns_tls now fw) = fold AList.delete (map fst (filter (\<lambda>(_, j). now - tj_created_ms j > DNS_TLS_TIMEOUT_MS) (fw_dns_tls fw))) (fw_dns_tls fw)"
  "fw_tcp (reap_tcp_handshakes X now fw) = fold AList.delete (map fst (filter (\<lambda>(_, up). up_handshake up \<noteq> None \<and> now - up_opened_ms up > PROXY_HS_TIMEOUT_MS) (fw_tcp fw))) (fw_tcp fw)"
  "fw_socks_udp (reap_associations now fw) = fold AList.delete (map fst (filter (\<lambda>(_, s). ss_handshake s \<noteq> None \<and> now - ss_last_used_ms s > PROXY_HS_TIMEOUT_MS) (fw_socks_udp fw))) (fw_socks_udp fw)"
  unfolding reap_udp_def reap_socks_def reap_dns_tcp_def reap_dns_tls_def reap_tcp_handshakes_def reap_associations_def
  by (simp_all add: fold_table[of fw_udp] fold_table[of fw_socks_udp] fold_table[of fw_dns_tcp] fold_table[of fw_dns_tls]
      fold_table[of fw_tcp] drop_tables fail_proxy_tables give_up_association_def)

lemma unreaped_tables [simp]:
  "fw_socks_udp (reap_udp now fw) = fw_socks_udp fw" "fw_tcp (reap_udp now fw) = fw_tcp fw"
  "fw_dns_tcp (reap_udp now fw) = fw_dns_tcp fw" "fw_dns_tls (reap_udp now fw) = fw_dns_tls fw"
  "fw_udp (reap_socks now fw) = fw_udp fw" "fw_tcp (reap_socks now fw) = fw_tcp fw"
  "fw_dns_tcp (reap_socks now fw) = fw_dns_tcp fw" "fw_dns_tls (reap_socks now fw) = fw_dns_tls fw"
  "fw_udp (reap_dns_tcp now fw) = fw_udp fw" "fw_socks_udp (reap_dns_tcp now fw) = fw_socks_udp fw"
  "fw_tcp (reap_dns_tcp now fw) = fw_tcp fw" "fw_dns_tls (reap_dns_tcp now fw) = fw_dns_tls fw"
  "fw_udp (reap_dns_tls now fw) = fw_udp fw" "fw_socks_udp (reap_dns_tls now fw) = fw_socks_udp fw"
  "fw_tcp (reap_dns_tls now fw) = fw_tcp fw" "fw_dns_tcp (reap_dns_tls now fw) = fw_dns_tcp fw"
  "fw_udp (reap_associations now fw) = fw_udp fw" "fw_tcp (reap_associations now fw) = fw_tcp fw"
  "fw_dns_tcp (reap_associations now fw) = fw_dns_tcp fw" "fw_dns_tls (reap_associations now fw) = fw_dns_tls fw"
  "datagram_tables (reap_tcp_handshakes X now fw) = datagram_tables fw"
  "fw_tcp (reap_pending_sni X now fw) = fw_tcp fw" "datagram_tables (reap_pending_sni X now fw) = datagram_tables fw"
  "fw_tcp (drain_stack_outbound fw) = fw_tcp fw" "datagram_tables (drain_stack_outbound fw) = datagram_tables fw"
  unfolding reap_udp_def reap_socks_def reap_dns_tcp_def reap_dns_tls_def reap_tcp_handshakes_def reap_associations_def
    reap_pending_sni_def
  by (simp_all add: fold_frame[of fw_udp] fold_frame[of fw_socks_udp] fold_frame[of fw_dns_tcp] fold_frame[of fw_dns_tls]
      fold_frame[of fw_tcp] fold_frame[of datagram_tables] fail_proxy_tables give_up_association_def
      drain_stack_outbound_def drain_outbound_def) (simp add: datagram_tables_def)

lemma list_all_fold_delete: "list_all Q m \<Longrightarrow> list_all Q (fold AList.delete ks m)"
  by (simp add: fold_delete list_all_iff)

lemma reaped_deadlines:
  "list_all (\<lambda>(_, s). now - us_last_used_ms s \<le> 60000) (fw_udp (reap_udp now fw))"
  "list_all (\<lambda>(_, s). now - ss_last_used_ms s \<le> 60000) (fw_socks_udp (reap_socks now fw))"
  "list_all (\<lambda>(_, s). ss_handshake s = None \<or> now - ss_last_used_ms s \<le> 10000) (fw_socks_udp (reap_associations now fw))"
  "list_all (\<lambda>(_, up). up_handshake up = None \<or> now - up_opened_ms up \<le> 10000) (fw_tcp (reap_tcp_handshakes X now fw))"
  "list_all (\<lambda>(_, j). now - dj_created_ms j \<le> 5000) (fw_dns_tcp (reap_dns_tcp now fw))"
  "list_all (\<lambda>(_, j). now - tj_created_ms j \<le> 8000) (fw_dns_tls (reap_dns_tls now fw))"
proof -
  note stale = fold_delete_stale[where P = "\<lambda>(_, s). P s" for P]
  show "list_all (\<lambda>(_, s). now - us_last_used_ms s \<le> 60000) (fw_udp (reap_udp now fw))"
    using stale[of "\<lambda>s. now - us_last_used_ms s > UDP_IDLE_MS"]
    by (simp add: reaped_tables case_prod_unfold not_less UDP_IDLE_MS_def)
  show "list_all (\<lambda>(_, s). now - ss_last_used_ms s \<le> 60000) (fw_socks_udp (reap_socks now fw))"
    using stale[of "\<lambda>s. now - ss_last_used_ms s > UDP_IDLE_MS"]
    by (simp add: reaped_tables case_prod_unfold not_less UDP_IDLE_MS_def)
  show "list_all (\<lambda>(_, s). ss_handshake s = None \<or> now - ss_last_used_ms s \<le> 10000) (fw_socks_udp (reap_associations now fw))"
    using stale[of "\<lambda>s. ss_handshake s \<noteq> None \<and> now - ss_last_used_ms s > PROXY_HS_TIMEOUT_MS"]
    by (simp add: reaped_tables case_prod_unfold not_less PROXY_HS_TIMEOUT_MS_def disj_commute)
  show "list_all (\<lambda>(_, up). up_handshake up = None \<or> now - up_opened_ms up \<le> 10000) (fw_tcp (reap_tcp_handshakes X now fw))"
    using stale[of "\<lambda>up. up_handshake up \<noteq> None \<and> now - up_opened_ms up > PROXY_HS_TIMEOUT_MS"]
    by (simp add: reaped_tables case_prod_unfold not_less PROXY_HS_TIMEOUT_MS_def disj_commute)
  show "list_all (\<lambda>(_, j). now - dj_created_ms j \<le> 5000) (fw_dns_tcp (reap_dns_tcp now fw))"
    using stale[of "\<lambda>j. now - dj_created_ms j > DNS_TCP_TIMEOUT_MS"]
    by (simp add: reaped_tables case_prod_unfold not_less DNS_TCP_TIMEOUT_MS_def)
  show "list_all (\<lambda>(_, j). now - tj_created_ms j \<le> 8000) (fw_dns_tls (reap_dns_tls now fw))"
    using stale[of "\<lambda>j. now - tj_created_ms j > DNS_TLS_TIMEOUT_MS"]
    by (simp add: reaped_tables case_prod_unfold not_less DNS_TLS_TIMEOUT_MS_def)
qed

lemma reap_all_deadlines: "within_deadlines now (reap_all X now fw)"
proof -
  let ?fw1 = "reap_dns_tls now (reap_dns_tcp now (reap_socks now (reap_udp now fw)))"
  let ?fw2 = "reap_tcp_handshakes X now ?fw1"
  have d: "datagram_tables (reap_all X now fw) = datagram_tables (reap_associations now ?fw2)"
    and t: "fw_tcp (reap_all X now fw) = fw_tcp ?fw2"
    by (simp_all add: reap_all_def reap_proxy_handshakes_def)
  have "datagram_tables ?fw2 = datagram_tables ?fw1" by simp
  then have e: "fw_udp ?fw2 = fw_udp (reap_udp now fw)" "fw_socks_udp ?fw2 = fw_socks_udp (reap_socks now (reap_udp now fw))"
    "fw_dns_tcp ?fw2 = fw_dns_tcp (reap_dns_tcp now (reap_socks now (reap_udp now fw)))" "fw_dns_tls ?fw2 = fw_dns_tls ?fw1"
    by (simp_all add: datagram_tables_def)
  have "fw_udp (reap_all X now fw) = fw_udp (reap_udp now fw)"
    "fw_socks_udp (reap_all X now fw) = fw_socks_udp (reap_associations now ?fw2)"
    "fw_dns_tcp (reap_all X now fw) = fw_dns_tcp (reap_dns_tcp now (reap_socks now (reap_udp now fw)))"
    "fw_dns_tls (reap_all X now fw) = fw_dns_tls ?fw1"
    using d e by (simp_all add: datagram_tables_def)
  moreover have "list_all (\<lambda>(_, s). now - ss_last_used_ms s \<le> 60000) (fw_socks_udp (reap_associations now ?fw2))"
    unfolding reaped_tables(6) e(2) by (intro list_all_fold_delete reaped_deadlines)
  ultimately show ?thesis unfolding within_deadlines_def t by (simp add: reaped_deadlines)
qed


end
