(* ===== verification/Fw_Reports.thy ===== *)
theory Fw_Reports
  imports Fw_Properties
begin

section \<open>What the forwarder reports\<close>

text \<open>
  The telemetry of a packet: one event or one count in the coarse window, and for a refused packet
  nothing on the network.
\<close>

definition reports where
  "reports fw = (fw_events fw, fw_coarse fw)"

definition reported :: "('c, 'm) forwarder \<Rightarrow> nat" where
  \<comment> \<open>events pushed and packets coalesced so far\<close>
  "reported fw = length (fw_events fw) + ca_packets (fw_coarse fw)"

lemma reported_same: "reports fw' = reports fw \<Longrightarrow> reported fw' = reported fw"
  by (simp add: reports_def reported_def)

lemma reports_basic [simp]:
  "reports (tick fw) = reports fw" "reports (emit e fw) = reports fw" "reports (bump f fw) = reports fw"
  "reports (push_out p fw) = reports fw" "reports (abort_app X fid fw) = reports fw" "reports (snd (ask g fw)) = reports fw"
  "reports (deregister s fw) = reports fw" "reports (send_dgram s pl fw) = reports fw" "reports (put_tcp fid up fw) = reports fw"
  "reports (put_dns_tcp t j fw) = reports fw" "reports (put_dns_tls t tj fw) = reports fw" "reports (snd (now_ms X fw)) = reports fw"
  by (auto simp: reports_def tick_def emit_def bump_def push_out_def abort_app_def ask_def deregister_def send_dgram_def
      put_tcp_def put_dns_tcp_def put_dns_tls_def now_ms_def split: option.split)

lemma reports_upd [simp]:
  "reports (fw\<lparr>fw_routes := r\<rparr>) = reports fw" "reports (fw\<lparr>fw_udp := u\<rparr>) = reports fw"
  "reports (fw\<lparr>fw_socks_udp := so\<rparr>) = reports fw" "reports (fw\<lparr>fw_stack := st\<rparr>) = reports fw"
  "reports (fw\<lparr>fw_verdicts := v\<rparr>) = reports fw" "reports (fw\<lparr>fw_next_token := n\<rparr>) = reports fw"
  "reports (fw\<lparr>fw_routes := r, fw_udp := u\<rparr>) = reports fw" "reports (fw\<lparr>fw_routes := r, fw_socks_udp := so\<rparr>) = reports fw"
  "reports (fw\<lparr>fw_pcap := pc\<rparr>) = reports fw"
  by (simp_all add: reports_def)

lemma reports_tap [simp]: "reports (tap X packet fw) = reports fw"
  by (auto simp: tap_def reports_def ask_def tick_def Let_def split: option.split)

lemma reports_open [simp]: "reports (snd (open_protected X fw)) = reports fw" "reports (snd (register X fw)) = reports fw"
  by (auto simp: open_protected_def register_def alloc_token_def case_prod_unfold Let_def)

lemma reports_dial [simp]:
  "reports (snd (connect_tcp X server fw)) = reports fw" "reports (snd (connect_udp X server fw)) = reports fw"
  "reports (snd (connect_socks_ctrl X fw)) = reports fw" "reports (snd (new_relay_socket X fw)) = reports fw"
  "reports (snd (connect_dns_tls X dial fw)) = reports fw"
  unfolding connect_tcp_def connect_udp_def connect_socks_ctrl_def new_relay_socket_def connect_dns_tls_def
  by (auto simp: case_prod_unfold Let_def split: option.split)

lemma reports_flow [simp]:
  "reports (snd (new_mitm_if_intercepting X server uid fw)) = reports fw"
  "reports (insert_flow X fid server uid mitm cls io t fw) = reports fw"
  by (auto simp: new_mitm_if_intercepting_def new_splice_def insert_flow_def case_prod_unfold Let_def split: option.split)

lemma reports_open_tcp [simp]: "reports (open_tcp X fid server uid fw) = reports fw"
  by (auto simp: open_tcp_def case_prod_unfold Let_def split: option.split)

lemma reports_datagrams [simp]:
  "reports (forward_udp X dgram upstream fw) = reports fw" "reports (forward_udp_socks X dgram upstream fw) = reports fw"
  "reports (forward_dns_over_proxy X dgram upstream fw) = reports fw" "reports (forward_dns_tls X dgram upstream fw) = reports fw"
  by (auto simp: forward_udp_def udp_session_for_def forward_udp_socks_def reuse_association_def open_association_def
      forward_dns_over_proxy_def forward_dns_tls_def case_prod_unfold Let_def split: option.split)

lemma reports_routed [simp]: "reports (route_dns X dgram fw) = reports fw" "reports (route_datagram X dgram fw) = reports fw"
  by (auto simp: route_dns_def route_datagram_def Let_def split: dns_transport.split)

lemma reports_verdict [simp]: "reports (snd (verdict_for X d proto fw)) = reports fw"
  by (auto simp: verdict_for_def case_prod_unfold Let_def split: option.split)

lemma push_event_reported: "reported (push_event X e fw) = Suc (reported fw)"
  by (simp add: reported_def push_event_def ask_def tick_def batcher_push_def Let_def)

lemma coarse_add_reported: "reported (coarse_add l proto is_dns fw) = Suc (reported fw)"
  by (auto simp: reported_def coarse_add_def coarse_count_def Let_def split: L4.split)

lemma report_flow_reported: "reported (report_flow X d uid proto is_dns domain fw) = Suc (reported fw)"
  by (simp add: report_flow_def push_event_reported coarse_add_reported)

lemma forward_datagram_reported: "reported (forward_datagram X d uid is_dns dgram fw) = Suc (reported fw)"
proof (cases is_dns)
  case False
  then show ?thesis
    by (simp add: forward_datagram_def reported_same[OF reports_routed(2)] report_flow_reported)
next
  case True
  obtain r where r: "parse_query (ud_payload dgram) = Some r" using parse_query_never_panics by blast
  show ?thesis
  proof (cases "\<exists>q. r = Some q \<and> engine_blocks fw (q_name q)")
    case False
    then show ?thesis using r \<open>is_dns\<close>
      by (cases r) (auto simp: forward_datagram_def handle_dns_def reported_same[OF reports_routed(1)] report_flow_reported)
  next
    case True
    then obtain q resp where "r = Some q" "engine_blocks fw (q_name q)" "synthesize_nxdomain (ud_payload dgram) q = Some resp"
      using nxdomain_never_panics r by blast
    then show ?thesis using r \<open>is_dns\<close>
      by (simp add: forward_datagram_def handle_dns_def push_event_reported reported_same[OF reports_basic(4)])
  qed
qed

lemma on_udp_reported: "reported (on_udp X packet d fw) = Suc (reported fw)"
proof -
  obtain v fw1 where v: "verdict_for X d IPPROTO_UDP fw = (v, fw1)" by force
  have r: "reported fw1 = reported fw" using reported_same[OF reports_verdict[of X d IPPROTO_UDP fw]] v by simp
  have b: "reported (bump f fw1) = reported fw1" for f by (rule reported_same) simp
  have "reported (udp_admitted X packet d uid fw1) = Suc (reported fw1)" for uid
    by (auto simp: udp_admitted_def Let_def forward_datagram_reported report_flow_reported split: option.split)
  then show ?thesis using v by (simp add: on_udp_def Let_def push_event_reported r b)
qed

lemma on_tcp_reported: "reported (on_tcp X packet d fw) = Suc (reported fw)"
proof -
  obtain v fw1 where v: "verdict_for X d IPPROTO_TCP fw = (v, fw1)" by force
  have r: "reported fw1 = reported fw" using reported_same[OF reports_verdict[of X d IPPROTO_TCP fw]] v by simp
  have b: "reported (bump f (push_out p fw1)) = reported fw1" "reported (push_out p fw1) = reported fw1" for f p
    by (rule reported_same; simp)+
  have "reports (forward_tcp_packet X packet d uid fw1) = reports (report_flow X d uid L4_Tcp False None fw1)" for uid
    by (auto simp: forward_tcp_packet_def Let_def split: option.split prod.split)
  from reported_same[OF this] show ?thesis
    using v by (simp add: on_tcp_def refuse_tcp_def Let_def push_event_reported report_flow_reported r b)
qed

text \<open>C12: every packet is reported once. Whatever happens to it (relayed, refused, sinkholed, dropped or
  held back), a packet that decodes adds exactly one event or one count to the coarse window, and one
  that does not decode adds nothing.\<close>

theorem packet_reported_once:
  "reported (on_tun_packet X packet fw) = reported fw + (case decode packet of Some (Some d) \<Rightarrow> 1 | _ \<Rightarrow> 0)"
proof -
  obtain r where r: "decode packet = Some r" using decode_never_panics by blast
  have "reported (tap X packet (bump st_tun_in_update fw)) = reported fw" by (rule reported_same) simp
  then show ?thesis using r
    by (cases r) (simp_all add: on_tun_packet_def Let_def on_tcp_reported on_udp_reported push_event_reported
        coarse_add_reported split: L4.split)
qed

text \<open>Refused packets.\<close>

lemma trace_quiet [simp]:
  "fw_trace (push_event X e fw) = fw_trace fw" "fw_trace (push_out p fw) = fw_trace fw" "fw_trace (bump f fw) = fw_trace fw"
  "fw_trace (tap X packet fw) = fw_trace fw" "fw_trace (snd (verdict_for X d proto fw)) = fw_trace fw"
  by (auto simp: push_event_def push_out_def bump_def tap_def verdict_for_def ask_def tick_def case_prod_unfold Let_def
      split: option.split)

lemma tables_quiet [simp]:
  "tables (push_event X e fw) = tables fw" "tables (push_out p fw) = tables fw" "tables (bump f fw) = tables fw"
  "tables (tap X packet fw) = tables fw"
  by (auto simp: tables_def push_event_def push_out_def bump_def tap_def ask_def tick_def Let_def split: option.split)

lemma broken_quiet: "fw_proxy_broken (tap X packet (bump f fw)) = fw_proxy_broken fw"
  "fw_proxy_broken (snd (verdict_for X d proto fw)) = fw_proxy_broken fw"
  by (auto simp: bump_def tap_def verdict_for_def ask_def tick_def case_prod_unfold Let_def split: option.split)

definition l4_number :: "L4 \<Rightarrow> u8" where
  "l4_number proto = (if proto = L4_Tcp then IPPROTO_TCP else IPPROTO_UDP)"

text \<open>C8: what the firewall blocks, and what a configured but unusable proxy would leak, stays inside.
  A TCP or UDP packet with a blocking verdict, or any while the proxy is unusable, opens no socket,
  sends nothing and changes no flow, session, job or route.\<close>

theorem refused_packet_stays_inside:
  assumes "decode packet = Some (Some d)" and "d_proto d = L4_Tcp \<or> d_proto d = L4_Udp"
    and "fw_proxy_broken fw \<or> vd_blocked (fst (verdict_for X d (l4_number (d_proto d)) (tap X packet (bump st_tun_in_update fw))))"
  shows "fw_trace (on_tun_packet X packet fw) = fw_trace fw \<and> tables (on_tun_packet X packet fw) = tables fw"
proof -
  let ?fw = "tap X packet (bump st_tun_in_update fw)"
  have t: "tables (snd (verdict_for X d p ?fw)) = tables fw" for p
    using mvs_verdict(3)[OF rtranclp.rtrancl_refl, of X d p ?fw "fst (verdict_for X d p ?fw)" "snd (verdict_for X d p ?fw)"] by simp
  show ?thesis
    using assms t
    by (auto simp: on_tun_packet_def Let_def on_tcp_def on_udp_def refuse_tcp_def l4_number_def case_prod_unfold broken_quiet)
qed

definition demo_broken_cfg :: config where
  \<comment> \<open>a proxy is configured, but has no port\<close>
  "demo_broken_cfg = default_config\<lparr>cf_proxy := default_proxy_config\<lparr>pc_kind := Proxy_Socks5\<rparr>\<rparr>"

lemma demo_decodes:
  "decode (demo_packet 17 31 144) = Some (Some \<lparr>d_ip_version = 4, d_proto = L4_Udp, d_src = V4 10 0 0 2,
     d_dst = V4 1 1 1 1, d_src_port = 0x1234, d_dst_port = 8080, d_length = 40\<rparr>)"
  by code_simp

lemma refused_packet_stays_inside_witness:
  "fw_trace (on_tun_packet demo_sys (demo_packet 17 31 144) (fw_new demo_sys demo_broken_cfg)) = []
   \<and> tables (on_tun_packet demo_sys (demo_packet 17 31 144) (fw_new demo_sys demo_broken_cfg))
     = tables (fw_new demo_sys demo_broken_cfg)"
proof -
  have "fw_proxy_broken (fw_new demo_sys demo_broken_cfg)" by code_simp
  with refused_packet_stays_inside[OF demo_decodes, of "fw_new demo_sys demo_broken_cfg" demo_sys]
  show ?thesis by simp
qed

end
