(* ===== verification/H2_Server.thy ===== *)
theory H2_Server
  imports Dns_Filter Net_Types
begin

unbundle bit_operations_syntax

section \<open>The HTTP/2 server of the DoH filter\<close>

text \<open>
  \<open>rust/tls/src/h2.rs\<close>: the framing and the stream bookkeeping of \<open>H2Server\<close>. HPACK is the crate
  \<open>fluke-hpack\<close>; its decoder and encoder, with their dynamic tables, are the record \<open>hpack\<close> over
  abstract states. Every slice the code takes is guarded by a length test, so the operations are
  total functions.
\<close>

definition FRAME_HEADER :: nat where "FRAME_HEADER = 9"
definition MAX_FRAME :: nat where "MAX_FRAME = 16384"
definition MAX_STREAM_BYTES :: nat where "MAX_STREAM_BYTES = 64 * 1024"

definition T_DATA :: u8 where "T_DATA = 0"
definition T_HEADERS :: u8 where "T_HEADERS = 1"
definition T_RST_STREAM :: u8 where "T_RST_STREAM = 3"
definition T_SETTINGS :: u8 where "T_SETTINGS = 4"
definition T_PING :: u8 where "T_PING = 6"
definition T_GOAWAY :: u8 where "T_GOAWAY = 7"
definition T_WINDOW_UPDATE :: u8 where "T_WINDOW_UPDATE = 8"
definition T_CONTINUATION :: u8 where "T_CONTINUATION = 9"

definition F_ACK :: u8 where "F_ACK = 1"
definition F_END_STREAM :: u8 where "F_END_STREAM = 1"
definition F_END_HEADERS :: u8 where "F_END_HEADERS = 4"
definition F_PADDED :: u8 where "F_PADDED = 8"
definition F_PRIORITY :: u8 where "F_PRIORITY = 0x20"

lemmas h2_constants = FRAME_HEADER_def MAX_FRAME_def MAX_STREAM_BYTES_def T_DATA_def T_HEADERS_def T_RST_STREAM_def
  T_SETTINGS_def T_PING_def T_GOAWAY_def T_WINDOW_UPDATE_def T_CONTINUATION_def F_ACK_def F_END_STREAM_def
  F_END_HEADERS_def F_PADDED_def F_PRIORITY_def

record ('d, 'e) hpack =
  hp_dec_new :: 'd
  hp_decode :: "bytes \<Rightarrow> 'd \<Rightarrow> headers option \<times> 'd"
  hp_enc_new :: 'e
  hp_encode :: "headers \<Rightarrow> 'e \<Rightarrow> bytes \<times> 'e"

record h2_request =
  hr_stream_id :: u32
  hr_method :: bytes
  hr_path :: bytes
  hr_authority :: bytes
  hr_content_type :: bytes
  hr_body :: bytes

record h2_stream =
  hs_method :: bytes
  hs_path :: bytes
  hs_authority :: bytes
  hs_content_type :: bytes
  hs_body :: bytes
  hs_header_block :: bytes
  hs_headers_done :: bool
  hs_end_stream :: bool
  hs_dispatched :: bool

definition stream_default :: h2_stream where
  "stream_default =
     \<lparr>hs_method = [], hs_path = [], hs_authority = [], hs_content_type = [], hs_body = [], hs_header_block = [],
      hs_headers_done = False, hs_end_stream = False, hs_dispatched = False\<rparr>"

record ('d, 'e) h2_server =
  h2_inbuf :: bytes
  h2_preface_seen :: bool
  h2_settings_sent :: bool
  h2_dec :: 'd
  h2_enc :: 'e
  h2_streams :: "(u32, h2_stream) hash_map"
  h2_continuation :: "u32 option"
  h2_out :: bytes
  h2_ready :: "h2_request list"
  h2_failed :: bool

definition h2_new :: "('d, 'e) hpack \<Rightarrow> ('d, 'e) h2_server" where
  "h2_new H =
     \<lparr>h2_inbuf = [], h2_preface_seen = False, h2_settings_sent = False, h2_dec = hp_dec_new H, h2_enc = hp_enc_new H,
      h2_streams = [], h2_continuation = None, h2_out = [], h2_ready = [], h2_failed = False\<rparr>"

definition h2_fail :: "('d, 'e) h2_server \<Rightarrow> ('d, 'e) h2_server" where
  "h2_fail s = s\<lparr>h2_failed := True\<rparr>"

definition take_out :: "('d, 'e) h2_server \<Rightarrow> bytes \<times> ('d, 'e) h2_server" where
  "take_out s = (h2_out s, s\<lparr>h2_out := []\<rparr>)"

definition take_requests :: "('d, 'e) h2_server \<Rightarrow> h2_request list \<times> ('d, 'e) h2_server" where
  "take_requests s = (h2_ready s, s\<lparr>h2_ready := []\<rparr>)"

subsection \<open>Frames out\<close>

definition frame_bytes :: "u8 \<Rightarrow> u8 \<Rightarrow> u32 \<Rightarrow> bytes \<Rightarrow> bytes" where
  "frame_bytes ty flags stream_id payload =
     (let len = length payload
      in [word_of_nat (len div 2 ^ 16), word_of_nat (len div 2 ^ 8), word_of_nat len, ty, flags]
         @ be32 (stream_id AND 0x7fffffff) @ payload)"

definition write_frame :: "u8 \<Rightarrow> u8 \<Rightarrow> u32 \<Rightarrow> bytes \<Rightarrow> ('d, 'e) h2_server \<Rightarrow> ('d, 'e) h2_server" where
  "write_frame ty flags stream_id payload s = s\<lparr>h2_out := h2_out s @ frame_bytes ty flags stream_id payload\<rparr>"

function write_data :: "u32 \<Rightarrow> bytes \<Rightarrow> ('d, 'e) h2_server \<Rightarrow> ('d, 'e) h2_server" where
  \<comment> \<open>the chunking loop, over the body from the offset on\<close>
  "write_data stream_id rest s =
     (if rest = [] then s
      else write_data stream_id (drop MAX_FRAME rest)
        (write_frame T_DATA (if length rest \<le> MAX_FRAME then F_END_STREAM else 0) stream_id (take MAX_FRAME rest) s))"
  by pat_completeness auto
termination
  by (relation "measure (\<lambda>(_, rest, _). length rest)") (auto simp: MAX_FRAME_def)

declare write_data.simps [simp del]

definition response_headers :: "nat \<Rightarrow> bytes \<Rightarrow> bytes \<Rightarrow> headers" where
  "response_headers status content_type body =
     [(asc '':status'', dec_str status), (asc ''content-type'', content_type),
      (asc ''content-length'', dec_str (length body))]"

definition respond :: "('d, 'e) hpack \<Rightarrow> u32 \<Rightarrow> nat \<Rightarrow> bytes \<Rightarrow> bytes \<Rightarrow> ('d, 'e) h2_server \<Rightarrow> ('d, 'e) h2_server" where
  "respond H stream_id status content_type body s =
     (let (block, enc) = hp_encode H (response_headers status content_type body) (h2_enc s);
          s = s\<lparr>h2_enc := enc\<rparr>;
          s = write_frame T_HEADERS (if body = [] then F_END_HEADERS OR F_END_STREAM else F_END_HEADERS) stream_id block s;
          s = write_data stream_id body s
      in s\<lparr>h2_streams := AList.delete stream_id (h2_streams s)\<rparr>)"

subsection \<open>Frames in\<close>

datatype h2_next =
    Hn_Wait \<comment> \<open>the frame is still arriving\<close>
  | Hn_Big
  | Hn_Frame u8 u8 u32 bytes nat \<comment> \<open>type, flags, stream, payload, bytes taken\<close>

definition be24n :: "u8 \<Rightarrow> u8 \<Rightarrow> u8 \<Rightarrow> nat" where
  "be24n a b c = unat a * 2 ^ 16 + unat b * 2 ^ 8 + unat c"

definition be32w :: "u8 \<Rightarrow> u8 \<Rightarrow> u8 \<Rightarrow> u8 \<Rightarrow> u32" where
  "be32w a b c d = word_of_nat (unat a * 2 ^ 24 + unat b * 2 ^ 16 + unat c * 2 ^ 8 + unat d)"

definition h2_next :: "bytes \<Rightarrow> h2_next" where
  "h2_next buf =
     (if length buf < FRAME_HEADER then Hn_Wait
      else
        let len = be24n (buf ! 0) (buf ! 1) (buf ! 2)
        in if len > MAX_STREAM_BYTES then Hn_Big
           else if length buf < FRAME_HEADER + len then Hn_Wait
           else Hn_Frame (buf ! 3) (buf ! 4) (be32w (buf ! 5) (buf ! 6) (buf ! 7) (buf ! 8) AND 0x7fffffff)
                  (take len (drop FRAME_HEADER buf)) (FRAME_HEADER + len))"

definition on_settings :: "u8 \<Rightarrow> ('d, 'e) h2_server \<Rightarrow> ('d, 'e) h2_server" where
  "on_settings flags s = (if flags AND F_ACK = 0 then write_frame T_SETTINGS F_ACK 0 [] s else s)"

definition on_ping :: "u8 \<Rightarrow> bytes \<Rightarrow> ('d, 'e) h2_server \<Rightarrow> ('d, 'e) h2_server" where
  "on_ping flags payload s =
     (if flags AND F_ACK = 0 \<and> length payload = 8 then write_frame T_PING F_ACK 0 payload s else s)"

definition maybe_dispatch :: "u32 \<Rightarrow> ('d, 'e) h2_server \<Rightarrow> ('d, 'e) h2_server" where
  "maybe_dispatch stream_id s =
     (case map_of (h2_streams s) stream_id of
        None \<Rightarrow> s
      | Some st \<Rightarrow>
          if \<not> (hs_headers_done st \<and> hs_end_stream st \<and> \<not> hs_dispatched st) then s
          else s\<lparr>h2_streams := AList.update stream_id (st\<lparr>hs_dispatched := True, hs_body := []\<rparr>) (h2_streams s),
                 h2_ready := h2_ready s @
                   [\<lparr>hr_stream_id = stream_id, hr_method = hs_method st, hr_path = hs_path st,
                     hr_authority = hs_authority st, hr_content_type = hs_content_type st, hr_body = hs_body st\<rparr>]\<rparr>)"

definition header_field :: "bytes \<times> bytes \<Rightarrow> h2_stream \<Rightarrow> h2_stream" where
  "header_field nv st =
     (let (name, value) = nv; v = utf8_lossy value
      in if name = asc '':method'' then st\<lparr>hs_method := v\<rparr>
         else if name = asc '':path'' then st\<lparr>hs_path := v\<rparr>
         else if name = asc '':authority'' then st\<lparr>hs_authority := v\<rparr>
         else if name = asc ''content-type'' then st\<lparr>hs_content_type := v\<rparr>
         else st)"

definition finish_headers :: "('d, 'e) hpack \<Rightarrow> u32 \<Rightarrow> ('d, 'e) h2_server \<Rightarrow> ('d, 'e) h2_server" where
  "finish_headers H stream_id s =
     (case map_of (h2_streams s) stream_id of
        None \<Rightarrow> s
      | Some st \<Rightarrow>
          let st' = st\<lparr>hs_header_block := []\<rparr>;
              (decoded, dec) = hp_decode H (hs_header_block st) (h2_dec s);
              s = s\<lparr>h2_dec := dec, h2_streams := AList.update stream_id st' (h2_streams s)\<rparr>
          in case decoded of
               None \<Rightarrow> h2_fail s
             | Some hs \<Rightarrow>
                 maybe_dispatch stream_id
                   (s\<lparr>h2_streams := AList.update stream_id (fold header_field hs (st'\<lparr>hs_headers_done := True\<rparr>))
                        (h2_streams s)\<rparr>))"

definition strip_padding :: "u8 \<Rightarrow> bytes \<Rightarrow> (nat \<times> bytes) option" where
  "strip_padding flags p =
     (if flags AND F_PADDED \<noteq> 0 then (case p of [] \<Rightarrow> None | b # rest \<Rightarrow> Some (unat b, rest)) else Some (0, p))"

definition headers_fragment :: "u8 \<Rightarrow> bytes \<Rightarrow> bytes option" where
  \<comment> \<open>without the padding and the priority prefix\<close>
  "headers_fragment flags payload =
     (case strip_padding flags payload of
        None \<Rightarrow> None
      | Some (pad, p) \<Rightarrow>
          if flags AND F_PRIORITY \<noteq> 0 \<and> length p < 5 then None
          else
            let p = (if flags AND F_PRIORITY \<noteq> 0 then drop 5 p else p)
            in if pad > length p then None else Some (take (length p - pad) p))"

definition entry :: "u32 \<Rightarrow> ('d, 'e) h2_server \<Rightarrow> h2_stream \<times> ('d, 'e) h2_server" where
  \<comment> \<open>\<open>entry(id).or_default()\<close>\<close>
  "entry stream_id s =
     (case map_of (h2_streams s) stream_id of
        Some st \<Rightarrow> (st, s)
      | None \<Rightarrow> (stream_default, s\<lparr>h2_streams := AList.update stream_id stream_default (h2_streams s)\<rparr>))"

definition on_headers :: "('d, 'e) hpack \<Rightarrow> u8 \<Rightarrow> u32 \<Rightarrow> bytes \<Rightarrow> ('d, 'e) h2_server \<Rightarrow> ('d, 'e) h2_server" where
  "on_headers H flags stream_id payload s =
     (if stream_id = 0 then h2_fail s
      else case headers_fragment flags payload of
        None \<Rightarrow> h2_fail s
      | Some fragment \<Rightarrow>
          let (st, s) = entry stream_id s
          in if length (hs_header_block st) + length fragment > MAX_STREAM_BYTES then h2_fail s
             else
               let st = st\<lparr>hs_header_block := hs_header_block st @ fragment,
                           hs_end_stream := (flags AND F_END_STREAM \<noteq> 0)\<rparr>;
                   s = s\<lparr>h2_streams := AList.update stream_id st (h2_streams s)\<rparr>
               in if flags AND F_END_HEADERS \<noteq> 0 then finish_headers H stream_id s
                  else s\<lparr>h2_continuation := Some stream_id\<rparr>)"

definition on_continuation :: "('d, 'e) hpack \<Rightarrow> u8 \<Rightarrow> u32 \<Rightarrow> bytes \<Rightarrow> ('d, 'e) h2_server \<Rightarrow> ('d, 'e) h2_server" where
  "on_continuation H flags stream_id payload s =
     (case map_of (h2_streams s) stream_id of
        None \<Rightarrow> h2_fail s
      | Some st \<Rightarrow>
          if length (hs_header_block st) + length payload > MAX_STREAM_BYTES then h2_fail s
          else
            let s = s\<lparr>h2_streams :=
                      AList.update stream_id (st\<lparr>hs_header_block := hs_header_block st @ payload\<rparr>) (h2_streams s)\<rparr>
            in if flags AND F_END_HEADERS \<noteq> 0
               then finish_headers H stream_id (s\<lparr>h2_continuation := None\<rparr>) else s)"

definition data_fragment :: "u8 \<Rightarrow> bytes \<Rightarrow> bytes option" where
  "data_fragment flags payload =
     (case strip_padding flags payload of
        None \<Rightarrow> None
      | Some (pad, p) \<Rightarrow> if pad > length p then None else Some (take (length p - pad) p))"

definition on_data :: "u8 \<Rightarrow> u32 \<Rightarrow> bytes \<Rightarrow> ('d, 'e) h2_server \<Rightarrow> ('d, 'e) h2_server" where
  "on_data flags stream_id payload s =
     (case data_fragment flags payload of
        None \<Rightarrow> h2_fail s
      | Some p \<Rightarrow>
          (case map_of (h2_streams s) stream_id of
             None \<Rightarrow> s
           | Some st \<Rightarrow>
               if length (hs_body st) + length p > MAX_STREAM_BYTES then h2_fail s
               else
                 let st = st\<lparr>hs_body := hs_body st @ p\<rparr>;
                     st = (if flags AND F_END_STREAM \<noteq> 0 then st\<lparr>hs_end_stream := True\<rparr> else st)
                 in maybe_dispatch stream_id (s\<lparr>h2_streams := AList.update stream_id st (h2_streams s)\<rparr>)))"

definition on_frame :: "('d, 'e) hpack \<Rightarrow> u8 \<Rightarrow> u8 \<Rightarrow> u32 \<Rightarrow> bytes \<Rightarrow> ('d, 'e) h2_server \<Rightarrow> ('d, 'e) h2_server" where
  \<comment> \<open>a header block must be a contiguous run of \<open>HEADERS\<close> and \<open>CONTINUATION\<close>\<close>
  "on_frame H ty flags stream_id payload s =
     (if (case h2_continuation s of Some opened \<Rightarrow> ty \<noteq> T_CONTINUATION \<or> stream_id \<noteq> opened | None \<Rightarrow> False) then h2_fail s
      else if ty = T_SETTINGS then on_settings flags s
      else if ty = T_PING then on_ping flags payload s
      else if ty = T_HEADERS then on_headers H flags stream_id payload s
      else if ty = T_CONTINUATION then on_continuation H flags stream_id payload s
      else if ty = T_DATA then on_data flags stream_id payload s
      else if ty = T_RST_STREAM then s\<lparr>h2_streams := AList.delete stream_id (h2_streams s)\<rparr>
      else if ty = T_GOAWAY then h2_fail s
      else s)"

text \<open>No handler touches the input buffer or the connection preface.\<close>

definition h2_input :: "('d, 'e) h2_server \<Rightarrow> bytes \<times> bool \<times> bool" where
  "h2_input s = (h2_inbuf s, h2_preface_seen s, h2_settings_sent s)"

lemma h2_input_upd [simp]:
  "h2_input (s\<lparr>h2_streams := a\<rparr>) = h2_input s" "h2_input (s\<lparr>h2_dec := d, h2_streams := a\<rparr>) = h2_input s"
  "h2_input (s\<lparr>h2_continuation := c\<rparr>) = h2_input s" "h2_input (s\<lparr>h2_streams := a, h2_ready := r\<rparr>) = h2_input s"
  "h2_input (s\<lparr>h2_dec := d\<rparr>) = h2_input s" "h2_input (h2_fail s) = h2_input s" "h2_input (write_frame ty flags sid p s) = h2_input s"
  by (simp_all add: h2_input_def h2_fail_def write_frame_def)

lemma entry_input [simp]: "h2_input (snd (entry sid s)) = h2_input s"
  by (simp add: entry_def split: option.split)

lemma maybe_dispatch_input [simp]: "h2_input (maybe_dispatch sid s) = h2_input s"
  by (simp add: maybe_dispatch_def split: option.split)

lemma finish_headers_input [simp]: "h2_input (finish_headers H sid s) = h2_input s"
  by (simp add: finish_headers_def Let_def case_prod_unfold split: option.split)

lemma on_headers_input [simp]: "h2_input (on_headers H flags sid p s) = h2_input s"
  by (simp add: on_headers_def Let_def case_prod_unfold split: option.split)

lemma on_continuation_input [simp]: "h2_input (on_continuation H flags sid p s) = h2_input s"
  by (simp add: on_continuation_def Let_def split: option.split)

lemma on_data_input [simp]: "h2_input (on_data flags sid p s) = h2_input s"
  by (simp add: on_data_def Let_def split: option.split)

lemma on_frame_input [simp]: "h2_input (on_frame H ty flags sid p s) = h2_input s"
  by (simp add: on_frame_def on_settings_def on_ping_def)

lemma on_frame_fields [simp]:
  "h2_inbuf (on_frame H ty flags sid p s) = h2_inbuf s"
  "h2_preface_seen (on_frame H ty flags sid p s) = h2_preface_seen s"
  "h2_settings_sent (on_frame H ty flags sid p s) = h2_settings_sent s"
  using on_frame_input[of H ty flags sid p s] unfolding h2_input_def by simp_all

function parse_frames :: "('d, 'e) hpack \<Rightarrow> ('d, 'e) h2_server \<Rightarrow> ('d, 'e) h2_server" where
  "parse_frames H s =
     (if h2_failed s then s
      else case h2_next (h2_inbuf s) of
        Hn_Wait \<Rightarrow> s
      | Hn_Big \<Rightarrow> h2_fail s
      | Hn_Frame ty flags stream_id payload taken \<Rightarrow>
          parse_frames H (on_frame H ty flags stream_id payload (s\<lparr>h2_inbuf := drop taken (h2_inbuf s)\<rparr>)))"
  by pat_completeness auto
termination
  by (relation "measure (\<lambda>(_, s). length (h2_inbuf s))")
    (auto simp: h2_next_def Let_def FRAME_HEADER_def split: if_splits)

declare parse_frames.simps [simp del]

definition h2_greeting :: "('d, 'e) h2_server \<Rightarrow> ('d, 'e) h2_server" where
  \<comment> \<open>the server preface, before anything else\<close>
  "h2_greeting s =
     (if h2_settings_sent s then s
      else (write_frame T_WINDOW_UPDATE 0 0 (be32 0x7fff0000) (write_frame T_SETTINGS 0 0 [] s))
             \<lparr>h2_settings_sent := True\<rparr>)"

definition h2_receive :: "('d, 'e) hpack \<Rightarrow> ('d, 'e) h2_server \<Rightarrow> ('d, 'e) h2_server" where
  "h2_receive H s =
     (if h2_preface_seen s then parse_frames H s
      else if length (h2_inbuf s) < length PREFACE then s
      else if take (length PREFACE) (h2_inbuf s) \<noteq> PREFACE then h2_fail s
      else parse_frames H (s\<lparr>h2_preface_seen := True, h2_inbuf := drop (length PREFACE) (h2_inbuf s)\<rparr>))"

definition on_input :: "('d, 'e) hpack \<Rightarrow> bytes \<Rightarrow> ('d, 'e) h2_server \<Rightarrow> ('d, 'e) h2_server" where
  "on_input H data s =
     (if h2_failed s then s
      else
        let s = h2_greeting s
        in h2_receive H (s\<lparr>h2_inbuf := h2_inbuf s @ data\<rparr>))"


subsection \<open>How the stream is cut into reads does not matter\<close>

definition h2_settle :: "('d, 'e) h2_server \<Rightarrow> ('d, 'e) h2_server" where
  \<comment> \<open>a failed connection reads no more of its input\<close>
  "h2_settle s = (if h2_failed s then s\<lparr>h2_inbuf := []\<rparr> else s)"

text \<open>The handlers commute with the input buffer.\<close>

lemma inbuf_out:
  "h2_streams_update f (h2_inbuf_update g s) = h2_inbuf_update g (h2_streams_update f s)"
  "h2_dec_update d (h2_inbuf_update g s) = h2_inbuf_update g (h2_dec_update d s)"
  "h2_continuation_update c (h2_inbuf_update g s) = h2_inbuf_update g (h2_continuation_update c s)"
  "h2_out_update r (h2_inbuf_update g s) = h2_inbuf_update g (h2_out_update r s)"
  "h2_ready_update q (h2_inbuf_update g s) = h2_inbuf_update g (h2_ready_update q s)"
  "h2_failed_update b (h2_inbuf_update g s) = h2_inbuf_update g (h2_failed_update b s)"
  by (cases s; simp)+

lemma handlers_inbuf:
  "h2_fail (s\<lparr>h2_inbuf := x\<rparr>) = (h2_fail s)\<lparr>h2_inbuf := x\<rparr>"
  "write_frame ty flags sid p (s\<lparr>h2_inbuf := x\<rparr>) = (write_frame ty flags sid p s)\<lparr>h2_inbuf := x\<rparr>"
  "fst (entry sid (s\<lparr>h2_inbuf := x\<rparr>)) = fst (entry sid s)"
  "snd (entry sid (s\<lparr>h2_inbuf := x\<rparr>)) = (snd (entry sid s))\<lparr>h2_inbuf := x\<rparr>"
  by (simp_all add: h2_fail_def write_frame_def entry_def inbuf_out split: option.split)

lemma maybe_dispatch_inbuf: "maybe_dispatch sid (s\<lparr>h2_inbuf := x\<rparr>) = (maybe_dispatch sid s)\<lparr>h2_inbuf := x\<rparr>"
  by (simp add: maybe_dispatch_def inbuf_out split: option.split)

lemma finish_headers_inbuf: "finish_headers H sid (s\<lparr>h2_inbuf := x\<rparr>) = (finish_headers H sid s)\<lparr>h2_inbuf := x\<rparr>"
  by (simp add: finish_headers_def Let_def case_prod_unfold inbuf_out handlers_inbuf maybe_dispatch_inbuf split: option.split)

lemma on_headers_inbuf: "on_headers H fl sid p (s\<lparr>h2_inbuf := x\<rparr>) = (on_headers H fl sid p s)\<lparr>h2_inbuf := x\<rparr>"
  by (simp add: on_headers_def Let_def case_prod_unfold inbuf_out handlers_inbuf finish_headers_inbuf split: option.split)

lemma on_continuation_inbuf:
  "on_continuation H fl sid p (s\<lparr>h2_inbuf := x\<rparr>) = (on_continuation H fl sid p s)\<lparr>h2_inbuf := x\<rparr>"
  by (simp add: on_continuation_def Let_def inbuf_out handlers_inbuf finish_headers_inbuf split: option.split)

lemma on_data_inbuf: "on_data fl sid p (s\<lparr>h2_inbuf := x\<rparr>) = (on_data fl sid p s)\<lparr>h2_inbuf := x\<rparr>"
  by (simp add: on_data_def Let_def inbuf_out handlers_inbuf maybe_dispatch_inbuf split: option.split)

lemma on_frame_inbuf: "on_frame H ty fl sid p (s\<lparr>h2_inbuf := x\<rparr>) = (on_frame H ty fl sid p s)\<lparr>h2_inbuf := x\<rparr>"
  by (simp add: on_frame_def on_settings_def on_ping_def inbuf_out handlers_inbuf on_headers_inbuf on_continuation_inbuf
      on_data_inbuf)

lemma h2_next_append: "h2_next buf \<noteq> Hn_Wait \<Longrightarrow> h2_next (buf @ b) = h2_next buf"
  by (auto simp: h2_next_def Let_def nth_append FRAME_HEADER_def split: if_splits)

lemma h2_next_taken: "h2_next buf = Hn_Frame ty flags sid p n \<Longrightarrow> n \<le> length buf \<and> 9 \<le> n"
  by (auto simp: h2_next_def Let_def FRAME_HEADER_def split: if_splits)


lemma h2_settle_failed: "h2_failed s \<Longrightarrow> h2_settle (s\<lparr>h2_inbuf := x\<rparr>) = h2_settle s"
  by (simp add: h2_settle_def)

lemma parse_frames_append:
  "h2_settle (parse_frames H (s\<lparr>h2_inbuf := h2_inbuf s @ b\<rparr>)) =
     (let s' = parse_frames H s
      in if h2_failed s' then h2_settle s' else h2_settle (parse_frames H (s'\<lparr>h2_inbuf := h2_inbuf s' @ b\<rparr>)))"
proof (induction "length (h2_inbuf s)" arbitrary: s rule: less_induct)
  case less
  show ?case
  proof (cases "h2_failed s")
    case True
    then show ?thesis by (simp add: parse_frames.simps h2_settle_failed)
  next
    case False
    show ?thesis
    proof (cases "h2_next (h2_inbuf s)")
      case Hn_Wait
      with False show ?thesis by (simp add: parse_frames.simps[of H s])
    next
      case Hn_Big
      with False h2_next_append[of "h2_inbuf s" b] show ?thesis
        by (simp add: parse_frames.simps[of H s] parse_frames.simps[of H "s\<lparr>h2_inbuf := h2_inbuf s @ b\<rparr>"]
            handlers_inbuf h2_settle_def) (simp add: h2_fail_def)
    next
      case (Hn_Frame ty flags sid p n)
      let ?s1 = "on_frame H ty flags sid p (s\<lparr>h2_inbuf := drop n (h2_inbuf s)\<rparr>)"
      note n = h2_next_taken[OF Hn_Frame]
      have "length (h2_inbuf ?s1) < length (h2_inbuf s)" using n by simp linarith
      note ih = less.hyps[OF this]
      have "on_frame H ty flags sid p (s\<lparr>h2_inbuf := drop n (h2_inbuf s) @ b\<rparr>) = ?s1\<lparr>h2_inbuf := h2_inbuf ?s1 @ b\<rparr>"
        by (simp add: on_frame_inbuf)
      with Hn_Frame False n h2_next_append[of "h2_inbuf s" b] ih show ?thesis
        by (simp add: parse_frames.simps[of H s] parse_frames.simps[of H "s\<lparr>h2_inbuf := h2_inbuf s @ b\<rparr>"] Let_def)
    qed
  qed
qed


lemma parse_frames_flags:
  "h2_preface_seen (parse_frames H s) = h2_preface_seen s \<and> h2_settings_sent (parse_frames H s) = h2_settings_sent s"
proof (induction H s rule: parse_frames.induct)
  case (1 H s)
  show ?case
  proof (cases "h2_next (h2_inbuf s)")
    case (Hn_Frame ty flags sid p n)
    with 1 show ?thesis by (cases "h2_failed s") (simp_all add: parse_frames.simps[of H s])
  qed (simp_all add: parse_frames.simps[of H s] h2_fail_def)
qed

lemma h2_receive_flags: "h2_settings_sent (h2_receive H s) = h2_settings_sent s"
  by (simp add: h2_receive_def parse_frames_flags h2_fail_def)

lemma h2_receive_append:
  assumes live: "\<not> h2_failed s"
  shows "h2_settle (h2_receive H (s\<lparr>h2_inbuf := h2_inbuf s @ b\<rparr>)) =
     (let s' = h2_receive H s
      in if h2_failed s' then h2_settle s' else h2_settle (h2_receive H (s'\<lparr>h2_inbuf := h2_inbuf s' @ b\<rparr>)))"
proof (cases "h2_preface_seen s \<or> length (h2_inbuf s) < length PREFACE \<or> take (length PREFACE) (h2_inbuf s) \<noteq> PREFACE")
  case True
  moreover have ?thesis if "h2_preface_seen s"
    using that parse_frames_append[of H s b] by (simp add: h2_receive_def parse_frames_flags Let_def)
  moreover have ?thesis if "\<not> h2_preface_seen s" "length (h2_inbuf s) < length PREFACE"
    using that live by (simp add: h2_receive_def)
  moreover have ?thesis if "\<not> h2_preface_seen s" "\<not> length (h2_inbuf s) < length PREFACE"
      "take (length PREFACE) (h2_inbuf s) \<noteq> PREFACE"
    using that by (simp add: h2_receive_def h2_settle_def handlers_inbuf Let_def) (simp add: h2_fail_def)
  ultimately show ?thesis by blast
next
  case False
  let ?s = "s\<lparr>h2_preface_seen := True, h2_inbuf := drop (length PREFACE) (h2_inbuf s)\<rparr>"
  have "h2_preface_seen (parse_frames H ?s)" by (simp add: parse_frames_flags)
  with False parse_frames_append[of H ?s b] show ?thesis by (simp add: h2_receive_def Let_def)
qed

lemma on_input_append:
  "h2_settle (on_input H (a @ b) s) = h2_settle (on_input H b (h2_settle (on_input H a s)))"
proof (cases "h2_failed s")
  case True
  then show ?thesis by (simp add: on_input_def h2_settle_def)
next
  case False
  let ?s = "(h2_greeting s)\<lparr>h2_inbuf := h2_inbuf (h2_greeting s) @ a\<rparr>"
  have g: "h2_greeting (h2_receive H ?s) = h2_receive H ?s"
    by (simp add: h2_greeting_def h2_receive_flags)
  have f: "\<not> h2_failed (h2_greeting s)" using False by (simp add: h2_greeting_def write_frame_def)
  show ?thesis
    using h2_receive_append[of ?s H b] False f
    by (auto simp: on_input_def Let_def g h2_settle_def[of "h2_receive H ?s"] h2_settle_failed)
qed


interpretation h2s: stream_machine "\<lambda>s x. ([] :: unit list, h2_settle (on_input H x s))" "\<lambda>_ _. True"
  for H :: "('d, 'e) hpack"
  by unfold_locales (simp_all add: on_input_append)

lemma on_input_settle: "h2_settle (on_input H x (h2_settle s)) = h2_settle (on_input H x s)"
  by (simp add: on_input_def h2_settle_def)

lemma fold_on_input_settle:
  "h2_settle (fold (on_input H) xs s) = snd (feed_all (\<lambda>s x. ([] :: unit list, h2_settle (on_input H x s))) (h2_settle s) xs)"
  by (induction xs arbitrary: s) (simp_all add: on_input_settle case_prod_unfold Let_def)

text \<open>C19: the HTTP/2 server does not depend on how the stream is cut into reads. Fed read by read or at
  once, it produces the same bytes for the app, the same completed requests and the same state, header
  compression included, and fails on the same streams (what follows in the input of a failed connection
  is ignored).\<close>

theorem h2_segmentation:
  "h2_settle (fold (on_input H) (x # xs) s) = h2_settle (on_input H (concat (x # xs)) s)"
  using h2s.segmentation[of "x # xs" H "h2_settle s"] by (simp add: fold_on_input_settle on_input_settle del: concat.simps)

subsection \<open>Memory\<close>

definition stream_bounded :: "h2_stream \<Rightarrow> bool" where
  "stream_bounded st \<longleftrightarrow> length (hs_header_block st) \<le> MAX_STREAM_BYTES \<and> length (hs_body st) \<le> MAX_STREAM_BYTES"

definition streams_bounded :: "(u32, h2_stream) hash_map \<Rightarrow> bool" where
  "streams_bounded = list_all (\<lambda>(_, st). stream_bounded st)"

definition ready_bounded :: "h2_request list \<Rightarrow> bool" where
  "ready_bounded = list_all (\<lambda>r. length (hr_body r) \<le> MAX_STREAM_BYTES)"

lemma streams_bounded_update [simp]:
  "streams_bounded m \<Longrightarrow> stream_bounded st \<Longrightarrow> streams_bounded (AList.update k st m)"
  unfolding streams_bounded_def by (induction m) auto

lemma streams_bounded_delete [simp]: "streams_bounded m \<Longrightarrow> streams_bounded (AList.delete k m)"
  unfolding streams_bounded_def by (induction m) auto

lemma streams_bounded_get: "streams_bounded m \<Longrightarrow> map_of m k = Some st \<Longrightarrow> stream_bounded st"
  unfolding streams_bounded_def by (induction m) (auto split: if_splits)

lemma stream_bounded_fields [simp]:
  "stream_bounded (st\<lparr>hs_headers_done := b\<rparr>) = stream_bounded st" "stream_bounded (st\<lparr>hs_end_stream := b\<rparr>) = stream_bounded st"
  "stream_bounded st \<Longrightarrow> stream_bounded (st\<lparr>hs_header_block := []\<rparr>)"
  "stream_bounded st \<Longrightarrow> stream_bounded (st\<lparr>hs_header_block := [], hs_headers_done := b\<rparr>)"
  "stream_bounded st \<Longrightarrow> stream_bounded (st\<lparr>hs_dispatched := b, hs_body := []\<rparr>)" "stream_bounded stream_default"
  by (simp_all add: stream_bounded_def stream_default_def)

lemma stream_bounded_header_field: "stream_bounded (header_field nv st) = stream_bounded st"
  by (cases nv) (simp add: header_field_def stream_bounded_def Let_def del: asc_Cons)

lemma stream_bounded_header_fields [simp]: "stream_bounded (fold header_field hs st) = stream_bounded st"
  by (induction hs arbitrary: st) (simp_all add: stream_bounded_header_field)

definition held_bounded :: "('d, 'e) h2_server \<Rightarrow> bool" where
  "held_bounded s \<longleftrightarrow> streams_bounded (h2_streams s) \<and> ready_bounded (h2_ready s)"

lemma held_bounded_get: "held_bounded s \<Longrightarrow> map_of (h2_streams s) sid = Some st \<Longrightarrow> stream_bounded st"
  unfolding held_bounded_def by (rule streams_bounded_get) simp_all

lemma held_bounded_upd [simp]:
  "held_bounded (h2_fail s) = held_bounded s" "held_bounded (write_frame ty fl sid p s) = held_bounded s"
  "held_bounded (s\<lparr>h2_dec := d\<rparr>) = held_bounded s" "held_bounded (s\<lparr>h2_continuation := c\<rparr>) = held_bounded s"
  "held_bounded (s\<lparr>h2_inbuf := x\<rparr>) = held_bounded s" "held_bounded (s\<lparr>h2_enc := e\<rparr>) = held_bounded s"
  "held_bounded s \<Longrightarrow> stream_bounded st \<Longrightarrow> held_bounded (s\<lparr>h2_streams := AList.update sid st (h2_streams s)\<rparr>)"
  "held_bounded s \<Longrightarrow> stream_bounded st \<Longrightarrow>
     held_bounded (s\<lparr>h2_dec := d, h2_streams := AList.update sid st (h2_streams s)\<rparr>)"
  "held_bounded s \<Longrightarrow> held_bounded (s\<lparr>h2_streams := AList.delete sid (h2_streams s)\<rparr>)"
  by (simp_all add: held_bounded_def h2_fail_def write_frame_def)

lemma maybe_dispatch_bounded:
  assumes "held_bounded s"
  shows "held_bounded (maybe_dispatch sid s)"
proof (cases "map_of (h2_streams s) sid")
  case (Some st)
  from held_bounded_get[OF assms this] assms Some show ?thesis
    by (simp add: maybe_dispatch_def held_bounded_def ready_bounded_def) (simp add: stream_bounded_def)
qed (simp add: maybe_dispatch_def assms)

lemma finish_headers_bounded:
  assumes s: "held_bounded s"
  shows "held_bounded (finish_headers H sid s)"
proof (cases "map_of (h2_streams s) sid")
  case (Some st)
  note st = held_bounded_get[OF s Some]
  show ?thesis
    using s st Some
    by (cases "fst (hp_decode H (hs_header_block st) (h2_dec s))")
      (simp_all add: finish_headers_def Let_def case_prod_unfold maybe_dispatch_bounded)
qed (simp add: finish_headers_def s)

lemma entry_bounded: "held_bounded s \<Longrightarrow> held_bounded (snd (entry sid s)) \<and> stream_bounded (fst (entry sid s))"
  by (cases "map_of (h2_streams s) sid") (simp_all add: entry_def held_bounded_get)

lemma on_headers_bounded:
  assumes "held_bounded s"
  shows "held_bounded (on_headers H fl sid p s)"
proof (cases "headers_fragment fl p")
  case (Some x)
  obtain st s' where e: "entry sid s = (st, s')" by force
  with entry_bounded[OF assms, of sid] have "held_bounded s'" "stream_bounded st" by simp_all
  then show ?thesis
    using e Some assms
    by (auto simp: on_headers_def Let_def intro!: finish_headers_bounded held_bounded_upd(7)) (simp_all add: stream_bounded_def)
qed (simp add: on_headers_def assms)

lemma on_continuation_bounded:
  assumes "held_bounded s"
  shows "held_bounded (on_continuation H fl sid p s)"
proof (cases "map_of (h2_streams s) sid")
  case (Some st)
  with held_bounded_get[OF assms Some] assms show ?thesis
    by (auto simp: on_continuation_def Let_def stream_bounded_def intro!: finish_headers_bounded)
qed (simp add: on_continuation_def assms)

lemma on_data_bounded:
  assumes "held_bounded s"
  shows "held_bounded (on_data fl sid p s)"
proof (cases "data_fragment fl p")
  case (Some x)
  show ?thesis
  proof (cases "map_of (h2_streams s) sid")
    case st: (Some st)
    with held_bounded_get[OF assms st] assms Some show ?thesis
      by (auto simp: on_data_def Let_def stream_bounded_def intro!: maybe_dispatch_bounded)
  qed (simp add: on_data_def assms Some)
qed (simp add: on_data_def assms)

lemma on_frame_bounded: "held_bounded s \<Longrightarrow> held_bounded (on_frame H ty fl sid p s)"
  by (simp add: on_frame_def on_settings_def on_ping_def on_headers_bounded on_continuation_bounded on_data_bounded)

definition h2_bounded :: "('d, 'e) h2_server \<Rightarrow> bool" where
  "h2_bounded s \<longleftrightarrow> held_bounded s \<and> (h2_failed s \<or> length (h2_inbuf s) < FRAME_HEADER + MAX_STREAM_BYTES)"

lemma h2_wait_bound: "h2_next buf = Hn_Wait \<Longrightarrow> length buf < FRAME_HEADER + MAX_STREAM_BYTES"
  by (auto simp: h2_next_def Let_def split: if_splits)

lemma parse_frames_bounded: "held_bounded s \<Longrightarrow> h2_bounded (parse_frames H s)"
proof (induction H s rule: parse_frames.induct)
  case (1 H s)
  show ?case
  proof (cases "h2_next (h2_inbuf s)")
    case Hn_Wait
    with 1 h2_wait_bound[OF Hn_Wait] show ?thesis by (simp add: parse_frames.simps[of H s] h2_bounded_def)
  next
    case Hn_Big
    with 1 show ?thesis by (simp add: parse_frames.simps[of H s] h2_bounded_def) (simp add: h2_fail_def)
  next
    case (Hn_Frame ty flags sid p n)
    with 1 show ?thesis
      by (cases "h2_failed s") (simp_all add: parse_frames.simps[of H s] on_frame_bounded h2_bounded_def)
  qed
qed


lemma h2_receive_bounded:
  assumes s: "held_bounded s"
  shows "h2_bounded (h2_receive H s)"
proof -
  let ?s = "s\<lparr>h2_preface_seen := True, h2_inbuf := drop (length PREFACE) (h2_inbuf s)\<rparr>"
  have "held_bounded ?s" using s by (simp add: held_bounded_def)
  moreover have "length PREFACE \<le> FRAME_HEADER + MAX_STREAM_BYTES" by (simp add: PREFACE_def CRLF_def h2_constants)
  moreover have "h2_bounded (h2_fail s)" using s by (simp add: h2_bounded_def) (simp add: h2_fail_def)
  ultimately show ?thesis
    using s unfolding h2_receive_def by (simp add: parse_frames_bounded) (simp add: h2_bounded_def)
qed

lemma on_input_bounded:
  assumes "h2_bounded s"
  shows "h2_bounded (on_input H data s)"
proof -
  have "held_bounded (h2_greeting s)"
    using assms by (simp add: h2_bounded_def h2_greeting_def held_bounded_def write_frame_def)
  with assms show ?thesis by (simp add: on_input_def Let_def h2_receive_bounded)
qed

lemma write_data_out:
  "write_data sid rest s = s\<lparr>h2_out := h2_out (write_data sid rest s)\<rparr>"
proof (induction sid rest s rule: write_data.induct)
  case (1 sid rest s)
  show ?case
  proof (cases "rest = []")
    case False
    with 1 show ?thesis by (subst (1 2) write_data.simps) (simp add: write_frame_def)
  qed (simp add: write_data.simps)
qed

lemma respond_frame:
  "h2_streams (respond H sid status ct body s) = AList.delete sid (h2_streams s)"
  "h2_ready (respond H sid status ct body s) = h2_ready s" "h2_failed (respond H sid status ct body s) = h2_failed s"
  "h2_inbuf (respond H sid status ct body s) = h2_inbuf s"
  unfolding respond_def Let_def case_prod_unfold by (subst write_data_out; simp add: write_frame_def)+

lemma respond_bounded: "h2_bounded s \<Longrightarrow> h2_bounded (respond H sid status ct body s)"
  by (simp add: h2_bounded_def held_bounded_def respond_frame)

datatype h2_op = H2_Input bytes | H2_Respond u32 nat bytes bytes | H2_TakeOut | H2_TakeRequests

fun h2_apply :: "('d, 'e) hpack \<Rightarrow> h2_op \<Rightarrow> ('d, 'e) h2_server \<Rightarrow> ('d, 'e) h2_server" where
  "h2_apply H (H2_Input data) s = on_input H data s"
| "h2_apply H (H2_Respond sid status ct body) s = respond H sid status ct body s"
| "h2_apply H H2_TakeOut s = snd (take_out s)"
| "h2_apply H H2_TakeRequests s = snd (take_requests s)"


subsection \<open>Responses\<close>

text \<open>The frames a peer reads off a stream.\<close>

function frames_of :: "bytes \<Rightarrow> (u8 \<times> u8 \<times> u32 \<times> bytes) list \<times> bytes" where
  "frames_of buf =
     (case h2_next buf of
        Hn_Frame ty flags sid p n \<Rightarrow> (let (fs, rest) = frames_of (drop n buf) in ((ty, flags, sid, p) # fs, rest))
      | _ \<Rightarrow> ([], buf))"
  by pat_completeness auto
termination
  by (relation "measure length") (auto dest: h2_next_taken)

declare frames_of.simps [simp del]

lemma split_256: "n = n div 256 * 256 + n mod (256 :: nat)"
  by simp

lemma digits_256:
  "n div 256 div 256 * 65536 + n div 256 mod 256 * 256 + n mod 256 = (n :: nat)"
  "n div 256 div 256 div 256 * 16777216 + n div 256 div 256 mod 256 * 65536 + n div 256 mod 256 * 256 + n mod 256 = n"
proof -
  have horner: "x = y * 256 + c \<Longrightarrow> y = z * 256 + b \<Longrightarrow> z * 65536 + b * 256 + c = x" for x y z b c :: nat by simp
  show "n div 256 div 256 * 65536 + n div 256 mod 256 * 256 + n mod 256 = n"
    by (rule horner[OF split_256 split_256])
  have horner: "x = y * 256 + d \<Longrightarrow> y = z * 256 + c \<Longrightarrow> z = u * 256 + b \<Longrightarrow>
      u * 16777216 + b * 65536 + c * 256 + d = x" for x y z u b c d :: nat by simp
  show "n div 256 div 256 div 256 * 16777216 + n div 256 div 256 mod 256 * 65536 + n div 256 mod 256 * 256 + n mod 256 = n"
    by (rule horner[OF split_256 split_256 split_256])
qed

lemma be24n_length: "n < 2 ^ 24 \<Longrightarrow> be24n (word_of_nat (n div 2 ^ 16)) (word_of_nat (n div 2 ^ 8)) (word_of_nat n) = n"
proof -
  assume "n < 2 ^ 24"
  then have "n div 256 div 256 < 256" by (simp add: div_less_iff_less_mult)
  then show ?thesis
    unfolding be24n_def unat_word_of_nat_u8 by (simp add: div_mult2_eq[of n 256 256, simplified] digits_256)
qed

lemma be32w_be32:
  assumes "be32 w = [a, b, c, d]"
  shows "be32w a b c d = w"
proof -
  let ?n = "unat w"
  have "?n div 256 div 256 div 256 < 256" using unat_u32_less[of w] by (simp add: div_less_iff_less_mult)
  then have "unat a = ?n div 256 div 256 div 256" "unat b = ?n div 256 div 256 mod 256" "unat c = ?n div 256 mod 256"
    "unat d = ?n mod 256"
    using assms unfolding be32_def
    by (auto simp: unat_word_of_nat_u8 div_mult2_eq[of ?n 256 65536, simplified] div_mult2_eq[of ?n 256 256, simplified]
        div_mult2_eq[of "?n div 256" 256 256, simplified] simp del: of_nat_unat)
  then have "unat a * 2 ^ 24 + unat b * 2 ^ 16 + unat c * 2 ^ 8 + unat d = ?n"
    using digits_256(2)[of ?n] by simp
  then show ?thesis by (simp add: be32w_def)
qed

lemma h2_next_frame:
  assumes "length p \<le> MAX_STREAM_BYTES"
  shows "h2_next (frame_bytes ty flags sid p @ rest) = Hn_Frame ty flags (sid AND 0x7fffffff) p (9 + length p)"
proof -
  obtain a b c d where w: "be32 (sid AND 0x7fffffff) = [a, b, c, d]" by (simp add: be32_def)
  have n: "be24n (word_of_nat (length p div 2 ^ 16)) (word_of_nat (length p div 2 ^ 8)) (word_of_nat (length p)) = length p"
    using assms by (intro be24n_length) (simp add: MAX_STREAM_BYTES_def)
  show ?thesis using assms n be32w_be32[OF w]
    by (simp add: h2_next_def frame_bytes_def w Let_def FRAME_HEADER_def ac_simps)
qed


lemma frames_of_Nil [simp]: "frames_of [] = ([], [])"
  by (subst frames_of.simps) (simp add: h2_next_def FRAME_HEADER_def)

lemma frames_of_frame:
  assumes "length p \<le> MAX_STREAM_BYTES"
  shows "frames_of (frame_bytes ty flags sid p @ rest) =
    ((ty, flags, sid AND 0x7fffffff, p) # fst (frames_of rest), snd (frames_of rest))"
proof -
  have "length (frame_bytes ty flags sid p) = 9 + length p" by (simp add: frame_bytes_def Let_def)
  then show ?thesis
    using h2_next_frame[OF assms, of ty flags sid rest]
    by (subst frames_of.simps) (simp add: case_prod_unfold Let_def)
qed

function data_chunks :: "bytes \<Rightarrow> (u8 \<times> bytes) list" where
  "data_chunks body =
     (if body = [] then []
      else (if length body \<le> MAX_FRAME then F_END_STREAM else 0, take MAX_FRAME body) # data_chunks (drop MAX_FRAME body))"
  by pat_completeness auto
termination
  by (relation "measure length") (auto simp: MAX_FRAME_def)

declare data_chunks.simps [simp del]

lemma write_data_chunks:
  "h2_out (write_data sid body s) = h2_out s @ concat (map (\<lambda>(fl, p). frame_bytes T_DATA fl sid p) (data_chunks body))"
proof (induction sid body s rule: write_data.induct)
  case (1 sid rest s)
  show ?case
  proof (cases "rest = []")
    case False
    with 1 show ?thesis by (subst write_data.simps, subst data_chunks.simps) (simp add: write_frame_def)
  qed (simp add: write_data.simps data_chunks.simps)
qed

lemma data_chunks_body:
  "concat (map snd (data_chunks body)) = body \<and> list_all (\<lambda>(fl, p). p \<noteq> [] \<and> length p \<le> MAX_FRAME) (data_chunks body)
   \<and> map fst (data_chunks body) = (if body = [] then [] else replicate (length (data_chunks body) - 1) 0 @ [F_END_STREAM])"
proof (induction body rule: data_chunks.induct)
  case (1 body)
  let ?rest = "drop MAX_FRAME body"
  show ?case
  proof (cases "body = []")
    case True
    then show ?thesis by (simp add: data_chunks.simps)
  next
    case False
    note d = data_chunks.simps[of body]
    have "data_chunks ?rest = [] \<longleftrightarrow> length body \<le> MAX_FRAME" by (subst data_chunks.simps) simp
    moreover have "MAX_FRAME > 0" by (simp add: MAX_FRAME_def)
    ultimately show ?thesis
      using 1[OF False] False unfolding d
      by (cases "data_chunks ?rest") (simp_all split: if_splits)
  qed
qed

lemma frames_of_data:
  "list_all (\<lambda>(fl, p). length p \<le> MAX_STREAM_BYTES) cs \<Longrightarrow>
   frames_of (concat (map (\<lambda>(fl, p). frame_bytes T_DATA fl sid p) cs)) =
     (map (\<lambda>(fl, p). (T_DATA, fl, sid AND 0x7fffffff, p)) cs, [])"
  by (induction cs) (auto simp: frames_of_frame)

text \<open>A response is framed correctly. Read back by a peer, what \<open>respond\<close> appends to the output is
  one HEADERS frame with the encoded fields and then the body, whole and in order, in DATA frames that are
  not empty and not larger than 16,384 bytes; exactly the last frame ends the stream.\<close>

theorem response_is_framed:
  assumes "hp_encode H (response_headers status ct body) (h2_enc s) = (block, e')" and "length block \<le> 65536"
    and "sid AND 0x7fffffff = sid"
  shows "\<exists>datas. frames_of (drop (length (h2_out s)) (h2_out (respond H sid status ct body s))) =
        ((T_HEADERS, F_END_HEADERS OR (if body = [] then F_END_STREAM else 0), sid, block)
           # map (\<lambda>(fl, p). (T_DATA, fl, sid, p)) datas, [])
    \<and> concat (map snd datas) = body
    \<and> list_all (\<lambda>(fl, p). p \<noteq> [] \<and> length p \<le> 16384) datas
    \<and> map fst datas = (if body = [] then [] else replicate (length datas - 1) 0 @ [F_END_STREAM])"
proof (intro exI[of _ "data_chunks body"] conjI)
  have small: "list_all (\<lambda>(fl, p). length p \<le> MAX_STREAM_BYTES) (data_chunks body)"
    using data_chunks_body[of body] by (auto simp: list_all_iff MAX_FRAME_def MAX_STREAM_BYTES_def)
  let ?flags = "if body = [] then F_END_HEADERS OR F_END_STREAM else F_END_HEADERS"
  have "h2_out (respond H sid status ct body s) = h2_out s @ frame_bytes T_HEADERS ?flags sid block
      @ concat (map (\<lambda>(fl, p). frame_bytes T_DATA fl sid p) (data_chunks body))"
    using assms(1) by (simp add: respond_def Let_def write_data_chunks) (simp add: write_frame_def)
  moreover have "?flags = F_END_HEADERS OR (if body = [] then F_END_STREAM else 0)" by simp
  ultimately show "frames_of (drop (length (h2_out s)) (h2_out (respond H sid status ct body s))) =
      ((T_HEADERS, F_END_HEADERS OR (if body = [] then F_END_STREAM else 0), sid, block)
           # map (\<lambda>(fl, p). (T_DATA, fl, sid, p)) (data_chunks body), [])"
    using assms(2,3) frames_of_data[OF small, of sid]
    by (simp add: frames_of_frame MAX_STREAM_BYTES_def)
qed (use data_chunks_body[of body] in \<open>auto simp: MAX_FRAME_def\<close>)

text \<open>A header coding for the witnesses: fields separated by zero bytes, no dynamic table.\<close>

fun demo_fields :: "bytes list \<Rightarrow> headers" where
  "demo_fields (n # v # rest) = (n, v) # demo_fields rest"
| "demo_fields _ = []"

definition demo_hpack :: "(unit, unit) hpack" where
  "demo_hpack =
     \<lparr>hp_dec_new = (), hp_decode = (\<lambda>b d. (Some (demo_fields (split_on 0 b)), d)), hp_enc_new = (),
      hp_encode = (\<lambda>hs e. (concat (map (\<lambda>(n, v). n @ [0] @ v @ [0]) hs), e))\<rparr>"

lemma response_is_framed_witness:
  "\<exists>datas. frames_of (h2_out (respond demo_hpack 1 200 [] [7, 7] (h2_new demo_hpack))) =
        ((T_HEADERS, F_END_HEADERS, 1, fst (hp_encode demo_hpack (response_headers 200 [] [7, 7]) ()))
           # map (\<lambda>(fl, p). (T_DATA, fl, 1, p)) datas, [])
    \<and> concat (map snd datas) = [7, 7]"
  using response_is_framed[of demo_hpack 200 "[]" "[7, 7]" "h2_new demo_hpack"
      "fst (hp_encode demo_hpack (response_headers 200 [] [7, 7]) ())" "()" 1]
  by (auto simp: demo_hpack_def h2_new_def response_headers_def dec_str_def to_radix.simps)

end
