(* ===== verification/Doh_Stream.thy ===== *)
theory Doh_Stream
  imports H2_Server Doh_Request
begin

section \<open>The encrypted-DNS filter of one flow\<close>

text \<open>
  The rest of \<open>rust/tls/src/dns.rs\<close>: DoH for clients that speak HTTP/2 (\<open>Doh::h2_feed\<close>), the parser of
  the resolver's HTTP/1.1 answers (\<open>H1Responses\<close>), and \<open>DnsStream\<close>, which dispatches between DoT, DoH
  over HTTP/1.1 and DoH over HTTP/2. The fields \<open>app_buf\<close>, \<open>authority\<close> and \<open>h1_passthrough\<close> of \<open>Doh\<close>
  are the record \<open>doh\<close> of the HTTP/1.1 side. The outer \<open>option\<close> of an operation is a panic.
\<close>

subsection \<open>Requests to the resolver\<close>

definition get_path :: "bytes \<Rightarrow> bytes \<Rightarrow> bytes \<Rightarrow> bytes" where
  "get_path authority path accept =
     (let path = (if path = [] then asc ''/dns-query'' else path)
      in asc ''GET '' @ path @ asc '' HTTP/1.1'' @ CRLF @ asc ''Host: '' @ authority @ CRLF
         @ asc ''Accept: '' @ accept @ CRLF @ asc ''Connection: keep-alive'' @ CRLF @ CRLF)"

definition dns_message_type :: bytes where "dns_message_type = asc ''application/dns-message''"
definition dns_json_type :: bytes where "dns_json_type = asc ''application/dns-json''"

definition reconstruct :: "bytes \<Rightarrow> h2_request \<Rightarrow> bytes" where
  "reconstruct authority r =
     (if eq_ignore_case (hr_method r) (asc ''POST'') then
        asc ''POST '' @ hr_path r @ asc '' HTTP/1.1'' @ CRLF @ asc ''Host: '' @ authority @ CRLF
        @ asc ''Content-Type: '' @ (if hr_content_type r = [] then dns_message_type else hr_content_type r) @ CRLF
        @ asc ''Content-Length: '' @ dec_str (length (hr_body r)) @ CRLF
        @ asc ''Connection: keep-alive'' @ CRLF @ CRLF @ hr_body r
      else get_path authority (hr_path r) dns_message_type)"

subsection \<open>The resolver's answers\<close>

record up_response =
  ur_status :: nat
  ur_content_type :: bytes
  ur_body :: bytes

record body_acc =
  ba_status :: nat
  ba_content_type :: bytes
  ba_framing :: framing
  ba_cap :: body_cap \<comment> \<open>\<open>captured\<close>, \<open>wire\<close>, \<open>trunc\<close>\<close>

record h1_responses =
  h1_buf :: bytes
  h1_body :: "body_acc option"

definition h1_new :: h1_responses where
  "h1_new = \<lparr>h1_buf = [], h1_body = None\<rparr>"

definition consume_body :: "framing \<Rightarrow> bytes \<Rightarrow> body_cap \<Rightarrow> body_step \<times> framing \<times> bytes \<times> body_cap" where
  \<comment> \<open>unlike the tap's reader, without a cap on a length-framed or close-framed body\<close>
  "consume_body fr buf c =
     (case fr of
        Fr_Length remaining \<Rightarrow>
          if remaining = 0 then (Body_Done, fr, buf, c)
          else
            let n = min remaining (length buf);
                c' = (if n > 0 then c\<lparr>bc_captured := bc_captured c @ take n buf, bc_wire := bc_wire c + n\<rparr> else c);
                remaining' = remaining - n
            in (if remaining' = 0 then Body_Done else Body_NeedMore, Fr_Length remaining', drop n buf, c')
      | Fr_Chunked st \<Rightarrow>
          (let (step, st', buf', c') = chunk_consume st buf c in (step, Fr_Chunked st', buf', c'))
      | Fr_UntilClose \<Rightarrow> (Body_NeedMore, fr, [], c\<lparr>bc_captured := bc_captured c @ buf\<rparr>))"

datatype h1_head =
    Hd_Wait
  | Hd_Bad bytes \<comment> \<open>the head is gone from the buffer, the loop ends\<close>
  | Hd_Done up_response bytes
  | Hd_Body body_acc bytes

definition h1_take_head :: "bytes \<Rightarrow> h1_head" where
  "h1_take_head buf =
     (case find_header_end buf of
        None \<Rightarrow> Hd_Wait
      | Some hend \<Rightarrow>
          let rest = drop hend buf
          in case parse_head_fields (take hend buf) of
               None \<Rightarrow> Hd_Bad rest
             | Some (start, hs) \<Rightarrow>
                 (case parse_status_line start of
                    None \<Rightarrow> Hd_Bad rest
                  | Some (_, status, _) \<Rightarrow>
                      let ct = or_empty (header hs (asc ''content-type''))
                      in case response_framing status False hs of
                           None \<Rightarrow> Hd_Done \<lparr>ur_status = status, ur_content_type = ct, ur_body = []\<rparr> rest
                         | Some fr \<Rightarrow>
                             Hd_Body \<lparr>ba_status = status, ba_content_type = ct, ba_framing = fr, ba_cap = body_cap_new\<rparr> rest))"

lemma h1_take_head_shrinks:
  "h1_take_head buf = Hd_Bad rest \<Longrightarrow> length rest < length buf"
  "h1_take_head buf = Hd_Done r rest \<Longrightarrow> length rest < length buf"
  "h1_take_head buf = Hd_Body acc rest \<Longrightarrow> length rest < length buf"
  by (auto simp: h1_take_head_def Let_def find_header_end_def dest: find_sub_bound split: option.splits prod.splits)

definition h1_consume :: "body_acc \<Rightarrow> bytes \<Rightarrow> body_step \<times> body_acc \<times> bytes" where
  "h1_consume acc buf =
     (let (step, fr, buf', c) = consume_body (ba_framing acc) buf (ba_cap acc)
      in (step, acc\<lparr>ba_framing := fr, ba_cap := c\<rparr>, buf'))"

definition response_of_acc :: "body_acc \<Rightarrow> up_response" where
  "response_of_acc acc =
     \<lparr>ur_status = ba_status acc, ur_content_type = ba_content_type acc, ur_body = bc_captured (ba_cap acc)\<rparr>"

lemma h1_consume_shorter: "h1_consume acc buf = (step, acc', buf') \<Longrightarrow> length buf' \<le> length buf"
  by (auto simp: h1_consume_def consume_body_def Let_def dest: chunk_consume_shrinks
      split: framing.splits prod.splits if_splits)

function h1_loop :: "h1_responses \<Rightarrow> up_response list \<Rightarrow> h1_responses \<times> up_response list" where
  "h1_loop s out =
     (case (case h1_body s of Some acc \<Rightarrow> Hd_Body acc (h1_buf s) | None \<Rightarrow> h1_take_head (h1_buf s)) of
        Hd_Wait \<Rightarrow> (s, out)
      | Hd_Bad rest \<Rightarrow> (s\<lparr>h1_buf := rest\<rparr>, out)
      | Hd_Done r rest \<Rightarrow> h1_loop (s\<lparr>h1_buf := rest\<rparr>) (out @ [r])
      | Hd_Body acc rest \<Rightarrow>
          (case h1_consume acc rest of (step, acc', rest') \<Rightarrow>
             (case step of
                Body_Done \<Rightarrow> h1_loop \<lparr>h1_buf = rest', h1_body = None\<rparr> (out @ [response_of_acc acc'])
              | Body_NeedMore \<Rightarrow> (\<lparr>h1_buf = rest', h1_body = Some acc'\<rparr>, out)
              | Body_Error \<Rightarrow> (\<lparr>h1_buf = rest', h1_body = None\<rparr>, out))))"
  by pat_completeness auto
termination
proof (relation "measures [\<lambda>(s, _). length (h1_buf s), \<lambda>(s, _). if h1_body s = None then 0 else 1]", goal_cases)
  case (2 s out r rest)
  then show ?case by (auto dest: h1_take_head_shrinks split: option.splits)
next
  case (3 s out acc rest step p acc' rest')
  then have "length rest' \<le> length rest" using h1_consume_shorter[of acc rest step acc' rest'] by simp
  with 3(1) show ?case by (auto dest!: h1_take_head_shrinks(3) split: option.splits)
qed simp

declare h1_loop.simps [simp del]

definition h1_feed :: "bytes \<Rightarrow> h1_responses \<Rightarrow> h1_responses \<times> up_response list" where
  "h1_feed data s = h1_loop (s\<lparr>h1_buf := h1_buf s @ data\<rparr>) []"


subsection \<open>DoH\<close>

record ('d, 'e) doh_flow =
  df_proto :: "doh_proto option" \<comment> \<open>\<open>None\<close> while undecided\<close>
  df_h1 :: doh
  df_h2 :: "('d, 'e) h2_server option"
  df_up :: h1_responses
  df_pending :: "u32 list"

definition doh_flow_new :: "('d, 'e) doh_flow" where
  "doh_flow_new = \<lparr>df_proto = None, df_h1 = doh_new, df_h2 = None, df_up = h1_new, df_pending = []\<rparr>"

record ('d, 'e) h2_work =
  \<comment> \<open>what the loop over the completed requests carries\<close>
  wk_h2 :: "('d, 'e) h2_server"
  wk_authority :: bytes
  wk_pending :: "u32 list"
  wk_blocked :: "bytes list"
  wk_out :: dns_cross

definition work_answer ::
  "('d, 'e) hpack \<Rightarrow> u32 \<Rightarrow> bytes \<Rightarrow> bytes \<Rightarrow> bytes \<Rightarrow> ('d, 'e) h2_work \<Rightarrow> ('d, 'e) h2_work" where
  "work_answer H sid name ct body w =
     w\<lparr>wk_blocked := wk_blocked w @ [name], wk_h2 := respond H sid 200 ct body (wk_h2 w)\<rparr>"

definition work_forward :: "u32 \<Rightarrow> bytes \<Rightarrow> ('d, 'e) h2_work \<Rightarrow> ('d, 'e) h2_work" where
  "work_forward sid req w = w\<lparr>wk_out := to_upstream req (wk_out w), wk_pending := wk_pending w @ [sid]\<rparr>"

definition h2_one_request ::
  "('d, 'e) hpack \<Rightarrow> (bytes \<Rightarrow> bool) \<Rightarrow> h2_request \<Rightarrow> ('d, 'e) h2_work \<Rightarrow> ('d, 'e) h2_work option" where
  "h2_one_request H isb r w =
     (let w = (if wk_authority w = [] \<and> hr_authority r \<noteq> [] then w\<lparr>wk_authority := hr_authority r\<rparr> else w);
          sid = hr_stream_id r
      in case extract_query (hr_method r) (hr_path r) (hr_content_type r) (hr_body r) of
           Ex_Wire wire \<Rightarrow> do {
             b \<leftarrow> block_wire isb wire;
             case b of
               Some (name, answer) \<Rightarrow> Some (work_answer H sid name dns_message_type answer w)
             | None \<Rightarrow> Some (work_forward sid (post_wire (wk_authority w) (hr_path r) wire) w)
           }
         | Ex_JsonName name \<Rightarrow>
             if isb name then Some (work_answer H sid name dns_json_type (json_nxdomain name) w)
             else Some (work_forward sid (get_path (wk_authority w) (hr_path r) dns_json_type) w)
         | Ex_Unknown \<Rightarrow> Some (work_forward sid (reconstruct (wk_authority w) r) w))"

fun h2_requests ::
  "('d, 'e) hpack \<Rightarrow> (bytes \<Rightarrow> bool) \<Rightarrow> h2_request list \<Rightarrow> ('d, 'e) h2_work \<Rightarrow> ('d, 'e) h2_work option" where
  "h2_requests H isb [] w = Some w"
| "h2_requests H isb (r # rs) w = do { w \<leftarrow> h2_one_request H isb r w; h2_requests H isb rs w }"

definition h2_feed ::
  "('d, 'e) hpack \<Rightarrow> (bytes \<Rightarrow> bool) \<Rightarrow> ('d, 'e) doh_flow \<Rightarrow> bytes \<Rightarrow> bytes list \<Rightarrow> dns_cross \<Rightarrow>
   (('d, 'e) doh_flow \<times> bytes list \<times> dns_cross) option" where
  "h2_feed H isb d data blocked out =
     (case df_h2 d of
        None \<Rightarrow> Some (d, blocked, out)
      | Some h2 \<Rightarrow>
          let h2 = on_input H data h2
          in if h2_failed h2 then
               (let (bytes, h2) = take_out h2 in Some (d\<lparr>df_h2 := Some h2\<rparr>, blocked, to_app bytes out))
             else
               let (reqs, h2) = take_requests h2
               in do {
                 w \<leftarrow> h2_requests H isb reqs
                   \<lparr>wk_h2 = h2, wk_authority = doh_authority (df_h1 d), wk_pending = df_pending d,
                    wk_blocked = blocked, wk_out = out\<rparr>;
                 let (bytes, h2) = take_out (wk_h2 w);
                 Some (d\<lparr>df_h1 := (df_h1 d)\<lparr>doh_authority := wk_authority w\<rparr>, df_h2 := Some h2,
                          df_pending := wk_pending w\<rparr>,
                       wk_blocked w, to_app bytes (wk_out w))
               })"

definition h1_side ::
  "(bytes \<Rightarrow> bool) \<Rightarrow> ('d, 'e) doh_flow \<Rightarrow> bytes \<Rightarrow> bytes list \<Rightarrow> dns_cross \<Rightarrow>
   (('d, 'e) doh_flow \<times> bytes list \<times> dns_cross) option" where
  "h1_side isb d data blocked out =
     map_option (\<lambda>(h1, blocked, out). (d\<lparr>df_h1 := h1\<rparr>, blocked, out)) (doh_h1_feed isb (df_h1 d) data blocked out)"

definition doh_on_app_data ::
  "('d, 'e) hpack \<Rightarrow> (bytes \<Rightarrow> bool) \<Rightarrow> ('d, 'e) doh_flow \<Rightarrow> bytes \<Rightarrow> bytes list \<Rightarrow> dns_cross \<Rightarrow>
   (('d, 'e) doh_flow \<times> bytes list \<times> dns_cross) option" where
  "doh_on_app_data H isb d data blocked out =
     (case df_proto d of
        None \<Rightarrow>
          let buf = doh_buf (df_h1 d) @ data; d = d\<lparr>df_h1 := (df_h1 d)\<lparr>doh_buf := buf\<rparr>\<rparr>
          in (case decide_proto buf of
                Some Doh_H2 \<Rightarrow>
                  h2_feed H isb (d\<lparr>df_proto := Some Doh_H2, df_h2 := Some (h2_new H), df_h1 := (df_h1 d)\<lparr>doh_buf := []\<rparr>\<rparr>)
                    buf blocked out
              | Some Doh_H1 \<Rightarrow> h1_side isb (d\<lparr>df_proto := Some Doh_H1\<rparr>) [] blocked out
              | None \<Rightarrow> Some (d, blocked, out))
      | Some Doh_H2 \<Rightarrow> h2_feed H isb d data blocked out
      | Some Doh_H1 \<Rightarrow> h1_side isb d data blocked out)"

fun relay_responses ::
  "('d, 'e) hpack \<Rightarrow> up_response list \<Rightarrow> u32 list \<Rightarrow> ('d, 'e) h2_server \<Rightarrow> u32 list \<times> ('d, 'e) h2_server" where
  "relay_responses H (r # rs) (sid # pending) h2 =
     relay_responses H rs pending
       (respond H sid (ur_status r) (if ur_content_type r = [] then dns_message_type else ur_content_type r) (ur_body r) h2)"
| "relay_responses H rs pending h2 = (pending, h2)"

definition doh_on_upstream_data ::
  "('d, 'e) hpack \<Rightarrow> ('d, 'e) doh_flow \<Rightarrow> bytes \<Rightarrow> bytes \<times> ('d, 'e) doh_flow" where
  "doh_on_upstream_data H d data =
     (if df_proto d \<noteq> Some Doh_H2 then (data, d)
      else
        let (up, responses) = h1_feed data (df_up d); d = d\<lparr>df_up := up\<rparr>
        in case df_h2 d of
             None \<Rightarrow> ([], d)
           | Some h2 \<Rightarrow>
               let (pending, h2) = relay_responses H responses (df_pending d) h2; (bytes, h2) = take_out h2
               in (bytes, d\<lparr>df_pending := pending, df_h2 := Some h2\<rparr>))"

subsection \<open>The filter of a flow\<close>

datatype ('d, 'e) dns_inner = In_Dot dot | In_Doh "('d, 'e) doh_flow"

record ('d, 'e) dns_stream =
  dn_blocked :: "bytes list"
  dn_inner :: "('d, 'e) dns_inner"

definition dns_stream_new :: "dns_kind \<Rightarrow> ('d, 'e) dns_stream" where
  "dns_stream_new kind =
     \<lparr>dn_blocked = [], dn_inner = (case kind of Kind_Dot \<Rightarrow> In_Dot dot_new | Kind_Doh \<Rightarrow> In_Doh doh_flow_new)\<rparr>"

definition take_blocked :: "('d, 'e) dns_stream \<Rightarrow> bytes list \<times> ('d, 'e) dns_stream" where
  "take_blocked s = (dn_blocked s, s\<lparr>dn_blocked := []\<rparr>)"

definition on_app_data ::
  "('d, 'e) hpack \<Rightarrow> (bytes \<Rightarrow> bool) \<Rightarrow> bytes \<Rightarrow> ('d, 'e) dns_stream \<Rightarrow> (dns_cross \<times> ('d, 'e) dns_stream) option" where
  "on_app_data H isb data s =
     (case dn_inner s of
        In_Dot dot \<Rightarrow> do {
          (dot, blocked, out) \<leftarrow> dot_on_app_data isb dot data (dn_blocked s) dns_cross_new;
          Some (out, \<lparr>dn_blocked = blocked, dn_inner = In_Dot dot\<rparr>)
        }
      | In_Doh doh \<Rightarrow> do {
          (doh, blocked, out) \<leftarrow> doh_on_app_data H isb doh data (dn_blocked s) dns_cross_new;
          Some (out, \<lparr>dn_blocked = blocked, dn_inner = In_Doh doh\<rparr>)
        })"

definition on_upstream_data :: "('d, 'e) hpack \<Rightarrow> bytes \<Rightarrow> ('d, 'e) dns_stream \<Rightarrow> bytes \<times> ('d, 'e) dns_stream" where
  "on_upstream_data H data s =
     (case dn_inner s of
        In_Dot _ \<Rightarrow> (data, s)
      | In_Doh doh \<Rightarrow> (let (out, doh) = doh_on_upstream_data H doh data in (out, s\<lparr>dn_inner := In_Doh doh\<rparr>)))"


subsection \<open>What the HTTP/2 side forwards and answers\<close>

definition request_query :: "h2_request \<Rightarrow> extracted" where
  "request_query r = extract_query (hr_method r) (hr_path r) (hr_content_type r) (hr_body r)"

definition request_block :: "(bytes \<Rightarrow> bool) \<Rightarrow> h2_request \<Rightarrow> (bytes \<times> bytes \<times> bytes) option" where
  \<comment> \<open>the reported name, the content type and the body of the answer to a blocked query\<close>
  "request_block isb r =
     (case request_query r of
        Ex_Wire w \<Rightarrow>
          (case parse_query w of
             Some (Some q) \<Rightarrow>
               if isb (q_name q) then Some (q_name q, dns_message_type, response_of w (q_end q) 3 0 []) else None
           | _ \<Rightarrow> None)
      | Ex_JsonName n \<Rightarrow> if isb n then Some (n, dns_json_type, json_nxdomain n) else None
      | Ex_Unknown \<Rightarrow> None)"

definition next_authority :: "h2_request \<Rightarrow> bytes \<Rightarrow> bytes" where
  "next_authority r a = (if a = [] then hr_authority r else a)"

definition request_forward :: "bytes \<Rightarrow> h2_request \<Rightarrow> bytes" where
  "request_forward a r =
     (case request_query r of
        Ex_Wire w \<Rightarrow> post_wire a (hr_path r) w
      | Ex_JsonName n \<Rightarrow> get_path a (hr_path r) dns_json_type
      | Ex_Unknown \<Rightarrow> reconstruct a r)"

fun forwards :: "(bytes \<Rightarrow> bool) \<Rightarrow> bytes \<Rightarrow> h2_request list \<Rightarrow> bytes list" where
  "forwards isb a [] = []"
| "forwards isb a (r # rs) =
     (let a = next_authority r a
      in (if request_block isb r = None then [request_forward a r] else []) @ forwards isb a rs)"

definition answer_blocked ::
  "('d, 'e) hpack \<Rightarrow> (bytes \<Rightarrow> bool) \<Rightarrow> h2_request \<Rightarrow> ('d, 'e) h2_server \<Rightarrow> ('d, 'e) h2_server" where
  "answer_blocked H isb r h2 =
     (case request_block isb r of None \<Rightarrow> h2 | Some (_, ct, body) \<Rightarrow> respond H (hr_stream_id r) 200 ct body h2)"

lemma h2_one_request_eq:
  "h2_one_request H isb r w =
     Some (let w = w\<lparr>wk_authority := next_authority r (wk_authority w)\<rparr>
           in case request_block isb r of
                Some (n, ct, body) \<Rightarrow> work_answer H (hr_stream_id r) n ct body w
              | None \<Rightarrow> work_forward (hr_stream_id r) (request_forward (wk_authority w) r) w)"
proof -
  have a: "(if wk_authority w = [] \<and> hr_authority r \<noteq> [] then w\<lparr>wk_authority := hr_authority r\<rparr> else w)
      = w\<lparr>wk_authority := next_authority r (wk_authority w)\<rparr>" by (simp add: next_authority_def)
  show ?thesis
  proof (cases "request_query r")
    case (Ex_Wire x)
    show ?thesis
      by (cases rule: dot_step_total[of x])
        (simp_all add: h2_one_request_def a Ex_Wire[unfolded request_query_def] request_block_def request_forward_def
          request_query_def block_wire_def Let_def)
  qed (simp_all add: h2_one_request_def a request_block_def request_forward_def request_query_def Let_def)
qed

lemma h2_requests_eq:
  "\<exists>w'. h2_requests H isb rs w = Some w'
    \<and> wk_authority w' = fold next_authority rs (wk_authority w)
    \<and> wk_blocked w' = wk_blocked w @ List.map_filter (\<lambda>r. map_option fst (request_block isb r)) rs
    \<and> wk_pending w' = wk_pending w @ map hr_stream_id (filter (\<lambda>r. request_block isb r = None) rs)
    \<and> wk_out w' = to_upstream (concat (forwards isb (wk_authority w) rs)) (wk_out w)
    \<and> wk_h2 w' = fold (answer_blocked H isb) rs (wk_h2 w)"
proof (induction rs arbitrary: w)
  case Nil
  then show ?case by (simp add: List.map_filter_simps to_upstream_def)
next
  case (Cons r rs)
  show ?case
  proof (cases "request_block isb r")
    case None
    show ?thesis
      using Cons[of "work_forward (hr_stream_id r) (request_forward (next_authority r (wk_authority w)) r)
          (w\<lparr>wk_authority := next_authority r (wk_authority w)\<rparr>)"] None
      by (simp add: h2_one_request_eq Let_def work_forward_def List.map_filter_simps to_upstream_def answer_blocked_def)
  next
    case (Some x)
    obtain n ct body where x: "x = (n, ct, body)" by (cases x)
    show ?thesis
      using Cons[of "work_answer H (hr_stream_id r) n ct body (w\<lparr>wk_authority := next_authority r (wk_authority w)\<rparr>)"] Some x
      by (simp add: h2_one_request_eq Let_def work_answer_def List.map_filter_simps answer_blocked_def)
  qed
qed


end
