(* ===== verification/Doh_Answers.thy ===== *)
theory Doh_Answers
  imports Doh_Stream
begin

section \<open>A run of the HTTP/2 filter, and its answers\<close>

text \<open>
  A concrete exchange over HTTP/2, which is the witness of \<open>doh_h2_exact\<close>, and what becomes of the
  resolver's answers when it sends an interim response.
\<close>

text \<open>A client that looks up a blocked and an allowed name, on streams 1 and 3, in its first read.\<close>

definition demo_get :: "u32 \<Rightarrow> string \<Rightarrow> bytes" where
  "demo_get sid path =
     frame_bytes T_HEADERS (F_END_HEADERS OR F_END_STREAM) sid
       (fst (hp_encode demo_hpack [(asc '':method'', asc ''GET''), (asc '':path'', asc path)] ()))"

definition demo_h2 :: "(unit, unit) h2_server" where
  \<comment> \<open>past the connection preface\<close>
  "demo_h2 = (h2_new demo_hpack)\<lparr>h2_preface_seen := True, h2_settings_sent := True\<rparr>"

definition demo_h2_input :: bytes where
  "demo_h2_input = demo_get 1 ''/?name=t'' @ demo_get 3 ''/?name=a''"

definition demo_h2_requests :: "h2_request list" where
  "demo_h2_requests =
     [\<lparr>hr_stream_id = 1, hr_method = asc ''GET'', hr_path = asc ''/?name=t'', hr_authority = [], hr_content_type = [], hr_body = []\<rparr>,
      \<lparr>hr_stream_id = 3, hr_method = asc ''GET'', hr_path = asc ''/?name=a'', hr_authority = [], hr_content_type = [], hr_body = []\<rparr>]"

definition demo_flow :: "(unit, unit) doh_flow" where
  "demo_flow = doh_flow_new\<lparr>df_proto := Some Doh_H2, df_h2 := Some demo_h2\<rparr>"

lemma demo_h2_parsed:
  "(h2_failed (on_input demo_hpack demo_h2_input demo_h2),
    h2_ready (on_input demo_hpack demo_h2_input demo_h2)) = (False, demo_h2_requests)"
  by code_simp

lemma demo_h2_blocked:
  "List.map_filter (\<lambda>r. map_option fst (request_block (\<lambda>n. n = asc ''t'') r)) demo_h2_requests = [asc ''t'']"
  "map hr_stream_id (filter (\<lambda>r. request_block (\<lambda>n. n = asc ''t'') r = None) demo_h2_requests) = [3]"
  by code_simp+


subsection \<open>An interim response\<close>

definition interim_reply :: bytes where
  "interim_reply = asc ''HTTP/1.1 100 Continue'' @ CRLF @ CRLF
     @ asc ''HTTP/1.1 200 OK'' @ CRLF @ asc ''Content-Length: 2'' @ CRLF @ CRLF @ [65, 66]"

lemma interim_reply_parsed:
  "h1_feed interim_reply h1_new =
     (h1_new, [\<lparr>ur_status = 100, ur_content_type = [], ur_body = []\<rparr>,
               \<lparr>ur_status = 200, ur_content_type = [], ur_body = [65, 66]\<rparr>])"
  by code_simp


end
