(* ===== verification/Doh_Panic.thy ===== *)
theory Doh_Panic
  imports "Doh_Stream"
begin

section \<open>When the DNS filter can panic\<close>

text \<open>
  The only panic of the encrypted-DNS filter is the unchecked sum of a head's length and an announced
  body length on the HTTP/1.1 side.
\<close>

definition announced :: "headers \<Rightarrow> nat" where
  "announced hs = (case content_length hs of None \<Rightarrow> 0 | Some n \<Rightarrow> n)"

lemma doh_h1_loop_panics:
  "doh_h1_loop isb d blocked out = None \<Longrightarrow>
   \<exists>pre post hend start hs. doh_buf d = pre @ post \<and> find_header_end post = Some hend
     \<and> parse_head_fields (take hend post) = Some (start, hs) \<and> 2 ^ 64 \<le> hend + announced hs"
proof (induction "length (doh_buf d)" arbitrary: d blocked out rule: less_induct)
  case less
  show ?case
  proof (cases "doh_h1_next (doh_buf d)")
    case (Dn_Request tot hend m t hs)
    show ?thesis
    proof (cases "hend \<le> length (take tot (doh_buf d))")
      case True
      let ?d = "doh_after d hs (drop tot (doh_buf d))"
      have "length (doh_buf ?d) < length (doh_buf d)"
        using doh_h1_next_hend[OF Dn_Request] True by (auto simp: min_def split: if_splits)
      moreover from less.prems True obtain b o' where "doh_h1_loop isb ?d b o' = None"
        unfolding doh_h1_loop_request[OF Dn_Request] by (auto simp: Let_def)
      ultimately have "\<exists>pre post e start hs'. drop tot (doh_buf d) = pre @ post \<and> find_header_end post = Some e
          \<and> parse_head_fields (take e post) = Some (start, hs') \<and> 2 ^ 64 \<le> e + announced hs'"
        using less.hyps[of ?d b o'] by simp
      then obtain pre post e start hs' where p: "drop tot (doh_buf d) = pre @ post" "find_header_end post = Some e"
        "parse_head_fields (take e post) = Some (start, hs')" "2 ^ 64 \<le> e + announced hs'" by blast
      have "doh_buf d = (take tot (doh_buf d) @ pre) @ post"
        using p(1) append_take_drop_id[of tot "doh_buf d"] by simp
      with p(2-4) show ?thesis by blast
    next
      case False
      from Dn_Request obtain start where h: "find_header_end (doh_buf d) = Some hend"
        "parse_head_fields (take hend (doh_buf d)) = Some (start, hs)"
        by (auto simp: doh_h1_next_def Let_def split: option.splits prod.splits framing.splits if_splits)
      from Dn_Request h have fr: "tot \<le> length (doh_buf d)" "\<exists>n \<le> announced hs. tot = wrap64 (hend + n)"
        by (auto simp: doh_h1_next_def Let_def request_framing_def announced_def
            split: option.splits prod.splits framing.splits if_splits)
      have small: "tot < hend" using False fr(1) by simp
      from fr(2) obtain n where n: "n \<le> announced hs" "tot = wrap64 (hend + n)" by blast
      have "2 ^ 64 \<le> hend + n"
      proof (rule ccontr)
        assume "\<not> 2 ^ 64 \<le> hend + n"
        then have "wrap64 (hend + n) = hend + n" by (simp add: wrap64_def)
        with n(2) small show False by simp
      qed
      with n(1) have "2 ^ 64 \<le> hend + announced hs" by linarith
      moreover have "doh_buf d = [] @ doh_buf d" by simp
      ultimately show ?thesis using h by blast
    qed
  qed (use less.prems in \<open>simp_all add: doh_h1_loop_cases\<close>)
qed

lemma h2_feed_total: "h2_feed H isb d data blocked out \<noteq> None"
proof (cases "df_h2 d")
  case (Some h2)
  let ?h2 = "on_input H data h2"
  let ?w = "\<lparr>wk_h2 = ?h2\<lparr>h2_ready := []\<rparr>, wk_authority = doh_authority (df_h1 d), wk_pending = df_pending d,
      wk_blocked = blocked, wk_out = out\<rparr>"
  obtain w where "h2_requests H isb (h2_ready ?h2) ?w = Some w" using h2_requests_eq by blast
  with Some show ?thesis by (simp add: h2_feed_def take_requests_def take_out_def Let_def)
qed (simp add: h2_feed_def)


text \<open>A client of an HTTP/1.1 flow that announces the largest length there is.\<close>

definition demo_h1_stream :: "(unit, unit) dns_stream" where
  "demo_h1_stream = \<lparr>dn_blocked = [], dn_inner = In_Doh (doh_flow_new\<lparr>df_proto := Some Doh_H1\<rparr>)\<rparr>"

lemma demo_h1_panics: "on_app_data demo_hpack (\<lambda>_. False) bad_length_request demo_h1_stream = None"
proof -
  have "doh_h1_feed (\<lambda>_. False) doh_new bad_length_request [] dns_cross_new = None"
    by (rule doh_length_overflow_panics)
  then show ?thesis
    by (simp add: on_app_data_def demo_h1_stream_def doh_on_app_data_def doh_flow_new_def h1_side_def)
qed


end
