(* ===== verification/Cert_Authority.thy ===== *)
theory Cert_Authority
  imports Base64 Net_Types
begin

section \<open>The certificate authority\<close>

text \<open>
  \<open>CertAuthority\<close>, \<open>MitmConfigs\<close> and \<open>KeyLogSink\<close> of \<open>rust/tls/src/lib.rs\<close>. The crates rcgen and rustls
  make keys, sign certificates and build configurations; they are the record \<open>pki\<close>. Key generation and
  signing draw random numbers: they take the number of the draw, which the field \<open>ca_draws\<close> counts, so two
  draws may differ in any way. An \<open>Err\<close> is \<open>None\<close>. A TLS configuration is its ALPN offer, the only thing
  in which the configurations of one side differ.
\<close>

datatype key_usage = Digital_Signature | Key_Cert_Sign | Crl_Sign

record cert_params =
  cp_names :: "bytes list" \<comment> \<open>subject alternative names\<close>
  cp_common_name :: bytes
  cp_organization :: bytes
  cp_is_ca :: bool
  cp_key_usages :: "key_usage list"
  cp_server_auth :: bool \<comment> \<open>the extended key usage\<close>
  cp_authority_key_id :: bool
  cp_not_before :: "int \<times> int \<times> int"
  cp_not_after :: "int \<times> int \<times> int"

record ('k, 'c, 's) pki =
  pk_generate :: "nat \<Rightarrow> 'k option"
  pk_key_from_pem :: "bytes \<Rightarrow> 'k option"
  pk_key_pem :: "'k \<Rightarrow> bytes"
  pk_params_ok :: "bytes list \<Rightarrow> bool" \<comment> \<open>\<open>CertificateParams::new\<close> accepts the names\<close>
  pk_self_signed :: "nat \<Rightarrow> cert_params \<Rightarrow> 'k \<Rightarrow> 'c option"
  pk_signed_by :: "nat \<Rightarrow> cert_params \<Rightarrow> 'k \<Rightarrow> 'c \<Rightarrow> 'k \<Rightarrow> 'c option" \<comment> \<open>leaf parameters and key, issuer and its key\<close>
  pk_der :: "'c \<Rightarrow> bytes"
  pk_pem :: "'c \<Rightarrow> bytes"
  pk_signing_key :: "'k \<Rightarrow> 's option" \<comment> \<open>\<open>any_ecdsa_type\<close> of the serialized key\<close>
  pk_versions_ok :: bool \<comment> \<open>\<open>with_safe_default_protocol_versions\<close>\<close>

record 's certified_key =
  ck_chain :: "bytes list"
  ck_key :: 's

record ('k, 'c, 's) cert_authority =
  ca_der :: bytes
  ca_cert_pem :: bytes
  ca_key_pem :: bytes
  ca_cert :: 'c
  ca_key :: 'k
  ca_cache :: "(bytes, 's certified_key) hash_map"
  ca_draws :: nat

definition CA_COMMON_NAME :: bytes where "CA_COMMON_NAME = asc ''Adwarden Root CA''"
definition CA_ORG_NAME :: bytes where "CA_ORG_NAME = asc ''Adwarden''"

definition ca_params :: "('k, 'c, 's) pki \<Rightarrow> cert_params option" where
  "ca_params P =
     (if \<not> pk_params_ok P [] then None
      else Some \<lparr>cp_names = [], cp_common_name = CA_COMMON_NAME, cp_organization = CA_ORG_NAME, cp_is_ca = True,
                 cp_key_usages = [Key_Cert_Sign, Crl_Sign], cp_server_auth = False, cp_authority_key_id = False,
                 cp_not_before = (2020, 1, 1), cp_not_after = (2037, 1, 1)\<rparr>)"

definition leaf_params :: "('k, 'c, 's) pki \<Rightarrow> bytes \<Rightarrow> cert_params option" where
  "leaf_params P host =
     (if \<not> pk_params_ok P [host] then None
      else Some \<lparr>cp_names = [host], cp_common_name = host, cp_organization = [], cp_is_ca = False,
                 cp_key_usages = [Digital_Signature], cp_server_auth = True, cp_authority_key_id = True,
                 cp_not_before = (2020, 1, 1), cp_not_after = (2037, 1, 1)\<rparr>)"

definition ca_generate :: "('k, 'c, 's) pki \<Rightarrow> nat \<Rightarrow> ('k, 'c, 's) cert_authority option" where
  \<comment> \<open>from the draw \<open>n\<close> on\<close>
  "ca_generate P n = do {
     key \<leftarrow> pk_generate P n;
     params \<leftarrow> ca_params P;
     cert \<leftarrow> pk_self_signed P (n + 1) params key;
     Some \<lparr>ca_der = pk_der P cert, ca_cert_pem = pk_pem P cert, ca_key_pem = pk_key_pem P key, ca_cert = cert,
           ca_key = key, ca_cache = [], ca_draws = n + 2\<rparr>
   }"

definition ca_from_pem :: "('k, 'c, 's) pki \<Rightarrow> nat \<Rightarrow> bytes \<Rightarrow> bytes \<Rightarrow> ('k, 'c, 's) cert_authority option" where
  "ca_from_pem P n cert_pem key_pem = do {
     key \<leftarrow> pk_key_from_pem P key_pem;
     params \<leftarrow> ca_params P;
     cert \<leftarrow> pk_self_signed P n params key;
     der \<leftarrow> pem_to_der cert_pem;
     Some \<lparr>ca_der = der, ca_cert_pem = cert_pem, ca_key_pem = key_pem, ca_cert = cert, ca_key = key, ca_cache = [],
           ca_draws = n + 1\<rparr>
   }"

definition mint :: "('k, 'c, 's) pki \<Rightarrow> bytes \<Rightarrow> ('k, 'c, 's) cert_authority \<Rightarrow> 's certified_key option" where
  "mint P host ca = do {
     leaf_key \<leftarrow> pk_generate P (ca_draws ca);
     params \<leftarrow> leaf_params P host;
     leaf \<leftarrow> pk_signed_by P (ca_draws ca + 1) params leaf_key (ca_cert ca) (ca_key ca);
     signing_key \<leftarrow> pk_signing_key P leaf_key;
     Some \<lparr>ck_chain = [pk_der P leaf, ca_der ca], ck_key = signing_key\<rparr>
   }"

definition certified_key_for ::
  "('k, 'c, 's) pki \<Rightarrow> bytes \<Rightarrow> ('k, 'c, 's) cert_authority \<Rightarrow> 's certified_key option \<times> ('k, 'c, 's) cert_authority" where
  "certified_key_for P host ca =
     (let key = to_lower host
      in case map_of (ca_cache ca) key of
           Some existing \<Rightarrow> (Some existing, ca)
         | None \<Rightarrow>
             (case mint P host ca of
                None \<Rightarrow> (None, ca\<lparr>ca_draws := ca_draws ca + 2\<rparr>)
              | Some certified \<Rightarrow>
                  (Some certified, ca\<lparr>ca_cache := AList.update key certified (ca_cache ca), ca_draws := ca_draws ca + 2\<rparr>)))"

definition resolve ::
  "('k, 'c, 's) pki \<Rightarrow> bytes option \<Rightarrow> ('k, 'c, 's) cert_authority \<Rightarrow> 's certified_key option \<times> ('k, 'c, 's) cert_authority" where
  \<comment> \<open>\<open>MintingResolver::resolve\<close>, given the server name of the ClientHello\<close>
  "resolve P server_name ca =
     (case server_name of None \<Rightarrow> (None, ca) | Some host \<Rightarrow> certified_key_for P host ca)"

subsection \<open>Configurations\<close>

definition H2_ALPN :: bytes where "H2_ALPN = asc ''h2''"
definition H1_ALPN :: bytes where "H1_ALPN = asc ''http/1.1''"

record tls_config = tc_alpn :: "bytes list"

definition server_config_alpn :: "('k, 'c, 's) pki \<Rightarrow> bytes list \<Rightarrow> tls_config option" where
  "server_config_alpn P alpn = (if pk_versions_ok P then Some \<lparr>tc_alpn = alpn\<rparr> else None)"

definition upstream_client_config_alpn :: "('k, 'c, 's) pki \<Rightarrow> bytes list \<Rightarrow> tls_config option" where
  "upstream_client_config_alpn P alpn = (if pk_versions_ok P then Some \<lparr>tc_alpn = alpn\<rparr> else None)"

record mitm_configs =
  mc_server :: tls_config
  mc_client :: tls_config
  mc_server_doh :: tls_config
  mc_client_doh :: tls_config

definition mitm_configs_build :: "('k, 'c, 's) pki \<Rightarrow> nat \<Rightarrow> bytes \<Rightarrow> bytes \<Rightarrow> (('k, 'c, 's) cert_authority \<times> mitm_configs) option" where
  "mitm_configs_build P n cert_pem key_pem = do {
     ca \<leftarrow> ca_from_pem P n cert_pem key_pem;
     server \<leftarrow> server_config_alpn P [];
     client \<leftarrow> upstream_client_config_alpn P [];
     server_doh \<leftarrow> server_config_alpn P [H2_ALPN, H1_ALPN];
     client_doh \<leftarrow> upstream_client_config_alpn P [H1_ALPN];
     Some (ca, \<lparr>mc_server = server, mc_client = client, mc_server_doh = server_doh, mc_client_doh = client_doh\<rparr>)
   }"

subsection \<open>The key log\<close>

definition key_log_line :: "bytes \<Rightarrow> bytes \<Rightarrow> bytes \<Rightarrow> bytes" where
  "key_log_line label client_random secret =
     label @ [32] @ push_hex client_random @ [32] @ push_hex secret @ [10]"

type_synonym key_log_sink = bytes

definition key_log_log :: "bytes \<Rightarrow> bytes \<Rightarrow> bytes \<Rightarrow> key_log_sink \<Rightarrow> key_log_sink" where
  "key_log_log label client_random secret buf = buf @ key_log_line label client_random secret"

definition key_log_take :: "key_log_sink \<Rightarrow> bytes \<times> key_log_sink" where
  "key_log_take buf = (buf, [])"

subsection \<open>A host keeps its certificate\<close>

definition ca_ok :: "('k, 'c, 's) cert_authority \<Rightarrow> bool" where
  "ca_ok ca \<longleftrightarrow> hm_inv (ca_cache ca)
     \<and> (\<forall>host ck. map_of (ca_cache ca) host = Some ck \<longrightarrow> (\<exists>leaf. ck_chain ck = [leaf, ca_der ca]))"

definition ca_extends :: "('k, 'c, 's) cert_authority \<Rightarrow> ('k, 'c, 's) cert_authority \<Rightarrow> bool" where
  \<comment> \<open>the same identity, and nothing forgotten\<close>
  "ca_extends ca ca' \<longleftrightarrow> ca_der ca' = ca_der ca \<and> map_of (ca_cache ca) \<subseteq>\<^sub>m map_of (ca_cache ca')"

lemma ca_extends_refl: "ca_extends ca ca"
  by (simp add: ca_extends_def)

lemma ca_extends_trans: "ca_extends a b \<Longrightarrow> ca_extends b c \<Longrightarrow> ca_extends a c"
  by (auto simp: ca_extends_def intro: map_le_trans)

lemma certified_key_for_step:
  assumes "certified_key_for P host ca = (r, ca')" and "ca_ok ca"
  shows "ca_ok ca' \<and> ca_extends ca ca'
    \<and> (\<forall>ck. r = Some ck \<longrightarrow> map_of (ca_cache ca') (to_lower host) = Some ck)"
proof (cases "map_of (ca_cache ca) (to_lower host)")
  case (Some ck)
  then show ?thesis using assms by (auto simp: certified_key_for_def ca_extends_refl)
next
  case None
  show ?thesis
  proof (cases "mint P host ca")
    case m: None
    then show ?thesis using assms None by (auto simp: certified_key_for_def ca_ok_def ca_extends_def)
  next
    case (Some ck)
    then have "\<exists>leaf. ck_chain ck = [leaf, ca_der ca]" by (auto simp: mint_def split: bind_splits)
    then show ?thesis
      using assms None Some by (auto simp: certified_key_for_def ca_ok_def ca_extends_def map_le_def split: if_splits)
  qed
qed

fun resolve_all :: "('k, 'c, 's) pki \<Rightarrow> bytes option list \<Rightarrow> ('k, 'c, 's) cert_authority \<Rightarrow> ('k, 'c, 's) cert_authority" where
  "resolve_all P [] ca = ca"
| "resolve_all P (h # hs) ca = resolve_all P hs (snd (resolve P h ca))"

lemma resolve_all_extends: "ca_ok ca \<Longrightarrow> ca_ok (resolve_all P hs ca) \<and> ca_extends ca (resolve_all P hs ca)"
proof (induction hs arbitrary: ca)
  case Nil
  then show ?case by (simp add: ca_extends_refl)
next
  case (Cons h hs)
  obtain r ca' where s: "resolve P h ca = (r, ca')" by (cases "resolve P h ca")
  with Cons.prems have "ca_ok ca' \<and> ca_extends ca ca'"
    using certified_key_for_step[of P _ ca r ca'] by (cases h) (auto simp: resolve_def ca_extends_refl)
  with Cons.IH[of ca'] s show ?case by (auto intro: ca_extends_trans)
qed

lemma fresh_ca_ok:
  "ca_generate P n = Some ca \<Longrightarrow> ca_ok ca" "ca_from_pem P n cert key = Some ca \<Longrightarrow> ca_ok ca"
  by (auto simp: ca_generate_def ca_from_pem_def ca_ok_def split: bind_splits)

text \<open>C29: a host keeps its certificate. Once a CA loaded from its PEMs has answered a ClientHello for a
  host, then however many other hosts it answers for in between, every later ClientHello for that name, in
  any case, is answered with the same leaf and key, under a chain that ends in the installed certificate.\<close>

theorem host_keeps_certificate:
  assumes "ca_from_pem P n cert_pem key_pem = Some ca0" and "pem_to_der cert_pem = Some der"
    and "resolve P (Some host) (resolve_all P before ca0) = (Some ck, ca)" and "eq_ignore_case host host'"
  shows "fst (resolve P (Some host') (resolve_all P later ca)) = Some ck \<and> (\<exists>leaf. ck_chain ck = [leaf, der])"
proof -
  let ?ca1 = "resolve_all P before ca0"
  have ca1: "ca_ok ?ca1" "ca_extends ca0 ?ca1" using resolve_all_extends[OF fresh_ca_ok(2)[OF assms(1)], of P before] by blast+
  have step: "ca_ok ca" "ca_extends ?ca1 ca" "map_of (ca_cache ca) (to_lower host) = Some ck"
    using certified_key_for_step[of P host ?ca1 "Some ck" ca] assms(3) ca1(1) by (auto simp: resolve_def)
  have lower: "to_lower host' = to_lower host" using assms(4) by (simp add: eq_ignore_case_def)
  from resolve_all_extends[OF step(1), of P later] step(3)
  have "map_of (ca_cache (resolve_all P later ca)) (to_lower host') = Some ck"
    unfolding lower by (auto simp: ca_extends_def map_le_def dom_def)
  moreover have "ca_der ca = der"
    using assms(1,2) ca1(2) step(2) by (auto simp: ca_extends_def ca_from_pem_def split: bind_splits)
  ultimately show ?thesis using step by (auto simp: resolve_def certified_key_for_def ca_ok_def)
qed


text \<open>A stored CA is restored with its identity. If keys survive their PEM form and the certificate's
  PEM holds its DER, a CA generated once and loaded again from the two PEMs signs with the same key and
  presents byte for byte the certificate the user installed, however the new self-signature turns out.\<close>

theorem restored_ca_is_installed_ca:
  assumes "ca_generate P n = Some ca"
    and "\<And>k. pk_key_from_pem P (pk_key_pem P k) = Some k" and "\<And>c. pem_to_der (pk_pem P c) = Some (pk_der P c)"
    and "\<And>i params k. pk_self_signed P i params k \<noteq> None"
  shows "\<exists>ca'. ca_from_pem P m (ca_cert_pem ca) (ca_key_pem ca) = Some ca' \<and> ca_key ca' = ca_key ca
    \<and> ca_der ca' = ca_der ca \<and> ca_cert_pem ca' = ca_cert_pem ca \<and> ca_key_pem ca' = ca_key_pem ca"
proof -
  from assms(1) obtain key params cert where g: "pk_generate P n = Some key" "ca_params P = Some params"
    "pk_self_signed P (n + 1) params key = Some cert"
    "ca = \<lparr>ca_der = pk_der P cert, ca_cert_pem = pk_pem P cert, ca_key_pem = pk_key_pem P key, ca_cert = cert,
           ca_key = key, ca_cache = [], ca_draws = n + 2\<rparr>"
    by (auto simp: ca_generate_def split: bind_splits)
  obtain cert' where "pk_self_signed P m params key = Some cert'" using assms(4)[of m params key] by blast
  with g assms(2,3) show ?thesis by (simp add: ca_from_pem_def)
qed

subsection \<open>A concrete certificate maker\<close>

definition demo_pki :: "(u8, bytes, u8) pki" where
  \<comment> \<open>a key is a number, a certificate its key and the number of the draw\<close>
  "demo_pki =
     \<lparr>pk_generate = (\<lambda>n. Some (word_of_nat n)), pk_key_from_pem = (\<lambda>b. case b of [k] \<Rightarrow> Some k | _ \<Rightarrow> None),
      pk_key_pem = (\<lambda>k. [k]), pk_params_ok = (\<lambda>_. True), pk_self_signed = (\<lambda>n _ k. Some [k, word_of_nat n]),
      pk_signed_by = (\<lambda>n _ k _ _. Some [k, word_of_nat n]), pk_der = (\<lambda>c. 0x30 # c),
      pk_pem = (\<lambda>c. pem_of_lines [base64_encode (0x30 # c)]), pk_signing_key = Some, pk_versions_ok = True\<rparr>"

lemma demo_pem: "pem_to_der (pk_pem demo_pki c) = Some (pk_der demo_pki c)"
  by (simp add: demo_pki_def) (rule pem_to_der_roundtrip; simp)

definition demo_ca :: "(u8, bytes, u8) cert_authority" where
  "demo_ca = the (ca_generate demo_pki 0)"

lemma demo_ca_generated: "ca_generate demo_pki 0 = Some demo_ca"
  by (simp add: demo_ca_def ca_generate_def ca_params_def demo_pki_def)

lemma restored_ca_is_installed_ca_witness:
  "\<exists>ca'. ca_from_pem demo_pki 9 (ca_cert_pem demo_ca) (ca_key_pem demo_ca) = Some ca' \<and> ca_der ca' = ca_der demo_ca"
proof -
  have "pk_key_from_pem demo_pki (pk_key_pem demo_pki k) = Some k" for k by (simp add: demo_pki_def)
  moreover have "pk_self_signed demo_pki i params k \<noteq> None" for i params k by (simp add: demo_pki_def)
  ultimately show ?thesis using restored_ca_is_installed_ca[OF demo_ca_generated _ demo_pem] by blast
qed

definition demo_restored :: "(u8, bytes, u8) cert_authority" where
  "demo_restored =
     \<lparr>ca_der = [0x30, 1, 2], ca_cert_pem = pk_pem demo_pki [1, 2], ca_key_pem = [1], ca_cert = [1, 5], ca_key = 1,
      ca_cache = [], ca_draws = 6\<rparr>"

lemma demo_restored: "ca_from_pem demo_pki 5 (pk_pem demo_pki [1, 2]) [1] = Some demo_restored"
  using demo_pem[of "[1, 2]"] by (simp add: ca_from_pem_def ca_params_def demo_restored_def) (simp add: demo_pki_def)

lemma demo_first: "fst (resolve demo_pki (Some (asc ''A'')) demo_restored) = Some \<lparr>ck_chain = [[0x30, 6, 7], [0x30, 1, 2]], ck_key = 6\<rparr>"
  by code_simp

lemma host_keeps_certificate_witness:
  "fst (resolve demo_pki (Some (asc ''a'')) (resolve_all demo_pki [Some (asc ''b''), None]
      (snd (resolve demo_pki (Some (asc ''A'')) demo_restored)))) = Some \<lparr>ck_chain = [[0x30, 6, 7], [0x30, 1, 2]], ck_key = 6\<rparr>"
proof -
  have der: "pem_to_der (pk_pem demo_pki [1, 2]) = Some [0x30, 1, 2]" using demo_pem[of "[1, 2]"] by (simp add: demo_pki_def)
  have first: "resolve demo_pki (Some (asc ''A'')) (resolve_all demo_pki [] demo_restored) =
      (Some \<lparr>ck_chain = [[0x30, 6, 7], [0x30, 1, 2]], ck_key = 6\<rparr>, snd (resolve demo_pki (Some (asc ''A'')) demo_restored))"
    using demo_first by (simp add: prod_eq_iff)
  have "eq_ignore_case (asc ''A'') (asc ''a'')" by code_simp
  from host_keeps_certificate[OF demo_restored der first this, of "[Some (asc ''b''), None]"] show ?thesis by blast
qed

end
