(* ===== verification/Tls_Mitm.thy ===== *)
theory Tls_Mitm
  imports Doh_Stream Cert_Authority Rewriter Fw_State
begin

section \<open>The TLS splice\<close>

text \<open>
  \<open>rust/tls/src/mitm.rs\<close>: the state and the operations of \<open>TlsMitm\<close>, and the splice as the record
  \<open>mitm_ops\<close> through which the forwarder uses it. rustls is not part of the program; its two kinds of
  connection are the records \<open>session\<close> and \<open>rustls\<close> over abstract states, of which the definitions
  assume nothing. A buffer read from a session has at most 16 KiB, and an empty one stands for all the
  results that end the read loop (\<open>Ok(0)\<close>, \<open>WouldBlock\<close>, any other error). The loops that read plaintext
  run with fuel \<open>se_pending + 1\<close>, the number of decrypted bytes that wait in the session. The loop of
  \<open>write_tls\<close> into a vector is one call. \<open>None\<close> is a panic, which only the DNS filter can raise.
\<close>

record 't session =
  se_read_tls :: "bytes \<Rightarrow> 't \<Rightarrow> nat option \<times> 't" \<comment> \<open>the bytes taken off the slice, \<open>None\<close> an error\<close>
  se_process :: "'t \<Rightarrow> bool option \<times> 't" \<comment> \<open>\<open>process_new_packets\<close>: \<open>peer_has_closed\<close>\<close>
  se_pending :: "'t \<Rightarrow> nat" \<comment> \<open>\<open>plaintext_bytes_to_read\<close>\<close>
  se_read :: "'t \<Rightarrow> bytes \<times> 't" \<comment> \<open>\<open>reader().read\<close>\<close>
  se_write :: "bytes \<Rightarrow> 't \<Rightarrow> 't" \<comment> \<open>\<open>writer().write_all\<close>, whose result the code ignores\<close>
  se_close_notify :: "'t \<Rightarrow> 't"
  se_write_tls :: "'t \<Rightarrow> bytes option \<times> 't" \<comment> \<open>what \<open>while wants_write { write_tls }\<close> appends\<close>

record ('s, 'c) rustls =
  ru_server :: "'s session"
  ru_client :: "'c session"
  ru_new_server :: "tls_config \<Rightarrow> nat \<Rightarrow> 's option" \<comment> \<open>\<open>ServerConnection::new\<close>\<close>
  ru_server_name :: "'s \<Rightarrow> bytes option"
  ru_handshaking :: "'s \<Rightarrow> bool"
  ru_sni_valid :: "bytes \<Rightarrow> bool" \<comment> \<open>\<open>ServerName::try_from\<close>\<close>
  ru_new_client :: "tls_config \<Rightarrow> bytes \<Rightarrow> 's \<Rightarrow> 'c option" \<comment> \<open>\<open>ClientConnection::new\<close>\<close>
  ru_key_log :: "nat \<Rightarrow> bytes"

datatype ('d, 'e) plaintext = Pt_Http http_tap rewriter | Pt_Dns "('d, 'e) dns_stream"

datatype fail_side = Side_App | Side_Upstream | Side_Other

record ('s, 'c, 'd, 'e) tls_mitm =
  tm_server :: 's
  tm_client :: "'c option"
  tm_client_config :: tls_config
  tm_host :: "bytes option"
  tm_app_closed :: bool
  tm_upstream_closed :: bool
  tm_failed :: bool
  tm_cert_rejected :: bool
  tm_plaintext :: "('d, 'e) plaintext"

definition with_plaintext ::
  "('s, 'c) rustls \<Rightarrow> tls_config \<Rightarrow> tls_config \<Rightarrow> nat \<Rightarrow> ('d, 'e) plaintext \<Rightarrow> ('s, 'c, 'd, 'e) tls_mitm option" where
  "with_plaintext R server_config client_config n pt =
     map_option (\<lambda>s. \<lparr>tm_server = s, tm_client = None, tm_client_config = client_config, tm_host = None, tm_app_closed = False, tm_upstream_closed = False,
                       tm_failed = False, tm_cert_rejected = False, tm_plaintext = pt\<rparr>) (ru_new_server R server_config n)"

definition mitm_new :: "('s, 'c) rustls \<Rightarrow> tls_config \<Rightarrow> tls_config \<Rightarrow> nat \<Rightarrow> ('s, 'c, 'd, 'e) tls_mitm option" where
  "mitm_new R server_config client_config n = with_plaintext R server_config client_config n (Pt_Http tap_new rw_new)"

definition mitm_new_dns ::
  "('s, 'c) rustls \<Rightarrow> tls_config \<Rightarrow> tls_config \<Rightarrow> nat \<Rightarrow> dns_kind \<Rightarrow> ('s, 'c, 'd, 'e) tls_mitm option" where
  "mitm_new_dns R server_config client_config n kind =
     with_plaintext R server_config client_config n (Pt_Dns (dns_stream_new kind))"

subsection \<open>Accessors\<close>

definition is_dns :: "('s, 'c, 'd, 'e) tls_mitm \<Rightarrow> bool" where
  "is_dns m = (case tm_plaintext m of Pt_Dns _ \<Rightarrow> True | Pt_Http _ _ \<Rightarrow> False)"

definition take_dns_blocked :: "('s, 'c, 'd, 'e) tls_mitm \<Rightarrow> bytes list \<times> ('s, 'c, 'd, 'e) tls_mitm" where
  "take_dns_blocked m =
     (case tm_plaintext m of
        Pt_Dns dns \<Rightarrow> (let (names, dns) = take_blocked dns in (names, m\<lparr>tm_plaintext := Pt_Dns dns\<rparr>))
      | Pt_Http _ _ \<Rightarrow> ([], m))"

definition mitm_set_cosmetic :: "bytes \<Rightarrow> bytes \<Rightarrow> ('s, 'c, 'd, 'e) tls_mitm \<Rightarrow> ('s, 'c, 'd, 'e) tls_mitm" where
  "mitm_set_cosmetic css js m =
     (case tm_plaintext m of
        Pt_Http tap rw \<Rightarrow> m\<lparr>tm_plaintext := Pt_Http tap (set_cosmetic css js rw)\<rparr>
      | Pt_Dns _ \<Rightarrow> m)"

definition mitm_take_transactions :: "('s, 'c, 'd, 'e) tls_mitm \<Rightarrow> transaction list \<times> ('s, 'c, 'd, 'e) tls_mitm" where
  "mitm_take_transactions m =
     (case tm_plaintext m of
        Pt_Http tap rw \<Rightarrow> (let (ts, tap) = take_transactions tap in (ts, m\<lparr>tm_plaintext := Pt_Http tap rw\<rparr>))
      | Pt_Dns _ \<Rightarrow> ([], m))"

definition mitm_finish :: "(nat \<Rightarrow> nat) \<Rightarrow> ('s, 'c, 'd, 'e) tls_mitm \<Rightarrow> ('s, 'c, 'd, 'e) tls_mitm" where
  "mitm_finish clk m =
     (case tm_plaintext m of
        Pt_Http tap rw \<Rightarrow> m\<lparr>tm_plaintext := Pt_Http (finish clk tap) rw\<rparr>
      | Pt_Dns _ \<Rightarrow> m)"

subsection \<open>Bytes in\<close>

definition mark_failed :: "('s, 'c) rustls \<Rightarrow> fail_side \<Rightarrow> ('s, 'c, 'd, 'e) tls_mitm \<Rightarrow> ('s, 'c, 'd, 'e) tls_mitm" where
  "mark_failed R side m =
     (if tm_failed m then m
      else m\<lparr>tm_failed := True, tm_cert_rejected := (side = Side_App \<and> ru_handshaking R (tm_server m))\<rparr>)"

function read_all :: "'t session \<Rightarrow> bytes \<Rightarrow> 't \<Rightarrow> bool \<times> 't" where
  \<comment> \<open>the loop of \<open>read_tls\<close>; whether it ended without an error\<close>
  "read_all S data t =
     (if data = [] then (True, t)
      else case se_read_tls S data t of
        (Some n, t) \<Rightarrow> if n = 0 then (True, t) else read_all S (drop n data) t
      | (None, t) \<Rightarrow> (False, t))"
  by pat_completeness auto
termination
  by (relation "measure (\<lambda>(_, data, _). length data)") auto

declare read_all.simps [simp del]

definition recv_from_app :: "('s, 'c) rustls \<Rightarrow> bytes \<Rightarrow> ('s, 'c, 'd, 'e) tls_mitm \<Rightarrow> ('s, 'c, 'd, 'e) tls_mitm" where
  "recv_from_app R data m =
     (let (ok, s) = read_all (ru_server R) data (tm_server m); m = m\<lparr>tm_server := s\<rparr>
      in if ok then m else mark_failed R Side_App m)"

definition recv_from_upstream :: "('s, 'c) rustls \<Rightarrow> bytes \<Rightarrow> ('s, 'c, 'd, 'e) tls_mitm \<Rightarrow> ('s, 'c, 'd, 'e) tls_mitm" where
  "recv_from_upstream R data m =
     (case tm_client m of
        None \<Rightarrow> m
      | Some c \<Rightarrow>
          let (ok, c) = read_all (ru_client R) data c; m = m\<lparr>tm_client := Some c\<rparr>
          in if ok then m else mark_failed R Side_Upstream m)"

subsection \<open>Crossing the plaintext\<close>

fun read_loop :: "'t session \<Rightarrow> (bytes \<Rightarrow> 't \<times> 'x \<Rightarrow> ('t \<times> 'x) option) \<Rightarrow> nat \<Rightarrow> 't \<times> 'x \<Rightarrow> ('t \<times> 'x) option" where
  "read_loop S f n (t, x) =
     (if n = 0 then Some (t, x)
      else
        let (data, t) = se_read S t
        in if data = [] then Some (t, x)
           else case f data (t, x) of None \<Rightarrow> None | Some p \<Rightarrow> read_loop S f (n - 1) p)"

declare read_loop.simps [simp del]

lemma read_loop_simps [simp]:
  "read_loop S f 0 p = Some p"
  "read_loop S f (Suc n) (t, x) =
     (let (data, t) = se_read S t
      in if data = [] then Some (t, x)
         else case f data (t, x) of None \<Rightarrow> None | Some p \<Rightarrow> read_loop S f n p)"
  by (cases p; simp add: read_loop.simps) (simp add: read_loop.simps split: prod.split option.split)

definition read_plain :: "'t session \<Rightarrow> (bytes \<Rightarrow> 't \<times> 'x \<Rightarrow> ('t \<times> 'x) option) \<Rightarrow> 't \<times> 'x \<Rightarrow> ('t \<times> 'x) option" where
  "read_plain S f p = read_loop S f (se_pending S (fst p) + 1) p"

definition request_chunk ::
  "('s, 'c) rustls \<Rightarrow> (nat \<Rightarrow> nat) \<Rightarrow> bytes \<Rightarrow> 's \<times> 'c \<times> http_tap \<times> rewriter \<Rightarrow> ('s \<times> 'c \<times> http_tap \<times> rewriter) option" where
  "request_chunk R clk data p =
     (case p of (s, c, tap, rw) \<Rightarrow>
        let tap = feed_request clk data tap; (out, rw) = rw_feed_request data rw
        in Some (s, se_write (ru_client R) out c, tap, rw))"

definition response_chunk ::
  "('s, 'c) rustls \<Rightarrow> (nat \<Rightarrow> nat) \<Rightarrow> bytes \<Rightarrow> 'c \<times> 's \<times> http_tap \<times> rewriter \<Rightarrow> ('c \<times> 's \<times> http_tap \<times> rewriter) option" where
  "response_chunk R clk data p =
     (case p of (c, s, tap, rw) \<Rightarrow>
        let tap = feed_response clk data tap; (out, rw) = rw_feed_response data rw
        in Some (c, se_write (ru_server R) out s, tap, rw))"

definition cross_http ::
  "('s, 'c) rustls \<Rightarrow> (nat \<Rightarrow> nat) \<Rightarrow> 's \<Rightarrow> 'c \<Rightarrow> http_tap \<Rightarrow> rewriter \<Rightarrow> ('s \<times> 'c \<times> http_tap \<times> rewriter) option" where
  "cross_http R clk s c tap rw = do {
     (s, c, tap, rw) \<leftarrow> read_plain (ru_server R) (request_chunk R clk) (s, c, tap, rw);
     (c, s, tap, rw) \<leftarrow> read_plain (ru_client R) (response_chunk R clk) (c, s, tap, rw);
     Some (s, c, tap, rw)
   }"

definition query_chunk ::
  "('s, 'c) rustls \<Rightarrow> ('d, 'e) hpack \<Rightarrow> (bytes \<Rightarrow> bool) \<Rightarrow> bytes \<Rightarrow> 's \<times> 'c \<times> ('d, 'e) dns_stream \<Rightarrow>
   ('s \<times> 'c \<times> ('d, 'e) dns_stream) option" where
  "query_chunk R H isb data p =
     (case p of (s, c, dns) \<Rightarrow> do {
        (cross, dns) \<leftarrow> on_app_data H isb data dns;
        let c = (if dc_to_upstream cross \<noteq> [] then se_write (ru_client R) (dc_to_upstream cross) c else c);
        let s = (if dc_to_app cross \<noteq> [] then se_write (ru_server R) (dc_to_app cross) s else s);
        Some (s, c, dns)
      })"

definition answer_chunk ::
  "('s, 'c) rustls \<Rightarrow> ('d, 'e) hpack \<Rightarrow> bytes \<Rightarrow> 'c \<times> 's \<times> ('d, 'e) dns_stream \<Rightarrow>
   ('c \<times> 's \<times> ('d, 'e) dns_stream) option" where
  "answer_chunk R H data p =
     (case p of (c, s, dns) \<Rightarrow>
        let (out, dns) = on_upstream_data H data dns in Some (c, se_write (ru_server R) out s, dns))"

definition cross_dns ::
  "('s, 'c) rustls \<Rightarrow> ('d, 'e) hpack \<Rightarrow> (bytes \<Rightarrow> bool) \<Rightarrow> 's \<Rightarrow> 'c \<Rightarrow> ('d, 'e) dns_stream \<Rightarrow>
   ('s \<times> 'c \<times> ('d, 'e) dns_stream) option" where
  "cross_dns R H isb s c dns = do {
     (s, c, dns) \<leftarrow> read_plain (ru_server R) (query_chunk R H isb) (s, c, dns);
     (c, s, dns) \<leftarrow> read_plain (ru_client R) (answer_chunk R H) (c, s, dns);
     Some (s, c, dns)
   }"

definition cross_plaintext ::
  "('s, 'c) rustls \<Rightarrow> ('d, 'e) hpack \<Rightarrow> (nat \<Rightarrow> nat) \<Rightarrow> (bytes \<Rightarrow> bool) option \<Rightarrow> ('s, 'c, 'd, 'e) tls_mitm \<Rightarrow>
   ('s, 'c, 'd, 'e) tls_mitm option" where
  "cross_plaintext R H clk dns_filter m =
     (case tm_client m of
        None \<Rightarrow> Some m
      | Some c \<Rightarrow>
          (case tm_plaintext m of
             Pt_Http tap rw \<Rightarrow> do {
               (s, c, tap, rw) \<leftarrow> cross_http R clk (tm_server m) c tap rw;
               Some (m\<lparr>tm_server := s, tm_client := Some c, tm_plaintext := Pt_Http tap rw\<rparr>)
             }
           | Pt_Dns dns \<Rightarrow> do {
               (s, c, dns) \<leftarrow> cross_dns R H (case dns_filter of Some f \<Rightarrow> f | None \<Rightarrow> (\<lambda>_. False)) (tm_server m) c dns;
               Some (m\<lparr>tm_server := s, tm_client := Some c, tm_plaintext := Pt_Dns dns\<rparr>)
             }))"

subsection \<open>The pump\<close>

definition closed_io :: mitm_io where
  "closed_io = \<lparr>mi_to_app = [], mi_to_upstream = [], mi_closed = True\<rparr>"

datatype 'm stage = Go_On 'm | Give_Up 'm

definition fail_stage :: "('s, 'c) rustls \<Rightarrow> fail_side \<Rightarrow> ('s, 'c, 'd, 'e) tls_mitm \<Rightarrow> ('s, 'c, 'd, 'e) tls_mitm stage" where
  "fail_stage R side m = Give_Up (mark_failed R side m)"

definition process_app :: "('s, 'c) rustls \<Rightarrow> ('s, 'c, 'd, 'e) tls_mitm \<Rightarrow> ('s, 'c, 'd, 'e) tls_mitm stage" where
  "process_app R m =
     (let (r, s) = se_process (ru_server R) (tm_server m); m = m\<lparr>tm_server := s\<rparr>
      in case r of
           Some closed \<Rightarrow> Go_On (m\<lparr>tm_app_closed := tm_app_closed m \<or> closed\<rparr>)
         | None \<Rightarrow> fail_stage R Side_App m)"

definition learn_host :: "bytes \<Rightarrow> ('s, 'c, 'd, 'e) tls_mitm \<Rightarrow> ('s, 'c, 'd, 'e) tls_mitm" where
  "learn_host name m =
     m\<lparr>tm_host := Some name,
       tm_plaintext := (case tm_plaintext m of Pt_Http tap rw \<Rightarrow> Pt_Http (set_host name tap) rw | Pt_Dns dns \<Rightarrow> Pt_Dns dns)\<rparr>"

definition open_upstream :: "('s, 'c) rustls \<Rightarrow> ('s, 'c, 'd, 'e) tls_mitm \<Rightarrow> ('s, 'c, 'd, 'e) tls_mitm stage" where
  "open_upstream R m =
     (if tm_client m \<noteq> None then Go_On m
      else case ru_server_name R (tm_server m) of
        None \<Rightarrow> Go_On m
      | Some name \<Rightarrow>
          let m = learn_host name m
          in if \<not> ru_sni_valid R name then fail_stage R Side_Other m
             else case ru_new_client R (tm_client_config m) name (tm_server m) of
               Some c \<Rightarrow> Go_On (m\<lparr>tm_client := Some c\<rparr>)
             | None \<Rightarrow> fail_stage R Side_Other m)"

definition process_upstream :: "('s, 'c) rustls \<Rightarrow> ('s, 'c, 'd, 'e) tls_mitm \<Rightarrow> ('s, 'c, 'd, 'e) tls_mitm stage" where
  "process_upstream R m =
     (case tm_client m of
        None \<Rightarrow> Go_On m
      | Some c \<Rightarrow>
          let (r, c) = se_process (ru_client R) c; m = m\<lparr>tm_client := Some c\<rparr>
          in case r of
               Some closed \<Rightarrow> Go_On (m\<lparr>tm_upstream_closed := tm_upstream_closed m \<or> closed\<rparr>)
             | None \<Rightarrow> fail_stage R Side_Upstream m)"

definition propagate_closes :: "('s, 'c) rustls \<Rightarrow> ('s, 'c, 'd, 'e) tls_mitm \<Rightarrow> ('s, 'c, 'd, 'e) tls_mitm" where
  "propagate_closes R m =
     (let m = (if tm_app_closed m then m\<lparr>tm_client := map_option (se_close_notify (ru_client R)) (tm_client m)\<rparr> else m)
      in if tm_upstream_closed m then m\<lparr>tm_server := se_close_notify (ru_server R) (tm_server m)\<rparr> else m)"

definition collect ::
  "('s, 'c) rustls \<Rightarrow> (nat \<Rightarrow> nat) \<Rightarrow> ('s, 'c, 'd, 'e) tls_mitm \<Rightarrow> mitm_io \<times> ('s, 'c, 'd, 'e) tls_mitm" where
  \<comment> \<open>the outbound TLS of both sides, and the end of the splice\<close>
  "collect R clk m =
     (let (x, s) = se_write_tls (ru_server R) (tm_server m); m = m\<lparr>tm_server := s\<rparr>
      in case x of
           None \<Rightarrow> (closed_io, mark_failed R Side_Other m)
         | Some app_bytes \<Rightarrow>
             let (y, m) = (case tm_client m of
                             None \<Rightarrow> (Some [], m)
                           | Some c \<Rightarrow> let (y, c) = se_write_tls (ru_client R) c in (y, m\<lparr>tm_client := Some c\<rparr>))
             in case y of
                  None \<Rightarrow> (closed_io, mark_failed R Side_Other m)
                | Some up_bytes \<Rightarrow>
                    let closed = (tm_failed m \<or> tm_app_closed m \<and> tm_upstream_closed m)
                    in (\<lparr>mi_to_app = app_bytes, mi_to_upstream = up_bytes, mi_closed = closed\<rparr>,
                        if closed then mitm_finish clk m else m))"

definition pump_impl ::
  "('s, 'c) rustls \<Rightarrow> ('d, 'e) hpack \<Rightarrow> (nat \<Rightarrow> nat) \<Rightarrow> (bytes \<Rightarrow> bool) option \<Rightarrow> ('s, 'c, 'd, 'e) tls_mitm \<Rightarrow>
   (mitm_io \<times> ('s, 'c, 'd, 'e) tls_mitm) option" where
  "pump_impl R H clk dns_filter m =
     (if tm_failed m then Some (closed_io, m)
      else case process_app R m of
        Give_Up m \<Rightarrow> Some (closed_io, m)
      | Go_On m \<Rightarrow>
          (case open_upstream R m of
             Give_Up m \<Rightarrow> Some (closed_io, m)
           | Go_On m \<Rightarrow>
               (case process_upstream R m of
                  Give_Up m \<Rightarrow> Some (closed_io, m)
                | Go_On m \<Rightarrow>
                    map_option (\<lambda>m. collect R clk (propagate_closes R m)) (cross_plaintext R H clk dns_filter m))))"

definition pump :: "('s, 'c) rustls \<Rightarrow> ('d, 'e) hpack \<Rightarrow> (nat \<Rightarrow> nat) \<Rightarrow> ('s, 'c, 'd, 'e) tls_mitm \<Rightarrow>
   (mitm_io \<times> ('s, 'c, 'd, 'e) tls_mitm) option" where
  "pump R H clk m = pump_impl R H clk None m"

definition pump_dns :: "('s, 'c) rustls \<Rightarrow> ('d, 'e) hpack \<Rightarrow> (nat \<Rightarrow> nat) \<Rightarrow> (bytes \<Rightarrow> bool) \<Rightarrow>
   ('s, 'c, 'd, 'e) tls_mitm \<Rightarrow> (mitm_io \<times> ('s, 'c, 'd, 'e) tls_mitm) option" where
  "pump_dns R H clk is_blocked m = pump_impl R H clk (Some is_blocked) m"

subsection \<open>The splice as the forwarder uses it\<close>

definition new_splice ::
  "('s, 'c) rustls \<Rightarrow> mitm_configs \<Rightarrow> dns_kind option \<Rightarrow> nat \<Rightarrow> ('s, 'c, 'd, 'e) tls_mitm option" where
  "new_splice R cfgs kind n =
     (case kind of
        None \<Rightarrow> mitm_new R (mc_server cfgs) (mc_client cfgs) n
      | Some Kind_Dot \<Rightarrow> mitm_new_dns R (mc_server cfgs) (mc_client cfgs) n Kind_Dot
      | Some Kind_Doh \<Rightarrow> mitm_new_dns R (mc_server_doh cfgs) (mc_client_doh cfgs) n Kind_Doh)"

definition splice_ops ::
  "('k, 'x, 'y) pki \<Rightarrow> mitm_configs \<Rightarrow> ('s, 'c) rustls \<Rightarrow> ('d, 'e) hpack \<Rightarrow> (nat \<Rightarrow> nat) \<Rightarrow> ('s, 'c, 'd, 'e) tls_mitm mitm_ops" where
  \<comment> \<open>the forwarder pumps without a filter only what is not DNS, where \<open>pump\<close> does not panic\<close>
  "splice_ops P cfgs R H clk =
     \<lparr>mo_build = (\<lambda>cert key. mitm_configs_build P 0 cert key \<noteq> None), mo_new = new_splice R cfgs, mo_key_log = ru_key_log R, mo_is_dns = is_dns,
      mo_take_blocked = take_dns_blocked, mo_set_cosmetic = mitm_set_cosmetic, mo_host = tm_host,
      mo_cert_rejected = tm_cert_rejected, mo_take_transactions = mitm_take_transactions,
      mo_recv_from_app = recv_from_app R, mo_recv_from_upstream = recv_from_upstream R,
      mo_pump = (\<lambda>m. case pump R H clk m of Some p \<Rightarrow> p | None \<Rightarrow> (closed_io, m)),
      mo_pump_dns = pump_dns R H clk, mo_finish = mitm_finish clk\<rparr>"

datatype mitm_op =
    Mi_App bytes | Mi_Upstream bytes | Mi_Pump | Mi_Pump_Dns "bytes \<Rightarrow> bool" | Mi_Cosmetic bytes bytes
  | Mi_Blocked | Mi_Transactions | Mi_Finish

fun mitm_step ::
  "('s, 'c) rustls \<Rightarrow> ('d, 'e) hpack \<Rightarrow> (nat \<Rightarrow> nat) \<Rightarrow> mitm_op \<Rightarrow> ('s, 'c, 'd, 'e) tls_mitm \<Rightarrow>
   (mitm_io option \<times> ('s, 'c, 'd, 'e) tls_mitm) option" where
  "mitm_step R H clk (Mi_App data) m = Some (None, recv_from_app R data m)"
| "mitm_step R H clk (Mi_Upstream data) m = Some (None, recv_from_upstream R data m)"
| "mitm_step R H clk Mi_Pump m = map_option (apfst Some) (pump R H clk m)"
| "mitm_step R H clk (Mi_Pump_Dns f) m = map_option (apfst Some) (pump_dns R H clk f m)"
| "mitm_step R H clk (Mi_Cosmetic css js) m = Some (None, mitm_set_cosmetic css js m)"
| "mitm_step R H clk Mi_Blocked m = Some (None, snd (take_dns_blocked m))"
| "mitm_step R H clk Mi_Transactions m = Some (None, snd (mitm_take_transactions m))"
| "mitm_step R H clk Mi_Finish m = Some (None, mitm_finish clk m)"

fun mitm_run ::
  "('s, 'c) rustls \<Rightarrow> ('d, 'e) hpack \<Rightarrow> (nat \<Rightarrow> nat) \<Rightarrow> mitm_op list \<Rightarrow> ('s, 'c, 'd, 'e) tls_mitm \<Rightarrow>
   ('s, 'c, 'd, 'e) tls_mitm option" where
  "mitm_run R H clk [] m = Some m"
| "mitm_run R H clk (op # ops) m =
     (case mitm_step R H clk op m of None \<Rightarrow> None | Some (_, m) \<Rightarrow> mitm_run R H clk ops m)"

end
