(* ===== verification/Tls_Splice.thy ===== *)
theory Tls_Splice
  imports Tls_Mitm
begin

section \<open>What a splice carries\<close>

text \<open>
  Properties of the splice for every behaviour of the TLS sessions. To speak of the plaintext that
  crosses it, the sessions are replaced by traced ones, which behave alike and remember the bytes that
  were read from them and written to them.
\<close>

subsection \<open>Failures are final\<close>

lemma mark_failed_fields [simp]:
  "tm_failed (mark_failed R side m)" "tm_failed m \<Longrightarrow> mark_failed R side m = m"
  by (simp_all add: mark_failed_def)

lemma failed_step:
  assumes "tm_failed m" and "mitm_step R H clk op m = Some (io, m')"
  shows "tm_failed m' \<and> tm_cert_rejected m' = tm_cert_rejected m \<and> (io = None \<or> io = Some closed_io)"
  using assms
  by (cases op)
    (auto simp: recv_from_app_def recv_from_upstream_def pump_def pump_dns_def pump_impl_def mitm_set_cosmetic_def
      take_dns_blocked_def mitm_take_transactions_def mitm_finish_def case_prod_unfold Let_def
      split: option.splits plaintext.splits if_splits)

definition rejected_ok :: "('s, 'c, 'd, 'e) tls_mitm \<Rightarrow> bool" where
  "rejected_ok m \<longleftrightarrow> (tm_cert_rejected m \<longrightarrow> tm_failed m)"

lemma rejected_upd [simp]:
  "rejected_ok (m\<lparr>tm_server := s\<rparr>) = rejected_ok m" "rejected_ok (m\<lparr>tm_client := c\<rparr>) = rejected_ok m"
  "rejected_ok (m\<lparr>tm_app_closed := b\<rparr>) = rejected_ok m" "rejected_ok (m\<lparr>tm_upstream_closed := b\<rparr>) = rejected_ok m"
  "rejected_ok (m\<lparr>tm_plaintext := pt\<rparr>) = rejected_ok m" "rejected_ok (m\<lparr>tm_host := h, tm_plaintext := pt\<rparr>) = rejected_ok m"
  "rejected_ok (mark_failed R side m)"
  by (simp_all add: rejected_ok_def)

lemma rejected_basic [simp]:
  "rejected_ok (learn_host name m) = rejected_ok m" "rejected_ok (mitm_finish clk m) = rejected_ok m"
  "rejected_ok (mitm_set_cosmetic css js m) = rejected_ok m" "rejected_ok (propagate_closes R m) = rejected_ok m"
  "rejected_ok (snd (take_dns_blocked m)) = rejected_ok m" "rejected_ok (snd (mitm_take_transactions m)) = rejected_ok m"
  by (simp_all add: rejected_ok_def learn_host_def mitm_finish_def mitm_set_cosmetic_def propagate_closes_def
      take_dns_blocked_def mitm_take_transactions_def case_prod_unfold Let_def split: plaintext.split)

lemma rejected_recv:
  "rejected_ok m \<Longrightarrow> rejected_ok (recv_from_app R data m)" "rejected_ok m \<Longrightarrow> rejected_ok (recv_from_upstream R data m)"
  by (auto simp: recv_from_app_def recv_from_upstream_def case_prod_unfold Let_def split: option.split)

fun stage_all :: "('m \<Rightarrow> bool) \<Rightarrow> 'm stage \<Rightarrow> bool" where
  "stage_all P (Go_On m) = P m"
| "stage_all P (Give_Up m) = P m"

lemma rejected_stages:
  assumes "rejected_ok m"
  shows "stage_all rejected_ok (process_app R m)" "stage_all rejected_ok (open_upstream R m)"
    "stage_all rejected_ok (process_upstream R m)"
  using assms
  by (auto simp: process_app_def open_upstream_def process_upstream_def fail_stage_def case_prod_unfold Let_def
      split: option.split)

lemma rejected_cross: "cross_plaintext R H clk f m = Some m' \<Longrightarrow> rejected_ok m' = rejected_ok m"
  by (auto simp: cross_plaintext_def rejected_ok_def split: option.splits plaintext.splits bind_splits)

lemma rejected_collect: "rejected_ok m \<Longrightarrow> rejected_ok (snd (collect R clk m))"
  by (auto simp: collect_def case_prod_unfold Let_def split: option.split)

lemma pump_inv:
  assumes run: "pump_impl R H clk f m = Some (io, m')" and m: "P m"
    and app: "\<And>m. P m \<Longrightarrow> stage_all P (process_app R m)" and up: "\<And>m. P m \<Longrightarrow> stage_all P (open_upstream R m)"
    and proc: "\<And>m. P m \<Longrightarrow> stage_all P (process_upstream R m)"
    and cross: "\<And>m m'. P m \<Longrightarrow> cross_plaintext R H clk f m = Some m' \<Longrightarrow> P m'"
    and close: "\<And>m. P m \<Longrightarrow> P (propagate_closes R m)" and coll: "\<And>m. P m \<Longrightarrow> P (snd (collect R clk m))"
  shows "P m'"
proof (cases "tm_failed m")
  case True
  with run m show ?thesis by (simp add: pump_impl_def)
next
  case False
  show ?thesis
  proof (cases "process_app R m")
    case (Give_Up m1)
    with run app[OF m] False show ?thesis by (simp add: pump_impl_def)
  next
    case s1: (Go_On m1)
    with app[OF m] have m1: "P m1" by simp
    show ?thesis
    proof (cases "open_upstream R m1")
      case (Give_Up m2)
      with run up[OF m1] False s1 show ?thesis by (simp add: pump_impl_def)
    next
      case s2: (Go_On m2)
      with up[OF m1] have m2: "P m2" by simp
      show ?thesis
      proof (cases "process_upstream R m2")
        case (Give_Up m3)
        with run proc[OF m2] False s1 s2 show ?thesis by (simp add: pump_impl_def)
      next
        case s3: (Go_On m3)
        with proc[OF m2] have m3: "P m3" by simp
        from run False s1 s2 s3 obtain m4 where m4: "cross_plaintext R H clk f m3 = Some m4"
          "collect R clk (propagate_closes R m4) = (io, m')" by (auto simp: pump_impl_def)
        from coll[OF close[OF cross[OF m3 m4(1)]]] m4(2) show ?thesis by simp
      qed
    qed
  qed
qed

lemma rejected_pump: "pump_impl R H clk f m = Some (io, m') \<Longrightarrow> rejected_ok m \<Longrightarrow> rejected_ok m'"
  by (erule pump_inv[where P = rejected_ok]) (simp_all add: rejected_stages rejected_cross rejected_collect)

lemma rejected_step: "mitm_step R H clk op m = Some (io, m') \<Longrightarrow> rejected_ok m \<Longrightarrow> rejected_ok m'"
  by (cases op) (auto simp: rejected_recv pump_def pump_dns_def dest: rejected_pump)

lemma rejected_run: "mitm_run R H clk ops m = Some m' \<Longrightarrow> rejected_ok m \<Longrightarrow> rejected_ok m'"
  by (induction ops arbitrary: m) (auto dest: rejected_step split: option.splits prod.splits)


text \<open>C18: a failed splice stays failed, silently. In every state a splice can reach, only a failed one
  blames the app for rejecting the certificate; and once failed it stays failed, whatever arrives: the
  blame does not change and every pump reports the flow closed and sends nothing.\<close>

theorem splice_failure_is_final:
  assumes "new_splice R cfgs kind n = Some m" and "mitm_run R H clk ops m = Some m'"
  shows "(tm_cert_rejected m' \<longrightarrow> tm_failed m')
    \<and> (tm_failed m' \<longrightarrow> mitm_step R H clk op m' = Some (io, m'') \<longrightarrow>
         tm_failed m'' \<and> tm_cert_rejected m'' = tm_cert_rejected m' \<and> (io = None \<or> io = Some closed_io))"
proof -
  have "rejected_ok m"
    using assms(1) by (auto simp: new_splice_def mitm_new_def mitm_new_dns_def with_plaintext_def rejected_ok_def split: option.splits dns_kind.splits)
  from rejected_run[OF assms(2) this] show ?thesis by (auto simp: rejected_ok_def dest: failed_step)
qed


subsection \<open>Traced sessions\<close>

type_synonym 't trace = "'t \<times> bytes \<times> bytes" \<comment> \<open>the session, what was read from it, what was written to it\<close>

definition on_session :: "('t \<Rightarrow> 'a \<times> 't) \<Rightarrow> 't trace \<Rightarrow> 'a \<times> 't trace" where
  "on_session f tr = (case tr of (t, rd, wr) \<Rightarrow> let (a, t) = f t in (a, t, rd, wr))"

definition traced :: "'t session \<Rightarrow> 't trace session" where
  "traced S =
     \<lparr>se_read_tls = (\<lambda>data. on_session (se_read_tls S data)), se_process = on_session (se_process S),
      se_pending = (\<lambda>(t, rd, wr). se_pending S t),
      se_read = (\<lambda>(t, rd, wr). let (data, t) = se_read S t in (data, t, rd @ data, wr)),
      se_write = (\<lambda>data (t, rd, wr). (se_write S data t, rd, wr @ data)),
      se_close_notify = (\<lambda>(t, rd, wr). (se_close_notify S t, rd, wr)),
      se_write_tls = on_session (se_write_tls S)\<rparr>"

definition traced_rustls :: "('s, 'c) rustls \<Rightarrow> ('s trace, 'c trace) rustls" where
  "traced_rustls R =
     \<lparr>ru_server = traced (ru_server R), ru_client = traced (ru_client R),
      ru_new_server = (\<lambda>cfg n. map_option (\<lambda>s. (s, [], [])) (ru_new_server R cfg n)),
      ru_server_name = (\<lambda>tr. ru_server_name R (fst tr)), ru_handshaking = (\<lambda>tr. ru_handshaking R (fst tr)),
      ru_sni_valid = ru_sni_valid R,
      ru_new_client = (\<lambda>cfg name tr. map_option (\<lambda>c. (c, [], [])) (ru_new_client R cfg name (fst tr))),
      ru_key_log = ru_key_log R\<rparr>"

lemma traced_simps [simp]:
  "ru_server (traced_rustls R) = traced (ru_server R)" "ru_client (traced_rustls R) = traced (ru_client R)"
  by (simp_all add: traced_rustls_def)

definition log_of :: "'t trace \<Rightarrow> bytes \<times> bytes" where
  "log_of tr = snd tr"

lemma log_of_pair [simp]: "log_of (t, rd, wr) = (rd, wr)"
  by (simp add: log_of_def)

lemma on_session_log [simp]: "log_of (snd (on_session f tr)) = log_of tr"
  by (cases tr) (simp add: log_of_def on_session_def case_prod_unfold Let_def)

lemma traced_log [simp]:
  "log_of (snd (se_process (traced S) tr)) = log_of tr" "log_of (snd (se_read_tls (traced S) data tr)) = log_of tr"
  "log_of (snd (se_write_tls (traced S) tr)) = log_of tr" "log_of (se_close_notify (traced S) tr) = log_of tr"
  "log_of (se_write (traced S) data tr) = (fst (log_of tr), snd (log_of tr) @ data)"
  "log_of (snd (se_read (traced S) tr)) = (fst (log_of tr) @ fst (se_read (traced S) tr), snd (log_of tr))"
  by (cases tr; simp add: traced_def log_of_def case_prod_unfold Let_def on_session_log[unfolded log_of_def])+

lemma read_all_log [simp]: "log_of (snd (read_all (traced S) data tr)) = log_of tr"
proof (induction "traced S" data tr rule: read_all.induct)
  case (1 data tr)
  show ?case
  proof (cases "data = []")
    case True
    then show ?thesis by (simp add: read_all.simps)
  next
    case False
    obtain r tr' where r: "se_read_tls (traced S) data tr = (r, tr')" by (cases "se_read_tls (traced S) data tr")
    then have l: "log_of tr' = log_of tr" using traced_log(2)[of S data tr] by simp
    show ?thesis
    proof (cases r)
      case None
      with False r l show ?thesis by (simp add: read_all.simps[of "traced S" data])
    next
      case (Some n)
      with False r l 1[OF False] show ?thesis
        by (cases "n = 0") (simp_all add: read_all.simps[of "traced S" data])
    qed
  qed
qed

lemma read_loop_inv:
  assumes "read_loop S f n p = Some q" and "P p"
    and "\<And>t x. P (t, x) \<Longrightarrow> fst (se_read S t) = [] \<Longrightarrow> P (snd (se_read S t), x)"
    and "\<And>t x q. P (t, x) \<Longrightarrow> fst (se_read S t) \<noteq> [] \<Longrightarrow> f (fst (se_read S t)) (snd (se_read S t), x) = Some q \<Longrightarrow> P q"
  shows "P q"
  using assms(1,2)
proof (induction n arbitrary: p)
  case 0
  then show ?case by simp
next
  case (Suc n)
  obtain t x where p: "p = (t, x)" by (cases p)
  obtain data t' where r: "se_read S t = (data, t')" by force
  show ?case
  proof (cases "data = []")
    case True
    with Suc.prems p r assms(3)[of t x] show ?thesis by simp
  next
    case False
    with Suc.prems(1) p r obtain p' where p': "f data (t', x) = Some p'" "read_loop S f n p' = Some q"
      by (auto split: option.splits)
    with assms(4)[of t x p'] r Suc.prems(2) p False have "P p'" by simp
    from Suc.IH[OF p'(2) this] show ?thesis .
  qed
qed

lemmas read_plain_inv = read_loop_inv[of _ _ "se_pending _ _ + 1", folded read_plain_def]

lemma stage_all_mono: "stage_all Q st \<Longrightarrow> (\<And>m. Q m \<Longrightarrow> Q' m) \<Longrightarrow> stage_all Q' st"
  by (cases st) simp_all

text \<open>
  What the properties speak of: the rewriter or the DNS filter, and the logs of the two sessions. Only
  the crossing changes it, but for the upstream session that appears with empty logs.
\<close>

fun core :: "('d, 'e) plaintext \<Rightarrow> rewriter + ('d, 'e) dns_stream" where
  "core (Pt_Http tap w) = Inl w"
| "core (Pt_Dns dns) = Inr dns"

definition view :: "('s trace, 'c trace, 'd, 'e) tls_mitm \<Rightarrow>
    (rewriter + ('d, 'e) dns_stream) \<times> (bytes \<times> bytes) \<times> (bytes \<times> bytes) option" where
  "view m = (core (tm_plaintext m), log_of (tm_server m), map_option log_of (tm_client m))"

lemma view_quiet [simp]:
  "view (mark_failed R side m) = view m" "view (mitm_finish clk m) = view m" "view (m\<lparr>tm_app_closed := b\<rparr>) = view m"
  "view (m\<lparr>tm_upstream_closed := b\<rparr>) = view m" "view (learn_host name m) = view m"
  "view (snd (mitm_take_transactions m)) = view m"
  by (auto simp: view_def mark_failed_def mitm_finish_def learn_host_def mitm_take_transactions_def case_prod_unfold
      Let_def split: plaintext.split)

lemma view_recv [simp]:
  "view (recv_from_app (traced_rustls R) data m) = view m" "view (recv_from_upstream (traced_rustls R) data m) = view m"
  by (auto simp: recv_from_app_def recv_from_upstream_def case_prod_unfold Let_def split: option.split) (simp_all add: view_def)

lemma view_process: "stage_all (\<lambda>m'. view m' = view m) (process_app (traced_rustls R) m)"
    "stage_all (\<lambda>m'. view m' = view m) (process_upstream (traced_rustls R) m)"
  by (auto simp: process_app_def process_upstream_def fail_stage_def case_prod_unfold Let_def split: option.split)
    (simp_all add: view_def)

lemma view_open:
  "stage_all (\<lambda>m'. view m' = view m \<or> tm_client m = None \<and> view m' = (core (tm_plaintext m), log_of (tm_server m), Some ([], [])))
     (open_upstream (traced_rustls R) m)"
proof -
  have h: "core (tm_plaintext (learn_host name m)) = core (tm_plaintext m)" "tm_server (learn_host name m) = tm_server m"
    "tm_client (learn_host name m) = tm_client m"
    "tm_client_config (learn_host name m) = tm_client_config m" for name
    by (simp_all add: learn_host_def split: plaintext.split)
  show ?thesis
  proof (cases "tm_client m")
    case None
    then show ?thesis
      by (auto simp: open_upstream_def fail_stage_def Let_def split: option.split) (auto simp: view_def traced_rustls_def h)
  qed (simp add: open_upstream_def)
qed

lemma view_close [simp]: "view (propagate_closes (traced_rustls R) m) = view m"
  by (cases "tm_client m"; cases "tm_app_closed m"; cases "tm_upstream_closed m") (simp_all add: propagate_closes_def view_def)

lemma view_collect [simp]: "view (snd (collect (traced_rustls R) clk m)) = view m"
  by (auto simp: collect_def case_prod_unfold Let_def split: option.split) (auto simp: view_def)

lemma pump_view_inv:
  assumes "pump_impl (traced_rustls R) H clk f (m :: ('s trace, 'c trace, 'd, 'e) tls_mitm) = Some (io, m')" and "P (view m)"
    and opened: "\<And>x s. P (x, s, None) \<Longrightarrow> P (x, s, Some ([], []))"
    and cross: "\<And>m m' :: ('s trace, 'c trace, 'd, 'e) tls_mitm.
      P (view m) \<Longrightarrow> cross_plaintext (traced_rustls R) H clk f m = Some m' \<Longrightarrow> P (view m')"
  shows "P (view m')"
proof (rule pump_inv[OF assms(1), where P = "\<lambda>m. P (view m)"])
  fix m :: "('s trace, 'c trace, 'd, 'e) tls_mitm" assume m: "P (view m)"
  show "stage_all (\<lambda>m. P (view m)) (process_app (traced_rustls R) m)" using m by (intro stage_all_mono[OF view_process(1)]) simp
  show "stage_all (\<lambda>m. P (view m)) (process_upstream (traced_rustls R) m)" using m by (intro stage_all_mono[OF view_process(2)]) simp
  show "stage_all (\<lambda>m. P (view m)) (open_upstream (traced_rustls R) m)"
  proof (rule stage_all_mono[OF view_open])
    fix m' assume "view m' = view m \<or>
        tm_client m = None \<and> view m' = (core (tm_plaintext m), log_of (tm_server m), Some ([], []))"
    then show "P (view m')"
    proof
      assume c: "tm_client m = None \<and> view m' = (core (tm_plaintext m), log_of (tm_server m), Some ([], []))"
      with m have "P (core (tm_plaintext m), log_of (tm_server m), None)" by (simp add: view_def)
      from opened[OF this] c show ?thesis by simp
    qed (use m in simp)
  qed
qed (use assms(2) cross in simp_all)

subsection \<open>HTTP without cosmetics is relayed verbatim\<close>

definition rw_off :: "rewriter \<Rightarrow> bool" where
  "rw_off w \<longleftrightarrow> \<not> rw_active w \<and> rw_req_buf w = [] \<and> rw_resp_buf w = []"

lemma rw_off_feed:
  "rw_off w \<Longrightarrow> fst (rw_feed_request data w) = data \<and> rw_off (snd (rw_feed_request data w))"
  "rw_off w \<Longrightarrow> fst (rw_feed_response data w) = data \<and> rw_off (snd (rw_feed_response data w))"
  by (simp_all add: rw_off_def rw_feed_request_def rw_feed_response_def)

definition relay_ok :: "'s trace \<Rightarrow> 'c trace \<Rightarrow> rewriter \<Rightarrow> bool" where
  "relay_ok s c w \<longleftrightarrow> rw_off w \<and> snd (log_of s) = fst (log_of c) \<and> snd (log_of c) = fst (log_of s)"

lemma cross_http_relay:
  assumes "cross_http (traced_rustls R) clk s c tap w = Some (s', c', tap', w')" and "relay_ok s c w"
  shows "relay_ok s' c' w'"
proof -
  let ?R = "traced_rustls R"
  from assms(1) obtain s1 c1 tap1 w1 where one: "read_plain (ru_server ?R) (request_chunk ?R clk) (s, c, tap, w) = Some (s1, c1, tap1, w1)"
    and two: "read_plain (ru_client ?R) (response_chunk ?R clk) (c1, s1, tap1, w1) = Some (c', s', tap', w')"
    unfolding cross_http_def by (auto split: bind_splits)
  have "(\<lambda>(s, c, tap, w). relay_ok s c w) (s1, c1, tap1, w1)"
  proof (rule read_loop_inv[OF one[unfolded read_plain_def], of "\<lambda>(s, c, tap, w). relay_ok s c w"])
    fix t x assume "case (t, x) of (s, c, tap, w) \<Rightarrow> relay_ok s c w" and "fst (se_read (ru_server ?R) t) = []"
    then show "case (snd (se_read (ru_server ?R) t), x) of (s, c, tap, w) \<Rightarrow> relay_ok s c w"
      by (cases x) (auto simp: relay_ok_def)
  next
    fix t x q assume inv: "case (t, x) of (s, c, tap, w) \<Rightarrow> relay_ok s c w"
      and f: "request_chunk ?R clk (fst (se_read (ru_server ?R) t)) (snd (se_read (ru_server ?R) t), x) = Some q"
    obtain c tap w where x: "x = (c, tap, w)" by (cases x)
    from inv f show "case q of (s, c, tap, w) \<Rightarrow> relay_ok s c w"
      using rw_off_feed(1)[of w "fst (se_read (traced (ru_server R)) t)"]
      by (auto simp: x request_chunk_def relay_ok_def case_prod_unfold Let_def)
  qed (use assms(2) in simp)
  then have mid: "relay_ok s1 c1 w1" by simp
  have "(\<lambda>(c, s, tap, w). relay_ok s c w) (c', s', tap', w')"
  proof (rule read_loop_inv[OF two[unfolded read_plain_def], of "\<lambda>(c, s, tap, w). relay_ok s c w"])
    fix t x assume "case (t, x) of (c, s, tap, w) \<Rightarrow> relay_ok s c w" and "fst (se_read (ru_client ?R) t) = []"
    then show "case (snd (se_read (ru_client ?R) t), x) of (c, s, tap, w) \<Rightarrow> relay_ok s c w"
      by (cases x) (auto simp: relay_ok_def)
  next
    fix t x q assume inv: "case (t, x) of (c, s, tap, w) \<Rightarrow> relay_ok s c w"
      and f: "response_chunk ?R clk (fst (se_read (ru_client ?R) t)) (snd (se_read (ru_client ?R) t), x) = Some q"
    obtain s tap w where x: "x = (s, tap, w)" by (cases x)
    from inv f show "case q of (c, s, tap, w) \<Rightarrow> relay_ok s c w"
      using rw_off_feed(2)[of w "fst (se_read (traced (ru_client R)) t)"]
      by (auto simp: x response_chunk_def relay_ok_def case_prod_unfold Let_def)
  qed (use mid in simp)
  then show ?thesis by simp
qed


definition relayed :: "(rewriter + ('d, 'e) dns_stream) \<times> (bytes \<times> bytes) \<times> (bytes \<times> bytes) option \<Rightarrow> bool" where
  \<comment> \<open>each side was written exactly what was read from the other\<close>
  "relayed v = (case v of (pt, s, c) \<Rightarrow>
     (\<exists>w. pt = Inl w \<and> rw_off w)
     \<and> (case c of None \<Rightarrow> s = ([], []) | Some c \<Rightarrow> snd s = fst c \<and> snd c = fst s))"

lemma relayed_cross:
  assumes v: "relayed (view m)" and "cross_plaintext (traced_rustls R) H clk f m = Some m'"
  shows "relayed (view m')"
proof (cases "tm_client m")
  case None
  with assms show ?thesis by (simp add: cross_plaintext_def)
next
  case (Some c)
  from v obtain tap w where pt: "tm_plaintext m = Pt_Http tap w" "rw_off w"
    by (cases "tm_plaintext m") (auto simp: relayed_def view_def)
  with Some assms(2) obtain s' c' tap' w' where x: "cross_http (traced_rustls R) clk (tm_server m) c tap w = Some (s', c', tap', w')"
    "m' = m\<lparr>tm_server := s', tm_client := Some c', tm_plaintext := Pt_Http tap' w'\<rparr>"
    by (auto simp: cross_plaintext_def split: bind_splits)
  have "relay_ok (tm_server m) c w" using v Some pt by (simp add: relayed_def view_def relay_ok_def)
  from cross_http_relay[OF x(1) this] show ?thesis
    using x(2) by (simp add: relayed_def view_def relay_ok_def)
qed

fun plain_op :: "mitm_op \<Rightarrow> bool" where
  \<comment> \<open>no cosmetic payload is provisioned\<close>
  "plain_op (Mi_Cosmetic css js) = (css = [] \<and> js = [])"
| "plain_op op = True"

lemma relayed_step:
  assumes "mitm_step (traced_rustls R) H clk op m = Some (io, m')" and "plain_op op" and v: "relayed (view m)"
  shows "relayed (view m')"
proof -
  have pump: "relayed (view m'')" if "pump_impl (traced_rustls R) H clk f m = Some (io', m'')" for f io' m''
    using that v by (rule pump_view_inv) (auto simp: relayed_def[of "(_, _, None)"] relayed_def[of "(_, _, Some ([], []))"]
        dest: relayed_cross)
  have cos: "relayed (view (mitm_set_cosmetic [] [] m))"
    using v by (auto simp: mitm_set_cosmetic_def view_def relayed_def set_cosmetic_def rw_off_def split: plaintext.split option.split)
  have "relayed (view (snd (take_dns_blocked m)))"
    using v by (cases "tm_plaintext m") (auto simp: take_dns_blocked_def view_def relayed_def case_prod_unfold Let_def)
  with assms pump cos show ?thesis by (cases op) (auto simp: pump_def pump_dns_def)
qed

text \<open>C14: without cosmetic filtering an intercepted HTTPS flow is relayed verbatim. Whatever TLS records
  arrive and however the reads fall, after any run of a splice the plaintext written to the server is
  byte for byte the plaintext read from the app, and the other way round; nothing crosses before there is
  an upstream session.\<close>

theorem splice_relays_verbatim:
  assumes "new_splice (traced_rustls R) cfgs None n = Some m" and "mitm_run (traced_rustls R) H clk ops m = Some m'"
    and "list_all plain_op ops"
  shows "case tm_client m' of
      None \<Rightarrow> log_of (tm_server m') = ([], [])
    | Some c \<Rightarrow> snd (log_of c) = fst (log_of (tm_server m')) \<and> snd (log_of (tm_server m')) = fst (log_of c)"
proof -
  have "relayed (view m')" if "mitm_run (traced_rustls R) H clk ops m = Some m'" "list_all plain_op ops" "relayed (view m)" for m
    using that by (induction ops arbitrary: m) (auto dest: relayed_step split: option.splits)
  moreover have "relayed (view m)"
    using assms(1) by (auto simp: new_splice_def mitm_new_def with_plaintext_def traced_rustls_def view_def relayed_def
        rw_new_def rw_off_def)
  ultimately have "relayed (view m')" using assms(2,3) by blast
  then show ?thesis by (auto simp: relayed_def view_def split: option.splits)
qed


subsection \<open>DNS over TLS is filtered\<close>

definition passed :: "(bytes \<Rightarrow> bool) \<Rightarrow> bytes \<Rightarrow> bytes" where
  \<comment> \<open>the complete frames of a stream whose query is not blocked\<close>
  "passed isb stream = concat (filter (\<lambda>f. frame_blocked isb f = None) (fst (dot_frames stream)))"

definition dot_ok :: "(bytes \<Rightarrow> bool) \<Rightarrow> bytes \<Rightarrow> bytes \<Rightarrow> ('d, 'e) dns_stream \<Rightarrow> bool" where
  \<comment> \<open>after reading \<open>rd\<close> from the app, \<open>up\<close> was written to the resolver\<close>
  "dot_ok isb rd up dns \<longleftrightarrow>
     (\<exists>bl. dns = \<lparr>dn_blocked = bl, dn_inner = In_Dot \<lparr>dot_buf = snd (dot_frames rd), dot_passthrough = False\<rparr>\<rparr>)
     \<and> up = passed isb rd"

lemma forward_filter: "concat (map (frame_forward isb) fs) = concat (filter (\<lambda>f. frame_blocked isb f = None) fs)"
  by (induction fs) (simp_all add: frame_forward_def)

lemma dot_ok_app_data:
  assumes "dot_ok isb rd up dns" and "on_app_data H isb data dns = Some (cross, dns')"
  shows "dot_ok isb (rd @ data) (up @ dc_to_upstream cross) dns'"
proof -
  obtain bl where "dns = \<lparr>dn_blocked = bl, dn_inner = In_Dot \<lparr>dot_buf = snd (dot_frames rd), dot_passthrough = False\<rparr>\<rparr>"
    using assms(1) by (auto simp: dot_ok_def)
  with assms show ?thesis
    using dot_frames_append[of rd data]
    by (auto simp: dot_ok_def on_app_data_def dot_on_app_data_def dot_loop_spec dot_result_def case_prod_unfold Let_def
        forward_filter dns_cross_new_def passed_def)
qed

lemma dot_ok_upstream: "dot_ok isb rd up dns \<Longrightarrow> snd (on_upstream_data H data dns) = dns"
  by (auto simp: dot_ok_def on_upstream_data_def)

lemma cross_dns_dot:
  assumes "cross_dns (traced_rustls R) H isb s c dns = Some (s', c', dns')" and "dot_ok isb (fst (log_of s)) (snd (log_of c)) dns"
  shows "dot_ok isb (fst (log_of s')) (snd (log_of c')) dns'"
proof -
  let ?R = "traced_rustls R"
  from assms(1) obtain s1 c1 dns1 where one: "read_plain (ru_server ?R) (query_chunk ?R H isb) (s, c, dns) = Some (s1, c1, dns1)"
    and two: "read_plain (ru_client ?R) (answer_chunk ?R H) (c1, s1, dns1) = Some (c', s', dns')"
    unfolding cross_dns_def by (auto split: bind_splits)
  have "(\<lambda>(s, c, dns). dot_ok isb (fst (log_of s)) (snd (log_of c)) dns) (s1, c1, dns1)"
  proof (rule read_loop_inv[OF one[unfolded read_plain_def], of "\<lambda>(s, c, dns). dot_ok isb (fst (log_of s)) (snd (log_of c)) dns"])
    fix t x assume "case (t, x) of (s, c, dns) \<Rightarrow> dot_ok isb (fst (log_of s)) (snd (log_of c)) dns"
      and "fst (se_read (ru_server ?R) t) = []"
    then show "case (snd (se_read (ru_server ?R) t), x) of (s, c, dns) \<Rightarrow> dot_ok isb (fst (log_of s)) (snd (log_of c)) dns"
      by (cases x) auto
  next
    fix t x q assume inv: "case (t, x) of (s, c, dns) \<Rightarrow> dot_ok isb (fst (log_of s)) (snd (log_of c)) dns"
      and f: "query_chunk ?R H isb (fst (se_read (ru_server ?R) t)) (snd (se_read (ru_server ?R) t), x) = Some q"
    let ?data = "fst (se_read (traced (ru_server R)) t)"
    obtain c dns where x: "x = (c, dns)" by (cases x)
    from f x obtain cross dns' where d: "on_app_data H isb ?data dns = Some (cross, dns')"
      by (auto simp: query_chunk_def split: bind_splits)
    have "dot_ok isb (fst (log_of t) @ ?data) (snd (log_of c) @ dc_to_upstream cross) dns'"
      using dot_ok_app_data[OF _ d] inv x by simp
    with f x d show "case q of (s, c, dns) \<Rightarrow> dot_ok isb (fst (log_of s)) (snd (log_of c)) dns"
      by (auto simp: query_chunk_def Let_def)
  qed (use assms(2) in simp)
  then have mid: "dot_ok isb (fst (log_of s1)) (snd (log_of c1)) dns1" by simp
  have "(\<lambda>(c, s, dns). dot_ok isb (fst (log_of s)) (snd (log_of c)) dns) (c', s', dns')"
  proof (rule read_loop_inv[OF two[unfolded read_plain_def], of "\<lambda>(c, s, dns). dot_ok isb (fst (log_of s)) (snd (log_of c)) dns"])
    fix t x assume "case (t, x) of (c, s, dns) \<Rightarrow> dot_ok isb (fst (log_of s)) (snd (log_of c)) dns"
      and "fst (se_read (ru_client ?R) t) = []"
    then show "case (snd (se_read (ru_client ?R) t), x) of (c, s, dns) \<Rightarrow> dot_ok isb (fst (log_of s)) (snd (log_of c)) dns"
      by (cases x) auto
  next
    fix t x q assume inv: "case (t, x) of (c, s, dns) \<Rightarrow> dot_ok isb (fst (log_of s)) (snd (log_of c)) dns"
      and f: "answer_chunk ?R H (fst (se_read (ru_client ?R) t)) (snd (se_read (ru_client ?R) t), x) = Some q"
    obtain s dns where x: "x = (s, dns)" by (cases x)
    have "snd (on_upstream_data H (fst (se_read (traced (ru_client R)) t)) dns) = dns"
      using dot_ok_upstream inv x by fastforce
    with inv f x show "case q of (c, s, dns) \<Rightarrow> dot_ok isb (fst (log_of s)) (snd (log_of c)) dns"
      by (auto simp: answer_chunk_def case_prod_unfold Let_def)
  qed (use mid in simp)
  then show ?thesis by simp
qed

definition dot_filtered :: "(bytes \<Rightarrow> bool) \<Rightarrow> (rewriter + ('d, 'e) dns_stream) \<times> (bytes \<times> bytes) \<times> (bytes \<times> bytes) option \<Rightarrow> bool"
where
  "dot_filtered isb v = (case v of (pt, s, c) \<Rightarrow>
     \<exists>dns. pt = Inr dns \<and> dot_ok isb (fst s) (case c of None \<Rightarrow> [] | Some c \<Rightarrow> snd c) dns \<and> (c = None \<longrightarrow> fst s = []))"

lemma dot_filtered_cross:
  assumes v: "dot_filtered isb (view m)" and "cross_plaintext (traced_rustls R) H clk (Some isb) m = Some m'"
  shows "dot_filtered isb (view m')"
proof (cases "tm_client m")
  case None
  with assms show ?thesis by (simp add: cross_plaintext_def)
next
  case (Some c)
  from v obtain dns where pt: "tm_plaintext m = Pt_Dns dns"
    by (cases "tm_plaintext m") (auto simp: dot_filtered_def view_def)
  with Some assms(2) obtain s' c' dns' where x: "cross_dns (traced_rustls R) H isb (tm_server m) c dns = Some (s', c', dns')"
    "m' = m\<lparr>tm_server := s', tm_client := Some c', tm_plaintext := Pt_Dns dns'\<rparr>"
    by (auto simp: cross_plaintext_def split: bind_splits)
  have "dot_ok isb (fst (log_of (tm_server m))) (snd (log_of c)) dns" using v Some pt by (simp add: dot_filtered_def view_def)
  from cross_dns_dot[OF x(1) this] show ?thesis
    using x(2) by (simp add: dot_filtered_def view_def)
qed

fun filtering_op :: "(bytes \<Rightarrow> bool) \<Rightarrow> mitm_op \<Rightarrow> bool" where
  \<comment> \<open>every pump asks the same blocklist\<close>
  "filtering_op isb (Mi_Pump_Dns f) = (f = isb)"
| "filtering_op isb Mi_Pump = False"
| "filtering_op isb op = True"

lemma dot_filtered_step:
  assumes "mitm_step (traced_rustls R) H clk op m = Some (io, m')" and "filtering_op isb op" and v: "dot_filtered isb (view m)"
  shows "dot_filtered isb (view m')"
proof -
  have pump: "dot_filtered isb (view m'')" if "pump_impl (traced_rustls R) H clk (Some isb) m = Some (io', m'')" for io' m''
    using that v by (rule pump_view_inv)
      (auto simp: dot_filtered_def[of isb "(_, _, None)"] dot_filtered_def[of isb "(_, _, Some ([], []))"] dest: dot_filtered_cross)
  have "dot_filtered isb (view (mitm_set_cosmetic css js m))" for css js
    using v by (cases "tm_plaintext m") (auto simp: mitm_set_cosmetic_def view_def dot_filtered_def)
  moreover have "dot_filtered isb (view (snd (take_dns_blocked m)))"
    using v by (cases "tm_plaintext m") (auto simp: take_dns_blocked_def take_blocked_def view_def dot_filtered_def dot_ok_def)
  ultimately show ?thesis using assms pump by (cases op) (auto simp: pump_dns_def)
qed

text \<open>C6: an intercepted DNS-over-TLS flow leaks no blocked query. Whatever records arrive and however the
  reads fall, after any run of a DoT splice under one blocklist the plaintext written to the resolver is
  exactly the sequence of complete frames read from the app whose query is not blocked.\<close>

theorem dot_splice_filters:
  assumes "new_splice (traced_rustls R) cfgs (Some Kind_Dot) n = Some m"
    and "mitm_run (traced_rustls R) H clk ops m = Some m'" and "list_all (filtering_op isb) ops"
  shows "case tm_client m' of
      None \<Rightarrow> fst (log_of (tm_server m')) = []
    | Some c \<Rightarrow> snd (log_of c) =
        concat (filter (\<lambda>f. frame_blocked isb f = None) (fst (dot_frames (fst (log_of (tm_server m'))))))"
proof -
  have "dot_filtered isb (view m')"
    if "mitm_run (traced_rustls R) H clk ops m = Some m'" "list_all (filtering_op isb) ops" "dot_filtered isb (view m)" for m
    using that by (induction ops arbitrary: m) (auto dest: dot_filtered_step split: option.splits)
  moreover have "dot_filtered isb (view m)"
    using assms(1) by (auto simp: new_splice_def mitm_new_dns_def with_plaintext_def traced_rustls_def view_def
        dot_filtered_def dot_ok_def dns_stream_new_def dot_new_def passed_def dot_frames_wait)
  ultimately have "dot_filtered isb (view m')" using assms(2,3) by blast
  then show ?thesis by (auto simp: dot_filtered_def dot_ok_def passed_def view_def split: option.splits)
qed


subsection \<open>The read loops end by themselves\<close>

lemma read_loop_ends:
  assumes "\<And>t d t'. se_read S t = (d, t') \<Longrightarrow> d \<noteq> [] \<Longrightarrow> se_pending S t' < se_pending S t"
    and "\<And>d t x t' x'. f d (t, x) = Some (t', x') \<Longrightarrow> se_pending S t' \<le> se_pending S t"
  shows "se_pending S t < n \<Longrightarrow> read_loop S f n (t, x) = Some (t', x') \<Longrightarrow> \<exists>u. se_read S u = ([], t')"
proof (induction n arbitrary: t x)
  case 0
  then show ?case by simp
next
  case (Suc n)
  obtain d t1 where r: "se_read S t = (d, t1)" by (cases "se_read S t")
  show ?case
  proof (cases "d = []")
    case True
    with Suc.prems(2) r have "se_read S t = ([], t')" by simp
    then show ?thesis by blast
  next
    case False
    with Suc.prems(2) r obtain t2 x2 where f: "f d (t1, x) = Some (t2, x2)" "read_loop S f n (t2, x2) = Some (t', x')"
      by (auto split: option.splits)
    have "se_pending S t2 < n" using assms(1)[OF r False] assms(2)[OF f(1)] Suc.prems(1) by linarith
    from Suc.IH[OF this f(2)] show ?thesis .
  qed
qed


subsection \<open>Sessions without encryption\<close>

text \<open>For the witnesses: a session is what it received and not yet handed out, and what waits to be sent.\<close>

definition clear_session :: "(bytes \<times> bytes) session" where
  "clear_session =
     \<lparr>se_read_tls = (\<lambda>data (i, out). (Some (length data), i @ data, out)), se_process = (\<lambda>t. (Some False, t)),
      se_pending = (\<lambda>(i, out). length i), se_read = (\<lambda>(i, out). (take 16384 i, drop 16384 i, out)),
      se_write = (\<lambda>data (i, out). (i, out @ data)), se_close_notify = (\<lambda>t. t),
      se_write_tls = (\<lambda>(i, out). (Some out, i, []))\<rparr>"

definition clear_rustls :: "(bytes \<times> bytes, bytes \<times> bytes) rustls" where
  "clear_rustls =
     \<lparr>ru_server = clear_session, ru_client = clear_session, ru_new_server = (\<lambda>_ _. Some ([], [])),
      ru_server_name = (\<lambda>_. Some (asc ''h'')), ru_handshaking = (\<lambda>_. False), ru_sni_valid = (\<lambda>_. True),
      ru_new_client = (\<lambda>_ _ _. Some ([], [])), ru_key_log = (\<lambda>_. [])\<rparr>"


definition demo_configs :: mitm_configs where
  "demo_configs =
     \<lparr>mc_server = \<lparr>tc_alpn = []\<rparr>, mc_client = \<lparr>tc_alpn = []\<rparr>, mc_server_doh = \<lparr>tc_alpn = [H2_ALPN, H1_ALPN]\<rparr>,
      mc_client_doh = \<lparr>tc_alpn = [H1_ALPN]\<rparr>\<rparr>"

definition clear_splice :: "dns_kind option \<Rightarrow> ((bytes \<times> bytes) trace, (bytes \<times> bytes) trace, unit, unit) tls_mitm" where
  "clear_splice kind = the (new_splice (traced_rustls clear_rustls) demo_configs kind 0)"

lemma clear_splice_new: "new_splice (traced_rustls clear_rustls) demo_configs kind 0 = Some (clear_splice kind)"
  by (simp add: clear_splice_def new_splice_def mitm_new_def mitm_new_dns_def with_plaintext_def traced_rustls_def
      clear_rustls_def split: option.split dns_kind.split)

definition clear_run :: "dns_kind option \<Rightarrow> mitm_op list \<Rightarrow> ((bytes \<times> bytes) trace, (bytes \<times> bytes) trace, unit, unit) tls_mitm option"
where
  "clear_run kind ops = mitm_run (traced_rustls clear_rustls) demo_hpack id ops (clear_splice kind)"

text \<open>A session that refuses the app's first record during the handshake.\<close>

definition refusing_rustls :: "(bytes \<times> bytes, bytes \<times> bytes) rustls" where
  "refusing_rustls = clear_rustls\<lparr>ru_server := clear_session\<lparr>se_process := (\<lambda>t. (None, t))\<rparr>, ru_handshaking := (\<lambda>_. True)\<rparr>"

definition fresh_splice :: "(bytes \<times> bytes, bytes \<times> bytes, unit, unit) tls_mitm" where
  "fresh_splice =
     \<lparr>tm_server = ([], []), tm_client = None, tm_client_config = mc_client demo_configs, tm_host = None, tm_app_closed = False, tm_upstream_closed = False,
      tm_failed = False, tm_cert_rejected = False, tm_plaintext = Pt_Http tap_new rw_new\<rparr>"

lemma refused_run:
  "new_splice refusing_rustls demo_configs None 0 = Some fresh_splice"
  "mitm_run refusing_rustls demo_hpack id [Mi_Pump] fresh_splice = Some (fresh_splice\<lparr>tm_failed := True, tm_cert_rejected := True\<rparr>)"
  "mitm_step refusing_rustls demo_hpack id Mi_Pump (fresh_splice\<lparr>tm_failed := True, tm_cert_rejected := True\<rparr>) =
     Some (Some closed_io, fresh_splice\<lparr>tm_failed := True, tm_cert_rejected := True\<rparr>)"
  by (simp_all add: new_splice_def mitm_new_def with_plaintext_def refusing_rustls_def clear_rustls_def clear_session_def
      fresh_splice_def pump_def pump_impl_def process_app_def fail_stage_def mark_failed_def)

lemma splice_failure_is_final_witness:
  "tm_failed (fresh_splice\<lparr>tm_failed := True, tm_cert_rejected := True\<rparr>)
   \<and> (Some closed_io = None \<or> Some closed_io = Some closed_io)"
  using splice_failure_is_final[OF refused_run(1,2), of Mi_Pump "Some closed_io"] refused_run(3) by simp

lemma clear_relay: "map_option (\<lambda>m. (log_of (tm_server m), map_option log_of (tm_client m)))
    (clear_run None [Mi_App [1, 2], Mi_Pump, Mi_Upstream [4], Mi_Pump]) = Some (([1, 2], [4]), Some ([4], [1, 2]))"
  by code_simp

lemma splice_relays_verbatim_witness:
  "\<exists>m c. clear_run None [Mi_App [1, 2], Mi_Pump, Mi_Upstream [4], Mi_Pump] = Some m \<and> tm_client m = Some c
     \<and> fst (log_of (tm_server m)) = [1, 2] \<and> snd (log_of c) = fst (log_of (tm_server m))"
proof -
  from clear_relay obtain m c where m: "clear_run None [Mi_App [1, 2], Mi_Pump, Mi_Upstream [4], Mi_Pump] = Some m"
    "fst (log_of (tm_server m)) = [1, 2]" "tm_client m = Some c" by auto
  have "list_all plain_op [Mi_App [1, 2], Mi_Pump, Mi_Upstream [4], Mi_Pump]" by simp
  from splice_relays_verbatim[OF clear_splice_new m(1)[unfolded clear_run_def] this] m show ?thesis
    by (intro exI[of _ m] exI[of _ c]) simp
qed

text \<open>An empty DNS message, which is no query, and two bytes of a second frame.\<close>

lemma clear_dot: "map_option (\<lambda>m. (log_of (tm_server m), map_option log_of (tm_client m)))
    (clear_run (Some Kind_Dot) [Mi_App [0, 1, 9, 0, 7], Mi_Pump_Dns (\<lambda>_. True)]) = Some (([0, 1, 9, 0, 7], []), Some ([], [0, 1, 9]))"
  by code_simp

lemma dot_splice_filters_witness:
  "\<exists>m c. clear_run (Some Kind_Dot) [Mi_App [0, 1, 9, 0, 7], Mi_Pump_Dns (\<lambda>_. True)] = Some m \<and> tm_client m = Some c
     \<and> snd (log_of c) = [0, 1, 9]
     \<and> snd (log_of c) = concat (filter (\<lambda>f. frame_blocked (\<lambda>_. True) f = None) (fst (dot_frames (fst (log_of (tm_server m))))))"
proof -
  from clear_dot obtain m c where m: "clear_run (Some Kind_Dot) [Mi_App [0, 1, 9, 0, 7], Mi_Pump_Dns (\<lambda>_. True)] = Some m"
    "tm_client m = Some c" "snd (log_of c) = [0, 1, 9]" by auto
  have "list_all (filtering_op (\<lambda>_. True)) [Mi_App [0, 1, 9, 0, 7], Mi_Pump_Dns (\<lambda>_. True)]" by simp
  from dot_splice_filters[OF clear_splice_new m(1)[unfolded clear_run_def] this] m show ?thesis
    by (intro exI[of _ m] exI[of _ c]) simp
qed

end
