(* ===== verification/Runtime.thy ===== *)
theory Runtime
  imports Fw_Properties Har_Export
begin

section \<open>The datapath thread\<close>

text \<open>
  The loop of \<open>runtime.rs\<close>: control commands queued by other threads, one pass of the poll loop, the
  hand-over of event batches to the app and of packets to the tunnel. The threads meet only in the
  command queue, which each side locks, and in the stop flag, so a session is a sequence of steps:
  another thread queues a command or asks to stop, or the datapath thread makes one pass.

  What the operating system answers is a function of the number of calls the loop made before
  (\<open>dp_calls\<close>), as in the forwarder's own environment. All packets that one readiness of the tunnel
  yields are one answer: the code reads until a read gives nothing. A panic unwinds to the top of the
  thread, which then is gone: the loop's last flush is skipped.
\<close>

subsection \<open>Commands\<close>

datatype command =
    Load_Engine bytes "bytes option"
  | Set_Encrypted_Dns_Mode encrypted_dns_mode
  | Update_Firewall "(i32, app_policy) hash_map"
  | Set_Transport u8
  | Start_Pcap i32 nat
  | Stop_Pcap
  | Export_Har i32
  | Set_Log_Open bool
  | Set_Cosmetic bool bool
  | Set_Proxy_Dns bool
  | Set_Dns_Upstream dns_transport "ip_addr option" u16 "bytes option" "bytes option"

definition TUN :: token where "TUN = 0"
definition WAKE :: token where "WAKE = 1"
definition FLUSH_INTERVAL :: int where "FLUSH_INTERVAL = 150"
definition MAX_BATCH :: nat where "MAX_BATCH = 256"
definition HEARTBEAT_INTERVAL :: int where "HEARTBEAT_INTERVAL = 2000"
definition FLUSH_INTERVAL_IDLE :: int where "FLUSH_INTERVAL_IDLE = 1000"
definition HEARTBEAT_INTERVAL_IDLE :: int where "HEARTBEAT_INTERVAL_IDLE = 15000"
definition TUN_BUF :: nat where "TUN_BUF = 65536"

subsection \<open>State\<close>

record os =
  os_setup :: bool \<comment> \<open>attaching to the JVM, cloning the registry and registering the tunnel succeed\<close>
  os_poll :: "nat \<Rightarrow> int \<Rightarrow> (token \<times> ready) list option" \<comment> \<open>the events within a timeout; \<open>None\<close> an error\<close>
  os_read :: "nat \<Rightarrow> bytes list" \<comment> \<open>the results of the reads until one fails\<close>
  os_write :: "nat \<Rightarrow> int"
  os_time :: "nat \<Rightarrow> int" \<comment> \<open>milliseconds\<close>
  os_version :: bytes \<comment> \<open>the version of the package\<close>

datatype phase = Running | Exited | Panicked

record ('c, 'm) datapath =
  dp_fw :: "('c, 'm) forwarder"
  dp_queue :: "command list"
  dp_stop :: bool
  dp_phase :: phase
  dp_last_flush :: int
  dp_last_heartbeat :: int
  dp_calls :: nat
  dp_upcalls :: "bytes list" \<comment> \<open>the batches handed to \<open>onEvents\<close>\<close>
  dp_written :: "bytes list" \<comment> \<open>what the tunnel accepted of each packet\<close>
  dp_exports :: "(i32 \<times> har_log) list" \<comment> \<open>the documents written, with their descriptors\<close>
  dp_heartbeats :: "(fw_stats \<times> nat \<times> nat \<times> nat) list" \<comment> \<open>what the heartbeat lines report\<close>

definition os_ask :: "(nat \<Rightarrow> 'a) \<Rightarrow> ('c, 'm) datapath \<Rightarrow> 'a \<times> ('c, 'm) datapath" where
  "os_ask f dp = (f (dp_calls dp), dp\<lparr>dp_calls := dp_calls dp + 1\<rparr>)"

definition on_fw :: "(('c, 'm) forwarder \<Rightarrow> ('c, 'm) forwarder) \<Rightarrow> ('c, 'm) datapath \<Rightarrow> ('c, 'm) datapath" where
  "on_fw f dp = dp\<lparr>dp_fw := f (dp_fw dp)\<rparr>"

definition unless_down :: "(('c, 'm) datapath \<Rightarrow> ('c, 'm) datapath) \<Rightarrow> ('c, 'm) datapath \<Rightarrow> ('c, 'm) datapath" where
  \<comment> \<open>nothing of the pass runs after a panic\<close>
  "unless_down f dp = (if fw_panic (dp_fw dp) then dp else f dp)"

definition session_new :: "('c, 'm) sys \<Rightarrow> os \<Rightarrow> config \<Rightarrow> ('c, 'm) datapath" where
  "session_new X E cfg =
     \<lparr>dp_fw = fw_new X cfg, dp_queue = [], dp_stop = False, dp_phase = (if os_setup E then Running else Exited),
      dp_last_flush = os_time E 0, dp_last_heartbeat = os_time E 1, dp_calls = 2,
      dp_upcalls = [], dp_written = [], dp_exports = [], dp_heartbeats = []\<rparr>"

subsection \<open>Applying commands\<close>

definition export_har :: "os \<Rightarrow> i32 \<Rightarrow> ('c, 'm) datapath \<Rightarrow> ('c, 'm) datapath" where
  "export_har E fd dp = dp\<lparr>dp_exports := dp_exports dp @ [(fd, har_document (os_version E) (fw_har (dp_fw dp)))]\<rparr>"

fun apply_command :: "('c, 'm) sys \<Rightarrow> os \<Rightarrow> command \<Rightarrow> ('c, 'm) datapath \<Rightarrow> ('c, 'm) datapath" where
  "apply_command X E (Load_Engine engine resources) dp = on_fw (load_engine X engine resources) dp"
| "apply_command X E (Set_Encrypted_Dns_Mode mode) dp = on_fw (set_encrypted_dns_mode mode) dp"
| "apply_command X E (Update_Firewall rules) dp = on_fw (set_firewall rules) dp"
| "apply_command X E (Set_Transport transport) dp = on_fw (set_transport transport) dp"
| "apply_command X E (Start_Pcap fd ring_bytes) dp = on_fw (start_pcap X ring_bytes) dp"
| "apply_command X E Stop_Pcap dp = on_fw stop_pcap dp"
| "apply_command X E (Export_Har fd) dp = export_har E fd dp"
| "apply_command X E (Set_Log_Open open) dp = on_fw (set_log_open open) dp"
| "apply_command X E (Set_Cosmetic element_hiding scriptlets) dp = on_fw (fw_set_cosmetic element_hiding scriptlets) dp"
| "apply_command X E (Set_Proxy_Dns on) dp = on_fw (set_proxy_dns_over_tcp on) dp"
| "apply_command X E (Set_Dns_Upstream transport override_ip port host path) dp =
     on_fw (set_dns_upstream transport override_ip port host path) dp"

definition apply_commands :: "('c, 'm) sys \<Rightarrow> os \<Rightarrow> ('c, 'm) datapath \<Rightarrow> ('c, 'm) datapath" where
  "apply_commands X E dp = fold (apply_command X E) (dp_queue dp) (dp\<lparr>dp_queue := []\<rparr>)"

subsection \<open>One pass\<close>

definition drain_tun :: "('c, 'm) sys \<Rightarrow> os \<Rightarrow> ('c, 'm) datapath \<Rightarrow> ('c, 'm) datapath" where
  "drain_tun X E dp =
     (let (reads, dp) = os_ask (os_read E) dp
      in fold (\<lambda>p. unless_down (on_fw (on_tun_packet X (take TUN_BUF p)))) (takeWhile (\<lambda>p. p \<noteq> []) reads) dp)"

definition on_event :: "('c, 'm) sys \<Rightarrow> os \<Rightarrow> token \<times> ready \<Rightarrow> ('c, 'm) datapath \<Rightarrow> ('c, 'm) datapath" where
  "on_event X E ev dp =
     (case ev of (token, r) \<Rightarrow>
        if token = WAKE then dp
        else if token = TUN then drain_tun X E dp
        else on_fw (on_ready X token r) dp)"

function write_packet :: "os \<Rightarrow> bytes \<Rightarrow> nat \<Rightarrow> bytes \<times> nat" where
  \<comment> \<open>what the tunnel accepts of a packet; the rest is dropped when it takes no more\<close>
  "write_packet E p calls =
     (if p = [] then ([], calls)
      else let n = os_write E calls
           in if n > 0 then
                let (rest, calls) = write_packet E (drop (nat n) p) (calls + 1) in (take (nat n) p @ rest, calls)
              else ([], calls + 1))"
  by pat_completeness auto
termination
  by (relation "measure (\<lambda>(E, p, calls). length p)") auto

declare write_packet.simps [simp del]

definition write_one :: "os \<Rightarrow> bytes \<Rightarrow> ('c, 'm) datapath \<Rightarrow> ('c, 'm) datapath" where
  "write_one E p dp =
     (let (accepted, calls) = write_packet E p (dp_calls dp)
      in dp\<lparr>dp_written := dp_written dp @ [accepted], dp_calls := calls\<rparr>)"

definition write_outbox :: "('c, 'm) sys \<Rightarrow> os \<Rightarrow> ('c, 'm) datapath \<Rightarrow> ('c, 'm) datapath" where
  "write_outbox X E dp =
     (let (outbox, fw) = take_outbox X (dp_fw dp) in fold (write_one E) outbox (dp\<lparr>dp_fw := fw\<rparr>))"

definition deliver_batch :: "('c, 'm) sys \<Rightarrow> ('c, 'm) datapath \<Rightarrow> ('c, 'm) datapath" where
  "deliver_batch X dp =
     (let (blob, fw) = flush_batch X (dp_fw dp)
      in dp\<lparr>dp_fw := fw, dp_upcalls := dp_upcalls dp @ (case blob of Some b \<Rightarrow> [b] | None \<Rightarrow> [])\<rparr>)"

definition maybe_flush :: "('c, 'm) sys \<Rightarrow> os \<Rightarrow> int \<Rightarrow> ('c, 'm) datapath \<Rightarrow> ('c, 'm) datapath" where
  \<comment> \<open>the clock is read for the test only when the batch is short, and again after a flush\<close>
  "maybe_flush X E interval dp =
     (let (due, dp) =
            (if length (fw_events (dp_fw dp)) \<ge> MAX_BATCH then (True, dp)
             else let (now, dp) = os_ask (os_time E) dp in (now - dp_last_flush dp \<ge> interval, dp))
      in if due then
           let (now, dp) = os_ask (os_time E) (deliver_batch X dp) in dp\<lparr>dp_last_flush := now\<rparr>
         else dp)"

definition maybe_heartbeat :: "os \<Rightarrow> int \<Rightarrow> ('c, 'm) datapath \<Rightarrow> ('c, 'm) datapath" where
  "maybe_heartbeat E interval dp =
     (let (now, dp) = os_ask (os_time E) dp
      in if now - dp_last_heartbeat dp \<ge> interval then
           let (stats, fw) = take_stats (dp_fw dp); (tcp_flows, udp_flows) = flow_counts fw;
               (now, dp) = os_ask (os_time E) (dp\<lparr>dp_fw := fw,
                 dp_heartbeats := dp_heartbeats dp @ [(stats, har_len fw, tcp_flows, udp_flows)]\<rparr>)
           in dp\<lparr>dp_last_heartbeat := now\<rparr>
         else dp)"

definition handle_events :: "('c, 'm) sys \<Rightarrow> os \<Rightarrow> (token \<times> ready) list \<Rightarrow> ('c, 'm) datapath \<Rightarrow> ('c, 'm) datapath" where
  \<comment> \<open>what follows a successful poll\<close>
  "handle_events X E events dp =
     unless_down (write_outbox X E)
       (unless_down (on_fw (service X))
         (fold (\<lambda>ev. unless_down (on_event X E ev)) events (apply_commands X E dp)))"

definition exit_loop :: "('c, 'm) sys \<Rightarrow> ('c, 'm) datapath \<Rightarrow> ('c, 'm) datapath" where
  "exit_loop X dp = (deliver_batch X dp)\<lparr>dp_phase := Exited\<rparr>"

definition loop_pass :: "('c, 'm) sys \<Rightarrow> os \<Rightarrow> ('c, 'm) datapath \<Rightarrow> ('c, 'm) datapath" where
  "loop_pass X E dp =
     (let hot = telemetry_hot (dp_fw dp);
          flush_interval = (if hot then FLUSH_INTERVAL else FLUSH_INTERVAL_IDLE);
          heartbeat_interval = (if hot then HEARTBEAT_INTERVAL else HEARTBEAT_INTERVAL_IDLE);
          (delay, fw) = poll_timeout_ms X (dp_fw dp);
          (polled, dp) = os_ask (\<lambda>n. os_poll E n (min (int delay) flush_interval)) (dp\<lparr>dp_fw := fw\<rparr>)
      in case polled of
           None \<Rightarrow> exit_loop X dp
         | Some events \<Rightarrow>
             let dp = handle_events X E events dp
             in if fw_panic (dp_fw dp) then dp\<lparr>dp_phase := Panicked\<rparr>
                else maybe_heartbeat E heartbeat_interval (maybe_flush X E flush_interval dp))"

definition run_pass :: "('c, 'm) sys \<Rightarrow> os \<Rightarrow> ('c, 'm) datapath \<Rightarrow> ('c, 'm) datapath" where
  \<comment> \<open>the stop flag is read at the head of each pass\<close>
  "run_pass X E dp =
     (if dp_phase dp \<noteq> Running then dp else if dp_stop dp then exit_loop X dp else loop_pass X E dp)"

subsection \<open>Sessions\<close>

definition send :: "command \<Rightarrow> ('c, 'm) datapath \<Rightarrow> ('c, 'm) datapath" where
  "send c dp = dp\<lparr>dp_queue := dp_queue dp @ [c]\<rparr>"

definition request_stop :: "('c, 'm) datapath \<Rightarrow> ('c, 'm) datapath" where
  "request_stop dp = dp\<lparr>dp_stop := True\<rparr>"

datatype session_act = Act_Send command | Act_Stop | Act_Pass

fun session_step :: "('c, 'm) sys \<Rightarrow> os \<Rightarrow> session_act \<Rightarrow> ('c, 'm) datapath \<Rightarrow> ('c, 'm) datapath" where
  "session_step X E (Act_Send c) dp = send c dp"
| "session_step X E Act_Stop dp = request_stop dp"
| "session_step X E Act_Pass dp = run_pass X E dp"

definition session_run :: "('c, 'm) sys \<Rightarrow> os \<Rightarrow> session_act list \<Rightarrow> ('c, 'm) datapath \<Rightarrow> ('c, 'm) datapath" where
  "session_run X E steps dp = fold (session_step X E) steps dp"

subsection \<open>The loop is a run of the forwarder\<close>

fun control_op :: "fw_op \<Rightarrow> bool" where
  \<comment> \<open>the operations that only commands cause\<close>
  "control_op (Op_StartPcap n) = True"
| "control_op Op_StopPcap = True"
| "control_op op = setting_op op"

fun command_op :: "command \<Rightarrow> fw_op option" where
  "command_op (Load_Engine engine resources) = Some (Op_LoadEngine engine resources)"
| "command_op (Set_Encrypted_Dns_Mode mode) = Some (Op_DnsMode mode)"
| "command_op (Update_Firewall rules) = Some (Op_Firewall rules)"
| "command_op (Set_Transport transport) = Some (Op_Transport transport)"
| "command_op (Start_Pcap fd ring_bytes) = Some (Op_StartPcap ring_bytes)"
| "command_op Stop_Pcap = Some Op_StopPcap"
| "command_op (Export_Har fd) = None"
| "command_op (Set_Log_Open open) = Some (Op_LogOpen open)"
| "command_op (Set_Cosmetic element_hiding scriptlets) = Some (Op_Cosmetic element_hiding scriptlets)"
| "command_op (Set_Proxy_Dns on) = Some (Op_ProxyDns on)"
| "command_op (Set_Dns_Upstream transport override_ip port host path) = Some (Op_DnsUpstream transport override_ip port host path)"

fun sent :: "session_act list \<Rightarrow> command list" where
  "sent [] = []"
| "sent (Act_Send c # steps) = c # sent steps"
| "sent (_ # steps) = sent steps"

lemma sent_append [simp]: "sent (xs @ ys) = sent xs @ sent ys"
  by (induction xs rule: sent.induct) auto

lemma fw_run_simps [simp]:
  "fw_run X [] fw = fw" "fw_run X (ops @ ops') fw = fw_run X ops' (fw_run X ops fw)"
  by (simp_all add: fw_run_def)

lemma fw_run_one: "\<not> fw_panic fw \<Longrightarrow> fw_run X [op] fw = fw_apply X op fw"
  by (simp add: fw_run_def unless_panic_def)

definition ran :: "('c, 'm) sys \<Rightarrow> fw_op list \<Rightarrow> ('c, 'm) datapath \<Rightarrow> ('c, 'm) datapath \<Rightarrow> bool" where
  \<comment> \<open>a part of a pass drove the forwarder through operations, the control operations among them as given\<close>
  "ran X cs dp dp' \<longleftrightarrow>
     (\<exists>ops. dp_fw dp' = fw_run X ops (dp_fw dp) \<and> filter control_op ops = cs) \<and> dp_calls dp \<le> dp_calls dp'
     \<and> dp_queue dp' = dp_queue dp \<and> dp_phase dp' = dp_phase dp \<and> dp_last_flush dp' = dp_last_flush dp"

lemma ran_idle:
  "dp_fw dp' = dp_fw dp \<Longrightarrow> dp_calls dp \<le> dp_calls dp' \<Longrightarrow> dp_queue dp' = dp_queue dp \<Longrightarrow> dp_phase dp' = dp_phase dp
     \<Longrightarrow> dp_last_flush dp' = dp_last_flush dp \<Longrightarrow> ran X [] dp dp'"
  unfolding ran_def by (intro conjI exI[of _ "[]"]) simp_all

lemma ran_trans: "ran X cs dp dp' \<Longrightarrow> ran X cs' dp' dp'' \<Longrightarrow> ran X (cs @ cs') dp dp''"
  unfolding ran_def by (elim conjE exE, intro conjI) (force intro!: exI[of _ "_ @ _"])+

lemmas ran_then = ran_trans[where cs = "[]", simplified]

lemma ran_apply:
  assumes "\<not> fw_panic (dp_fw dp)" and "dp_fw dp' = fw_apply X op (dp_fw dp)"
    and "dp_calls dp' = dp_calls dp" "dp_queue dp' = dp_queue dp" "dp_phase dp' = dp_phase dp" "dp_last_flush dp' = dp_last_flush dp"
  shows "ran X (if control_op op then [op] else []) dp dp'"
  unfolding ran_def using assms by (intro conjI exI[of _ "[op]"]) (simp_all add: fw_run_one)

lemma ran_on_fw:
  assumes "\<not> fw_panic (dp_fw dp)" and "f = fw_apply X op" and "\<not> control_op op"
  shows "ran X [] dp (on_fw f dp)"
  using ran_apply[of dp "on_fw f dp" X op] assms by (simp add: on_fw_def)

lemma ran_unless:
  assumes "\<not> fw_panic (dp_fw dp) \<Longrightarrow> ran X [] dp (f dp)"
  shows "ran X [] dp (unless_down f dp)"
  using assms by (auto simp: unless_down_def intro: ran_idle)

lemma ran_fold:
  assumes "\<And>x dp. ran X [] dp (f x dp)"
  shows "ran X [] dp (fold f xs dp)"
proof (induction xs arbitrary: dp)
  case Nil
  then show ?case by (simp add: ran_idle)
next
  case (Cons x xs)
  show ?case using ran_then[OF assms Cons.IH] by simp
qed

lemma ran_drain_tun: "ran X [] dp (drain_tun X E dp)"
proof -
  have p: "ran X [] dp' (unless_down (on_fw (on_tun_packet X p)) dp')" for dp' :: "('a, 'b) datapath" and p
    by (intro ran_unless ran_on_fw[where op = "Op_Packet p"]) (auto simp: fun_eq_iff)
  have "ran X [] dp (dp\<lparr>dp_calls := dp_calls dp + 1\<rparr>)" by (rule ran_idle) simp_all
  from ran_then[OF this ran_fold[OF p]] show ?thesis by (simp add: drain_tun_def os_ask_def)
qed

lemma ran_on_event: "\<not> fw_panic (dp_fw dp) \<Longrightarrow> ran X [] dp (on_event X E ev dp)"
  by (cases ev) (auto simp: on_event_def fun_eq_iff
    intro: ran_idle ran_drain_tun ran_on_fw[where op = "Op_Ready (fst ev) (snd ev)"])

lemma apply_command_fw:
  "dp_fw (apply_command X E c dp) = (case command_op c of None \<Rightarrow> dp_fw dp | Some op \<Rightarrow> fw_apply X op (dp_fw dp))"
  "dp_queue (apply_command X E c dp) = dp_queue dp" "dp_calls (apply_command X E c dp) = dp_calls dp"
  "dp_phase (apply_command X E c dp) = dp_phase dp" "dp_last_flush (apply_command X E c dp) = dp_last_flush dp"
  by (cases c; simp add: on_fw_def export_har_def)+

lemma command_op_control: "command_op c = Some op \<Longrightarrow> control_op op"
  by (cases c) auto

lemma control_no_panic: "control_op op \<Longrightarrow> fw_panic (fw_apply X op fw) = fw_panic fw"
  by (cases "setting_op op") (simp add: setting_same, cases op, auto simp: start_pcap_def stop_pcap_def)

lemma command_no_panic: "fw_panic (dp_fw (apply_command X E c dp)) = fw_panic (dp_fw dp)"
  by (auto simp: apply_command_fw control_no_panic command_op_control split: option.split)

lemma ran_commands:
  assumes "\<not> fw_panic (dp_fw dp)"
  shows "ran X (List.map_filter command_op cs) dp (fold (apply_command X E) cs dp)
    \<and> \<not> fw_panic (dp_fw (fold (apply_command X E) cs dp))
    \<and> dp_queue (fold (apply_command X E) cs dp) = dp_queue dp"
  using assms
proof (induction cs arbitrary: dp)
  case Nil
  then show ?case by (simp add: ran_idle map_filter_simps)
next
  case (Cons c cs)
  let ?dp = "apply_command X E c dp"
  have "ran X (case command_op c of None \<Rightarrow> [] | Some op \<Rightarrow> [op]) dp ?dp"
  proof (cases "command_op c")
    case None
    then show ?thesis by (simp add: ran_idle apply_command_fw)
  next
    case (Some op)
    then show ?thesis using ran_apply[of dp ?dp X op] Cons.prems
      by (simp add: apply_command_fw command_op_control)
  qed
  moreover have "\<not> fw_panic (dp_fw ?dp)" using Cons.prems by (simp add: command_no_panic)
  note Cons.IH[OF this]
  ultimately show ?case
    using ran_trans by (fastforce simp: map_filter_simps apply_command_fw split: option.split)
qed

lemma write_packet_calls: "calls \<le> snd (write_packet E p calls)"
proof (induction E p calls rule: write_packet.induct)
  case (1 E p calls)
  show ?case
  proof (cases "p \<noteq> [] \<and> os_write E calls > 0")
    case True
    then show ?thesis using 1[OF _ refl] by (subst write_packet.simps) (auto simp: Let_def split: prod.split)
  next
    case False
    then show ?thesis by (subst write_packet.simps) auto
  qed
qed

lemma ran_write_one: "ran X [] dp (write_one E p dp)"
  by (rule ran_idle) (simp_all add: write_one_def case_prod_unfold write_packet_calls Let_def)

lemma ran_write_outbox:
  assumes "\<not> fw_panic (dp_fw dp)"
  shows "ran X [] dp (write_outbox X E dp)"
proof -
  let ?dp = "dp\<lparr>dp_fw := snd (take_outbox X (dp_fw dp))\<rparr>"
  have "ran X [] dp ?dp" using ran_apply[of dp ?dp X Op_TakeOutbox] assms by simp
  from ran_then[OF this ran_fold[where f = "write_one E", OF ran_write_one]] show ?thesis
    by (simp add: write_outbox_def case_prod_unfold Let_def)
qed

lemma ran_handle_events:
  assumes "\<not> fw_panic (dp_fw dp)"
  shows "ran X (List.map_filter command_op (dp_queue dp)) (dp\<lparr>dp_queue := []\<rparr>) (handle_events X E events dp)"
proof -
  have c: "ran X (List.map_filter command_op (dp_queue dp)) (dp\<lparr>dp_queue := []\<rparr>) (apply_commands X E dp)"
    using ran_commands[of "dp\<lparr>dp_queue := []\<rparr>"] assms by (simp add: apply_commands_def)
  have ev: "ran X [] dp (unless_down (on_event X E ev) dp)" for ev and dp :: "('a, 'b) datapath"
    by (intro ran_unless ran_on_event)
  have sv: "ran X [] dp (unless_down (on_fw (service X)) dp)" for dp :: "('a, 'b) datapath"
    by (intro ran_unless ran_on_fw[where op = Op_Service]) (auto simp: fun_eq_iff)
  have out: "ran X [] dp (unless_down (write_outbox X E) dp)" for dp :: "('a, 'b) datapath"
    by (intro ran_unless ran_write_outbox)
  from ran_trans[OF c ran_then[OF ran_fold[OF ev] ran_then[OF sv out]]] show ?thesis
    by (simp add: handle_events_def)
qed

subsection \<open>The end of a pass\<close>

lemma flush_batch_empties:
  "fw_events (snd (flush_batch X fw)) = []" "ca_packets (fw_coarse (snd (flush_batch X fw))) = 0"
  "fw_panic (snd (flush_batch X fw)) = fw_panic fw"
  by (auto simp: flush_batch_def take_coarse_def drain_encoded_def ask_def tick_def coarse_zero_def case_prod_unfold Let_def)

definition delivered :: "('c, 'm) datapath \<Rightarrow> bool" where
  \<comment> \<open>nothing reported waits on the datapath thread\<close>
  "delivered dp \<longleftrightarrow> fw_events (dp_fw dp) = [] \<and> ca_packets (fw_coarse (dp_fw dp)) = 0"

lemma deliver_batch_fields [simp]:
  "dp_fw (deliver_batch X dp) = snd (flush_batch X (dp_fw dp))" "dp_queue (deliver_batch X dp) = dp_queue dp"
  "dp_calls (deliver_batch X dp) = dp_calls dp" "dp_phase (deliver_batch X dp) = dp_phase dp"
  "dp_last_flush (deliver_batch X dp) = dp_last_flush dp"
  by (simp_all add: deliver_batch_def case_prod_unfold Let_def)

lemma delivered_batch: "delivered (deliver_batch X dp)"
  by (simp add: delivered_def flush_batch_empties)

definition drove :: "('c, 'm) sys \<Rightarrow> fw_op list \<Rightarrow> ('c, 'm) datapath \<Rightarrow> ('c, 'm) datapath \<Rightarrow> bool" where
  \<comment> \<open>like \<open>ran\<close>, of a whole pass\<close>
  "drove X cs dp dp' \<longleftrightarrow> (\<exists>ops. dp_fw dp' = fw_run X ops (dp_fw dp) \<and> filter control_op ops = cs)"

lemma ran_drove: "ran X cs dp dp' \<Longrightarrow> drove X cs dp dp'"
  by (simp add: ran_def drove_def)

lemma drove_trans: "drove X cs dp dp' \<Longrightarrow> drove X cs' dp' dp'' \<Longrightarrow> drove X (cs @ cs') dp dp''"
  unfolding drove_def by (elim conjE exE) (force intro!: exI[of _ "_ @ _"])

lemma drove_apply:
  assumes "\<not> fw_panic (dp_fw dp)" and "dp_fw dp' = fw_apply X op (dp_fw dp)" and "\<not> control_op op"
  shows "drove X [] dp dp'"
  unfolding drove_def using assms by (intro exI[of _ "[op]"]) (simp add: fw_run_one)

lemma drove_idle: "dp_fw dp' = dp_fw dp \<Longrightarrow> drove X [] dp dp'"
  unfolding drove_def by (intro exI[of _ "[]"]) simp

definition young_batch :: "os \<Rightarrow> nat \<Rightarrow> int \<Rightarrow> ('c, 'm) datapath \<Rightarrow> bool" where
  \<comment> \<open>a short batch, that at some reading of the clock since call \<open>n\<close> was younger than the interval\<close>
  "young_batch E n interval dp \<longleftrightarrow>
     length (fw_events (dp_fw dp)) < MAX_BATCH
     \<and> (\<exists>k\<ge>n. k < dp_calls dp \<and> os_time E k - dp_last_flush dp < interval)"

lemma maybe_flush_pass:
  assumes "\<not> fw_panic (dp_fw dp)"
  shows "drove X [] dp (maybe_flush X E i dp)"
    and "dp_queue (maybe_flush X E i dp) = dp_queue dp" "dp_phase (maybe_flush X E i dp) = dp_phase dp"
    and "\<not> fw_panic (dp_fw (maybe_flush X E i dp))"
    and "delivered (maybe_flush X E i dp) \<or> young_batch E (dp_calls dp) i (maybe_flush X E i dp)"
proof -
  have fw: "dp_fw (maybe_flush X E i dp) = snd (flush_batch X (dp_fw dp)) \<or> dp_fw (maybe_flush X E i dp) = dp_fw dp"
    by (auto simp: maybe_flush_def os_ask_def Let_def)
  then show "drove X [] dp (maybe_flush X E i dp)"
    using drove_apply[of dp "maybe_flush X E i dp" X Op_Flush] drove_idle assms by auto
  from fw show "\<not> fw_panic (dp_fw (maybe_flush X E i dp))" using assms by (auto simp: flush_batch_empties)
  show "dp_queue (maybe_flush X E i dp) = dp_queue dp" "dp_phase (maybe_flush X E i dp) = dp_phase dp"
    by (simp_all add: maybe_flush_def os_ask_def Let_def)
  show "delivered (maybe_flush X E i dp) \<or> young_batch E (dp_calls dp) i (maybe_flush X E i dp)"
    by (auto simp: maybe_flush_def os_ask_def delivered_def young_batch_def flush_batch_empties Let_def)
qed

lemma maybe_heartbeat_pass:
  assumes "\<not> fw_panic (dp_fw dp)"
  shows "drove X [] dp (maybe_heartbeat E i dp)"
    and "dp_queue (maybe_heartbeat E i dp) = dp_queue dp" "dp_phase (maybe_heartbeat E i dp) = dp_phase dp"
    and "\<not> fw_panic (dp_fw (maybe_heartbeat E i dp))"
    and "delivered (maybe_heartbeat E i dp) = delivered dp"
    and "young_batch E n j dp \<Longrightarrow> young_batch E n j (maybe_heartbeat E i dp)"
proof -
  have fw: "dp_fw (maybe_heartbeat E i dp) = snd (take_stats (dp_fw dp)) \<or> dp_fw (maybe_heartbeat E i dp) = dp_fw dp"
    by (auto simp: maybe_heartbeat_def os_ask_def case_prod_unfold Let_def)
  then show "drove X [] dp (maybe_heartbeat E i dp)"
    using drove_apply[of dp "maybe_heartbeat E i dp" X Op_TakeStats] drove_idle assms by auto
  show "\<not> fw_panic (dp_fw (maybe_heartbeat E i dp))" "delivered (maybe_heartbeat E i dp) = delivered dp"
    using fw assms by (auto simp: take_stats_def delivered_def)
  show "dp_queue (maybe_heartbeat E i dp) = dp_queue dp" "dp_phase (maybe_heartbeat E i dp) = dp_phase dp"
    by (simp_all add: maybe_heartbeat_def os_ask_def case_prod_unfold Let_def)
  have "dp_calls dp \<le> dp_calls (maybe_heartbeat E i dp)" "dp_last_flush (maybe_heartbeat E i dp) = dp_last_flush dp"
    by (simp_all add: maybe_heartbeat_def os_ask_def case_prod_unfold Let_def)
  then show "young_batch E n j (maybe_heartbeat E i dp)" if "young_batch E n j dp"
    using that fw by (auto simp: young_batch_def take_stats_def)
qed

definition flush_interval :: "('c, 'm) datapath \<Rightarrow> int" where
  "flush_interval dp = (if telemetry_hot (dp_fw dp) then FLUSH_INTERVAL else FLUSH_INTERVAL_IDLE)"

text \<open>A pass that exits drives no command and delivers the last batch; one that panics has driven the
  commands; any other leaves nothing waiting too long.\<close>

definition pass_ok :: "('c, 'm) sys \<Rightarrow> os \<Rightarrow> ('c, 'm) datapath \<Rightarrow> ('c, 'm) datapath \<Rightarrow> bool" where
  "pass_ok X E dp dp' \<longleftrightarrow>
     (case dp_phase dp' of
        Exited \<Rightarrow> drove X [] dp dp' \<and> dp_queue dp' = dp_queue dp \<and> delivered dp'
      | Panicked \<Rightarrow> drove X (List.map_filter command_op (dp_queue dp)) dp dp' \<and> dp_queue dp' = [] \<and> fw_panic (dp_fw dp')
      | Running \<Rightarrow> drove X (List.map_filter command_op (dp_queue dp)) dp dp' \<and> dp_queue dp' = []
          \<and> \<not> fw_panic (dp_fw dp') \<and> (delivered dp' \<or> young_batch E (dp_calls dp) (flush_interval dp) dp'))"

lemma exit_loop_ok:
  assumes "\<not> fw_panic (dp_fw dp)"
  shows "drove X [] dp (exit_loop X dp)" "dp_queue (exit_loop X dp) = dp_queue dp" "delivered (exit_loop X dp)"
    "dp_phase (exit_loop X dp) = Exited"
  using assms drove_apply[of dp "exit_loop X dp" X Op_Flush]
  by (simp_all add: exit_loop_def delivered_def flush_batch_empties)

lemma run_pass_ok:
  assumes run: "dp_phase dp = Running" and np: "\<not> fw_panic (dp_fw dp)"
  shows "pass_ok X E dp (run_pass X E dp)"
proof (cases "dp_stop dp")
  case True
  then show ?thesis using run exit_loop_ok[OF np, of X] by (simp add: run_pass_def pass_ok_def)
next
  case False
  let ?fw = "snd (poll_timeout_ms X (dp_fw dp))"
  let ?t = "min (int (fst (poll_timeout_ms X (dp_fw dp)))) (flush_interval dp)"
  let ?dp1 = "dp\<lparr>dp_fw := ?fw, dp_calls := dp_calls dp + 1\<rparr>"
  have np1: "\<not> fw_panic ?fw" using np by (simp add: poll_timeout_ms_def now_ms_def ask_def tick_def Let_def)
  have d1: "drove X [] dp ?dp1" using drove_apply[of dp ?dp1 X Op_PollTimeout] np by simp
  define i where "i = (if telemetry_hot (dp_fw dp) then HEARTBEAT_INTERVAL else HEARTBEAT_INTERVAL_IDLE)"
  have eq: "run_pass X E dp =
      (case os_poll E (dp_calls dp) ?t of
         None \<Rightarrow> exit_loop X ?dp1
       | Some evs \<Rightarrow>
           if fw_panic (dp_fw (handle_events X E evs ?dp1)) then (handle_events X E evs ?dp1)\<lparr>dp_phase := Panicked\<rparr>
           else maybe_heartbeat E i (maybe_flush X E (flush_interval dp) (handle_events X E evs ?dp1)))"
    using run False
    by (simp add: run_pass_def loop_pass_def flush_interval_def os_ask_def i_def case_prod_unfold Let_def split: option.split)
  show ?thesis
  proof (cases "os_poll E (dp_calls dp) ?t")
    case None
    then show ?thesis using exit_loop_ok[of ?dp1 X] np1 drove_trans[OF d1] by (fastforce simp: eq pass_ok_def)
  next
    case (Some evs)
    let ?dp2 = "handle_events X E evs ?dp1"
    have h: "ran X (List.map_filter command_op (dp_queue dp)) (?dp1\<lparr>dp_queue := []\<rparr>) ?dp2"
      using ran_handle_events[of ?dp1 X E evs] np1 by simp
    then have d2: "drove X (List.map_filter command_op (dp_queue dp)) dp ?dp2"
      and f2: "dp_queue ?dp2 = []" "dp_phase ?dp2 = Running" "dp_calls dp \<le> dp_calls ?dp2"
      using drove_trans[OF d1] run by (auto simp: ran_def drove_def)
    show ?thesis
    proof (cases "fw_panic (dp_fw ?dp2)")
      case True
      then show ?thesis using Some d2 f2 by (simp add: eq pass_ok_def drove_def)
    next
      case False
      let ?dp3 = "maybe_flush X E (flush_interval dp) ?dp2"
      note fl = maybe_flush_pass[OF False]
      have np3: "\<not> fw_panic (dp_fw ?dp3)" by (rule fl(4))
      note hb = maybe_heartbeat_pass[OF np3]
      let ?dp4 = "maybe_heartbeat E i ?dp3"
      have d4: "drove X (List.map_filter command_op (dp_queue dp)) dp ?dp4"
        using drove_trans[OF d2 drove_trans[OF fl(1) hb(1)]] by simp
      have late: "young_batch E (dp_calls dp) n dp'" if "young_batch E (dp_calls ?dp2) n dp'" for n and dp' :: "('a, 'b) datapath"
        using that f2(3) by (auto simp: young_batch_def intro: order_trans)
      have "delivered ?dp4 \<or> young_batch E (dp_calls dp) (flush_interval dp) ?dp4"
        using fl(5)[where E = E and i = "flush_interval dp" and X = X] late hb(5,6) by metis
      moreover have "run_pass X E dp = ?dp4" using Some False by (simp add: eq)
      moreover have "dp_queue ?dp4 = []" "dp_phase ?dp4 = Running" by (simp_all only: hb(2-3) fl(2-3) f2)
      moreover have "\<not> fw_panic (dp_fw ?dp4)" by (rule hb(4))
      ultimately show ?thesis using d4 by (simp add: pass_ok_def)
    qed
  qed
qed


subsection \<open>Sessions\<close>

definition session_ok :: "('c, 'm) sys \<Rightarrow> config \<Rightarrow> command list \<Rightarrow> ('c, 'm) datapath \<Rightarrow> bool" where
  \<comment> \<open>after the commands \<open>cs\<close> were sent\<close>
  "session_ok X cfg cs dp \<longleftrightarrow>
     (\<exists>ops. dp_fw dp = fw_run X ops (fw_new X cfg)
        \<and> List.map_filter command_op cs = filter control_op ops @ List.map_filter command_op (dp_queue dp))
     \<and> (dp_phase dp = Running \<longrightarrow> \<not> fw_panic (dp_fw dp))
     \<and> (dp_phase dp = Panicked \<longrightarrow> fw_panic (dp_fw dp))"

lemma map_filter_append: "List.map_filter f (xs @ ys) = List.map_filter f xs @ List.map_filter f ys"
  by (induction xs) (auto simp: map_filter_simps split: option.split)

lemma session_ok_drove:
  assumes "session_ok X cfg cs dp" and "drove X cs' dp dp'"
    and "List.map_filter command_op (dp_queue dp) = cs' @ List.map_filter command_op (dp_queue dp')"
    and "dp_phase dp' = Running \<longrightarrow> \<not> fw_panic (dp_fw dp')" "dp_phase dp' = Panicked \<longrightarrow> fw_panic (dp_fw dp')"
  shows "session_ok X cfg cs dp'"
proof -
  from assms(1) obtain ops where "dp_fw dp = fw_run X ops (fw_new X cfg)"
    "List.map_filter command_op cs = filter control_op ops @ List.map_filter command_op (dp_queue dp)"
    by (auto simp: session_ok_def)
  moreover from assms(2) obtain ops' where "dp_fw dp' = fw_run X ops' (dp_fw dp)" "filter control_op ops' = cs'"
    by (auto simp: drove_def)
  ultimately show ?thesis
    using assms(3-) unfolding session_ok_def by (intro conjI exI[of _ "ops @ ops'"]) auto
qed

lemma session_ok_pass:
  assumes "session_ok X cfg cs dp"
  shows "session_ok X cfg cs (run_pass X E dp)"
proof (cases "dp_phase dp = Running")
  case True
  then have "pass_ok X E dp (run_pass X E dp)" using assms by (intro run_pass_ok) (auto simp: session_ok_def)
  then show ?thesis
    using session_ok_drove[OF assms] by (auto simp: pass_ok_def map_filter_simps split: phase.splits)
next
  case False
  then show ?thesis using assms by (simp add: run_pass_def)
qed

lemma session_ok_send: "session_ok X cfg cs dp \<Longrightarrow> session_ok X cfg (cs @ [c]) (send c dp)"
  by (auto simp: send_def session_ok_def map_filter_append)

lemma session_ok_run: "session_ok X cfg (sent acts) (session_run X E acts (session_new X E cfg))"
proof (induction acts rule: rev_induct)
  case Nil
  then show ?case
    by (auto simp: session_run_def session_ok_def session_new_def map_filter_simps intro!: exI[of _ "[]"])
next
  case (snoc act acts)
  let ?dp = "session_run X E acts (session_new X E cfg)"
  have step: "session_run X E (acts @ [act]) (session_new X E cfg) = session_step X E act ?dp"
    by (simp add: session_run_def)
  show ?case
  proof (cases act)
    case (Act_Send c)
    then show ?thesis using session_ok_send[OF snoc] step by simp
  next
    case Act_Stop
    then show ?thesis using snoc step by (simp add: request_stop_def session_ok_def)
  next
    case Act_Pass
    then show ?thesis using session_ok_pass[OF snoc] step by simp
  qed
qed

text \<open>C5: the datapath thread runs the forwarder, and applies the commands in order. After any
  interleaving of control calls and passes the forwarder's state is one that its own operations reach
  from the start (so everything proved of its runs holds in the running program); and the control
  operations among them, followed by the commands still queued, are exactly the commands sent, in the
  order they were sent: none is lost, repeated or overtaken, also across a failed poll, a stop or a
  panic.\<close>

theorem session_runs_forwarder:
  "\<exists>ops. dp_fw (session_run X E acts (session_new X E cfg)) = fw_run X ops (fw_new X cfg)
     \<and> List.map_filter command_op (sent acts) =
         filter control_op ops @ List.map_filter command_op (dp_queue (session_run X E acts (session_new X E cfg)))"
  using session_ok_run[of X cfg acts E] by (simp add: session_ok_def)


subsection \<open>A concrete session\<close>

definition demo_os :: os where
  \<comment> \<open>each poll finds the tunnel readable, with one UDP packet; the clock stands still\<close>
  "demo_os = \<lparr>os_setup = True,
     os_poll = (\<lambda>_ _. Some [(TUN, \<lparr>rd_readable = True, rd_writable = False, rd_read_closed = False, rd_write_closed = False\<rparr>)]),
     os_read = (\<lambda>_. [demo_packet 17 31 64, []]), os_write = (\<lambda>_. 1500), os_time = (\<lambda>_. 0), os_version = []\<rparr>"

definition demo_session :: "(nat, unit) datapath" where
  "demo_session = session_run demo_sys demo_os [Act_Send (Set_Log_Open True)]
     (session_new demo_sys demo_os default_config)"

lemma demo_session_runs:
  "dp_phase demo_session = Running"
  "(dp_phase (run_pass demo_sys demo_os demo_session), length (fw_events (dp_fw (run_pass demo_sys demo_os demo_session))))
     = (Running, 1)"
  by (simp add: demo_session_def session_run_def send_def session_new_def demo_os_def) code_simp


end
