(* ===== verification/Jni_Entry.thy ===== *)
theory Jni_Entry
  imports Runtime Cert_Authority
begin

section \<open>The entry points of the app\<close>

text \<open>
  The functions of \<open>ffi.rs\<close> that the Kotlin side calls, over the session of \<open>runtime.rs\<close>. A handle is
  a \<open>jlong\<close>: zero is no session, any other value is the session it was made for (the code dereferences
  it). A string or an array that cannot be read from the JVM is the empty default, so the arguments
  are what was read. JSON is decoded by serde: \<open>json\<close> is what it makes of a text. The firewall blob is
  what \<open>AppRuleRepository.encodeBlob\<close> writes.
\<close>

type_synonym i64 = "64 word" \<comment> \<open>read by \<open>sint\<close>\<close>

definition ABI_VERSION :: i32 where "ABI_VERSION = 6"

definition with_session :: "i64 \<Rightarrow> (('c, 'm) datapath \<Rightarrow> ('c, 'm) datapath) \<Rightarrow> ('c, 'm) datapath \<Rightarrow> ('c, 'm) datapath" where
  "with_session handle f dp = (if handle = 0 then dp else f dp)"

subsection \<open>Sessions and settings\<close>

definition config_from_json :: "(bytes \<Rightarrow> config option) \<Rightarrow> bytes \<Rightarrow> config" where
  "config_from_json json s = (case json s of Some cfg \<Rightarrow> cfg | None \<Rightarrow> default_config)"

definition native_start ::
  "('c, 'm) sys \<Rightarrow> os \<Rightarrow> (bytes \<Rightarrow> config option) \<Rightarrow> bool \<Rightarrow> bool \<Rightarrow> bytes \<Rightarrow> ('c, 'm) datapath option" where
  \<comment> \<open>whether the bridge and the thread could be made; \<open>None\<close> is the zero handle\<close>
  "native_start X E json bridge_ok thread_ok config =
     (if bridge_ok \<and> thread_ok then Some (session_new X E (config_from_json json config)) else None)"

definition native_stop :: "i64 \<Rightarrow> ('c, 'm) datapath \<Rightarrow> ('c, 'm) datapath" where
  "native_stop handle = with_session handle request_stop"

definition native_update_filter :: "i64 \<Rightarrow> bytes \<Rightarrow> bytes \<Rightarrow> ('c, 'm) datapath \<Rightarrow> ('c, 'm) datapath" where
  "native_update_filter handle path pack =
     with_session handle (send (Load_Engine path (if pack = [] then None else Some pack)))"

definition native_update_config ::
  "(bytes \<Rightarrow> config option) \<Rightarrow> i64 \<Rightarrow> bytes \<Rightarrow> ('c, 'm) datapath \<Rightarrow> ('c, 'm) datapath" where
  "native_update_config json handle config =
     (let parsed = config_from_json json config
      in with_session handle
           (send (Set_Dns_Upstream (cf_dns_transport parsed) (parse_dns_override (cf_dns_servers parsed))
                    (cf_dns_port parsed) (cf_dns_host parsed) (cf_dns_path parsed))
            \<circ> send (Set_Proxy_Dns (cf_proxy_dns_over_tcp parsed))
            \<circ> send (Set_Cosmetic (cf_cosmetic_element_hiding parsed) (cf_cosmetic_scriptlets parsed))
            \<circ> send (Set_Encrypted_Dns_Mode (cf_encrypted_dns_mode parsed))))"

definition native_update_network :: "i64 \<Rightarrow> i32 \<Rightarrow> ('c, 'm) datapath \<Rightarrow> ('c, 'm) datapath" where
  \<comment> \<open>\<open>transport as u8\<close>\<close>
  "native_update_network handle transport = with_session handle (send (Set_Transport (ucast transport)))"

definition native_set_log_open :: "i64 \<Rightarrow> u8 \<Rightarrow> ('c, 'm) datapath \<Rightarrow> ('c, 'm) datapath" where
  "native_set_log_open handle open = with_session handle (send (Set_Log_Open (open \<noteq> 0)))"

definition native_start_pcap :: "i64 \<Rightarrow> i32 \<Rightarrow> i64 \<Rightarrow> ('c, 'm) datapath \<Rightarrow> bool \<times> ('c, 'm) datapath" where
  "native_start_pcap handle fd ring_bytes dp =
     (handle \<noteq> 0, with_session handle (send (Start_Pcap fd (nat (max (sint ring_bytes) 0)))) dp)"

definition native_stop_pcap :: "i64 \<Rightarrow> ('c, 'm) datapath \<Rightarrow> ('c, 'm) datapath" where
  "native_stop_pcap handle = with_session handle (send Stop_Pcap)"

definition native_export_har :: "i64 \<Rightarrow> i32 \<Rightarrow> ('c, 'm) datapath \<Rightarrow> bool \<times> ('c, 'm) datapath" where
  "native_export_har handle fd dp = (handle \<noteq> 0, with_session handle (send (Export_Har fd)) dp)"

definition generate_ca :: "('k, 'x, 'y) pki \<Rightarrow> nat \<Rightarrow> bool \<Rightarrow> (bytes \<times> bytes) option" where
  \<comment> \<open>the certificate and the key, both as PEM, when the JVM can make the strings and their array\<close>
  "generate_ca P n jvm_ok =
     (case ca_generate P n of None \<Rightarrow> None | Some ca \<Rightarrow> if jvm_ok then Some (ca_cert_pem ca, ca_key_pem ca) else None)"

subsection \<open>The firewall blob\<close>

record app_rule =
  ar_uid :: i32
  ar_allow_wifi :: bool
  ar_allow_cellular :: bool
  ar_inspect_tls :: bool

definition encode_rule :: "app_rule \<Rightarrow> bytes" where
  "encode_rule r =
     le_bytes 4 (unat (ar_uid r))
     @ [if ar_allow_wifi r then 1 else 0, if ar_allow_cellular r then 1 else 0, if ar_inspect_tls r then 1 else 0]"

definition encode_blob :: "app_rule list \<Rightarrow> bytes" where
  "encode_blob rules = le_bytes 4 (length rules) @ concat (map encode_rule rules)"

fun parse_rules :: "nat \<Rightarrow> bytes \<Rightarrow> (i32, app_policy) hash_map \<Rightarrow> (i32, app_policy) hash_map" where
  \<comment> \<open>the loop over the announced number of rules, on what is left of the blob\<close>
  "parse_rules n blob m =
     (if n = 0 \<or> length blob < 7 then m
      else parse_rules (n - 1) (drop 7 blob)
             (AList.update (word_of_nat (le_val (take 4 blob)))
                \<lparr>ap_allow_wifi = blob ! 4 \<noteq> 0, ap_allow_cellular = blob ! 5 \<noteq> 0, ap_inspect_tls = blob ! 6 \<noteq> 0\<rparr> m))"

declare parse_rules.simps [simp del]

definition parse_firewall :: "bytes \<Rightarrow> (i32, app_policy) hash_map" where
  "parse_firewall blob = (if length blob < 4 then [] else parse_rules (le_val (take 4 blob)) (drop 4 blob) [])"

definition native_update_firewall :: "i64 \<Rightarrow> bytes \<Rightarrow> ('c, 'm) datapath \<Rightarrow> ('c, 'm) datapath" where
  "native_update_firewall handle rules = with_session handle (send (Update_Firewall (parse_firewall rules)))"

definition rule_policy :: "app_rule \<Rightarrow> app_policy" where
  "rule_policy r =
     \<lparr>ap_allow_wifi = ar_allow_wifi r, ap_allow_cellular = ar_allow_cellular r, ap_inspect_tls = ar_inspect_tls r\<rparr>"

lemma length_encode_rule [simp]: "length (encode_rule r) = 7"
  by (simp add: encode_rule_def)

lemma encode_rule_fields:
  "le_val (take 4 (encode_rule r)) = unat (ar_uid r)" "(encode_rule r @ b) ! 4 = (if ar_allow_wifi r then 1 else 0)"
  "(encode_rule r @ b) ! 5 = (if ar_allow_cellular r then 1 else 0)"
  "(encode_rule r @ b) ! 6 = (if ar_inspect_tls r then 1 else 0)"
  using unat_u32_less[of "ar_uid r"]
  by (simp_all add: encode_rule_def nth_append le_val_le_bytes)

lemma parse_rules_encode:
  "parse_rules (length rules) (concat (map encode_rule rules)) m
     = fold (\<lambda>r. AList.update (ar_uid r) (rule_policy r)) rules m"
proof (induction rules arbitrary: m)
  case Nil
  then show ?case by (simp add: parse_rules.simps)
next
  case (Cons r rules)
  have p: "\<lparr>ap_allow_wifi = (encode_rule r @ b) ! 4 \<noteq> 0, ap_allow_cellular = (encode_rule r @ b) ! 5 \<noteq> 0,
      ap_inspect_tls = (encode_rule r @ b) ! 6 \<noteq> 0\<rparr> = rule_policy r" for b
    by (simp add: encode_rule_fields rule_policy_def)
  have "parse_rules (length (r # rules)) (concat (map encode_rule (r # rules))) m
    = parse_rules (length rules) (concat (map encode_rule rules)) (AList.update (ar_uid r) (rule_policy r) m)"
    by (subst parse_rules.simps) (simp add: p encode_rule_fields(1))
  then show ?case by (simp add: Cons.IH)
qed

lemma parse_encode_blob:
  assumes "length rules < 2 ^ 32"
  shows "parse_firewall (encode_blob rules) = fold (\<lambda>r. AList.update (ar_uid r) (rule_policy r)) rules []"
  using assms by (simp add: parse_firewall_def encode_blob_def le_val_le_bytes parse_rules_encode)

lemma map_of_fold_rules:
  "distinct (map ar_uid rules) \<Longrightarrow>
   map_of (fold (\<lambda>r. AList.update (ar_uid r) (rule_policy r)) rules m) uid
     = (case find (\<lambda>r. ar_uid r = uid) rules of Some r \<Rightarrow> Some (rule_policy r) | None \<Rightarrow> map_of m uid)"
proof (induction rules arbitrary: m)
  case Nil
  then show ?case by simp
next
  case (Cons r rules)
  have "find (\<lambda>r. ar_uid r = uid) rules = None" if "ar_uid r = uid"
    using Cons.prems that by (simp add: find_None_iff) (metis image_eqI)
  then show ?case using Cons by (auto simp: update_conv' split: option.split)
qed

subsection \<open>From the app's rules to the verdicts\<close>

fun rules_after :: "fw_op \<Rightarrow> (i32, app_policy) hash_map \<Rightarrow> (i32, app_policy) hash_map" where
  "rules_after (Op_Firewall rules) _ = rules"
| "rules_after op rules = rules"

lemma panic_stays: "fw_panic fw \<Longrightarrow> fw_run X ops fw = fw"
  unfolding fw_run_def by (induction ops) (simp_all add: unless_panic_def)

lemma firewall_apply:
  assumes "fwd_ok fw"
  shows "fw_firewall (fw_apply X op fw) = rules_after op (fw_firewall fw)"
proof (cases "setting_op op")
  case True
  then show ?thesis
    by (cases op) (auto simp: load_engine_def set_encrypted_dns_mode_def set_dns_upstream_def set_firewall_def set_transport_def
        set_log_open_def fw_set_cosmetic_def set_proxy_dns_over_tcp_def split: option.split)
next
  case False
  have "settings (fw_apply X op fw) = settings fw"
    by (rule mvs_settings[OF mvs_apply[OF False rtranclp.rtrancl_refl assms]])
  moreover have "rules_after op = (\<lambda>rules. rules)" using False by (cases op) auto
  ultimately show ?thesis by (simp add: settings_def)
qed

lemma firewall_run:
  assumes "fwd_ok fw" and "\<not> fw_panic (fw_run X ops fw)"
  shows "fw_firewall (fw_run X ops fw) = fold rules_after (filter control_op ops) (fw_firewall fw)"
  using assms
proof (induction ops arbitrary: fw)
  case Nil
  then show ?case by simp
next
  case (Cons op ops)
  have np: "\<not> fw_panic fw" using Cons.prems(2) panic_stays[of fw X "op # ops"] by metis
  have run: "fw_run X (op # ops) fw = fw_run X ops (fw_apply X op fw)"
    using np by (simp add: fw_run_def unless_panic_def)
  have "rules_after op (fw_firewall fw) = fw_firewall fw" if "\<not> control_op op"
    using that by (cases op) auto
  then show ?case
    using Cons.IH[OF fwd_ok_apply[OF Cons.prems(1)]] Cons.prems(2) firewall_apply[OF Cons.prems(1)]
    by (simp add: run)
qed

definition rule_blocks :: "app_rule list \<Rightarrow> u8 \<Rightarrow> i32 \<Rightarrow> bool" where
  \<comment> \<open>what the user's rules say of an app on a transport\<close>
  "rule_blocks rules transport uid \<longleftrightarrow> sint uid \<ge> 0 \<and>
     (case find (\<lambda>r. ar_uid r = uid) rules of
        None \<Rightarrow> False
      | Some r \<Rightarrow> transport = TRANSPORT_WIFI \<and> \<not> ar_allow_wifi r \<or> transport = TRANSPORT_CELLULAR \<and> \<not> ar_allow_cellular r)"

lemma policy_blocks_rules:
  assumes "distinct (map ar_uid rules)"
    and "fw_firewall fw = fold (\<lambda>r. AList.update (ar_uid r) (rule_policy r)) rules []"
  shows "policy_blocks fw uid = rule_blocks rules (fw_transport fw) uid"
proof -
  have "map_of (fw_firewall fw) uid = (case find (\<lambda>r. ar_uid r = uid) rules of Some r \<Rightarrow> Some (rule_policy r) | None \<Rightarrow> None)"
    using map_of_fold_rules[OF assms(1), of "[]" uid] assms(2) by (simp split: option.split)
  then show ?thesis
    by (auto simp: policy_blocks_def rule_blocks_def rule_policy_def TRANSPORT_WIFI_def TRANSPORT_CELLULAR_def split: option.split)
qed

lemma running_pass:
  assumes "dp_phase (run_pass X E dp) = Running" and ok: "session_ok X cfg cs dp"
  shows "drove X (List.map_filter command_op (dp_queue dp)) dp (run_pass X E dp)"
    "fwd_ok (dp_fw dp)" "\<not> fw_panic (dp_fw (run_pass X E dp))" "fwd_ok (dp_fw (run_pass X E dp))"
proof -
  have run: "dp_phase dp = Running" using assms(1) by (auto simp: run_pass_def split: if_splits)
  then have "pass_ok X E dp (run_pass X E dp)" using ok by (intro run_pass_ok) (auto simp: session_ok_def)
  then show "drove X (List.map_filter command_op (dp_queue dp)) dp (run_pass X E dp)" "\<not> fw_panic (dp_fw (run_pass X E dp))"
    using assms(1) by (simp_all add: pass_ok_def)
  show "fwd_ok (dp_fw dp)" "fwd_ok (dp_fw (run_pass X E dp))"
    using ok session_ok_pass[OF ok, of E] by (auto simp: session_ok_def reached_ok)
qed

text \<open>C4: the rules the user sets are the rules in force. Once the app has handed over its rules (fewer
  than \<open>2\<^sup>32\<close>, one for each app, in the encoding the Kotlin side writes) and the datapath thread has made one
  more pass, in whatever state the session was and whatever else happens in that pass, the verdict of
  every packet is what these rules say for its app on the current transport, cached verdicts included.\<close>

theorem firewall_update_in_force:
  assumes "dp = session_run X E acts (session_new X E cfg)"
    and "dp' = run_pass X E (native_update_firewall handle (encode_blob rules) dp)"
    and "handle \<noteq> 0" and "length rules < 2 ^ 32" and "distinct (map ar_uid rules)" and "dp_phase dp' = Running"
  shows "vd_blocked (fst (verdict_for X d proto (dp_fw dp')))
    = rule_blocks rules (fw_transport (dp_fw dp')) (vd_uid (fst (verdict_for X d proto (dp_fw dp'))))"
proof -
  let ?m = "fold (\<lambda>r. AList.update (ar_uid r) (rule_policy r)) rules []"
  let ?c = "Update_Firewall ?m"
  have up: "native_update_firewall handle (encode_blob rules) dp = send ?c dp"
    using assms(3) by (simp add: native_update_firewall_def with_session_def parse_encode_blob[OF assms(4)])
  have ok: "session_ok X cfg (sent acts @ [?c]) (send ?c dp)"
    using session_ok_send[OF session_ok_run] assms(1) by blast
  note run = running_pass[OF _ ok, of E, folded up assms(2), OF assms(6)]
  from run(1) obtain ops where ops: "dp_fw dp' = fw_run X ops (dp_fw dp)"
    "filter control_op ops = List.map_filter command_op (dp_queue dp) @ [Op_Firewall ?m]"
    by (auto simp: drove_def up send_def map_filter_append map_filter_simps)
  have "fwd_ok (dp_fw dp)" using run(2) by (simp add: up send_def)
  from firewall_run[OF this] ops run(3) have "fw_firewall (dp_fw dp') = ?m" by simp
  then show ?thesis
    using verdict_is_policy[OF fwd_okD(4)[OF run(4)]] policy_blocks_rules[OF assms(5)] by simp
qed

definition demo_rules :: "app_rule list" where
  "demo_rules = [\<lparr>ar_uid = 10001, ar_allow_wifi = True, ar_allow_cellular = False, ar_inspect_tls = False\<rparr>]"

definition demo_flow :: decoded where
  "demo_flow = \<lparr>d_ip_version = 4, d_proto = L4_Tcp, d_src = V4 10 0 0 2, d_dst = V4 1 1 1 1, d_src_port = 4660,
     d_dst_port = 443, d_length = 40\<rparr>"

definition demo_updated :: "(nat, unit) datapath" where
  \<comment> \<open>on a cellular network, after the rules were handed over\<close>
  "demo_updated = run_pass demo_sys (demo_os\<lparr>os_poll := \<lambda>_ _. Some []\<rparr>)
     (native_update_firewall 1 (encode_blob demo_rules)
       (session_run demo_sys (demo_os\<lparr>os_poll := \<lambda>_ _. Some []\<rparr>) [Act_Send (Set_Transport 2)]
         (session_new demo_sys (demo_os\<lparr>os_poll := \<lambda>_ _. Some []\<rparr>) default_config)))"

lemma demo_updated_runs:
  "(dp_phase demo_updated, fw_transport (dp_fw demo_updated), vd_uid (fst (verdict_for demo_sys demo_flow 0 (dp_fw demo_updated))))
     = (Running, 2, 10001)"
  by code_simp

lemma firewall_update_in_force_witness:
  "vd_blocked (fst (verdict_for demo_sys demo_flow 0 (dp_fw demo_updated)))"
proof -
  have "vd_blocked (fst (verdict_for demo_sys demo_flow 0 (dp_fw demo_updated)))
    = rule_blocks demo_rules (fw_transport (dp_fw demo_updated)) (vd_uid (fst (verdict_for demo_sys demo_flow 0 (dp_fw demo_updated))))"
    by (rule firewall_update_in_force[OF refl demo_updated_def]) (use demo_updated_runs in \<open>simp_all add: demo_rules_def\<close>)
  then show ?thesis
    using demo_updated_runs by (simp add: rule_blocks_def demo_rules_def TRANSPORT_WIFI_def TRANSPORT_CELLULAR_def)
qed

end
