(* ===== verification/Jni_Bridge.thy ===== *)
theory Jni_Bridge
  imports Fw_Properties
begin

section \<open>The upcalls into the app\<close>

text \<open>
  The calls of \<open>bridge.rs\<close> on the Kotlin \<open>NativeBridge\<close>. The JVM is a record of its answers to the
  \<open>n\<close>-th call: whether a byte array could be made and what a method returned, \<open>None\<close> where it raised
  an exception (which the code clears) or the call failed.
\<close>

record jvm =
  jv_array :: "nat \<Rightarrow> bool"
  jv_protect :: "nat \<Rightarrow> i32 \<Rightarrow> bool option"
  jv_lookup_uid :: "nat \<Rightarrow> i32 \<Rightarrow> bytes \<Rightarrow> i32 \<Rightarrow> bytes \<Rightarrow> i32 \<Rightarrow> i32 option"

fun ip_octets :: "ip_addr \<Rightarrow> bytes" where
  "ip_octets (V4 a b c d) = [a, b, c, d]"
| "ip_octets (V6 bs) = bs"

definition bridge_on_events :: "jvm \<Rightarrow> nat \<Rightarrow> bytes \<Rightarrow> bytes option" where
  \<comment> \<open>the batch the app is handed\<close>
  "bridge_on_events J n batch = (if jv_array J n then Some batch else None)"

definition bridge_protect :: "jvm \<Rightarrow> nat \<Rightarrow> i32 \<Rightarrow> bool" where
  "bridge_protect J n fd = (case jv_protect J n fd of Some b \<Rightarrow> b | None \<Rightarrow> False)"

definition bridge_lookup_uid :: "jvm \<Rightarrow> nat \<Rightarrow> i32 \<Rightarrow> sock_addr \<Rightarrow> sock_addr \<Rightarrow> i32" where
  "bridge_lookup_uid J n proto src dst =
     (if jv_array J n \<and> jv_array J (n + 1) then
        (case jv_lookup_uid J (n + 2) proto (ip_octets (sa_ip src)) (ucast (sa_port src))
                (ip_octets (sa_ip dst)) (ucast (sa_port dst)) of
           Some uid \<Rightarrow> uid
         | None \<Rightarrow> - 1)
      else - 1)"

lemma lookup_failure_unattributed:
  assumes "\<And>k. jv_lookup_uid J k proto (ip_octets (sa_ip src)) (ucast (sa_port src)) (ip_octets (sa_ip dst)) (ucast (sa_port dst)) = None"
  shows "\<not> policy_blocks fw (bridge_lookup_uid J n proto src dst)"
  \<comment> \<open>a packet that cannot be attributed to an app is not blocked by any app's rule\<close>
  by (simp add: bridge_lookup_uid_def assms policy_blocks_def)

end
