(* ===== verification/Filter_Lists.thy ===== *)
theory Filter_Lists
  imports Filter_Engine Rust_Text
begin

section \<open>Compiling and loading filter lists\<close>

text \<open>
  The rest of the crate \<open>filter\<close> and the entry point that compiles an engine: which lists and rules
  reach the matcher, in which format and order. The matcher and its compiler are a third-party package
  (\<open>adblock\<close>): a filter set and an engine are values of its types, its calls fields of a record. Files
  are a partial function of their paths.
\<close>

datatype filter_format = Standard_Format | Hosts_Format

datatype list_format = Adblock_List | Hosts_List

record parse_options =
  po_format :: filter_format
  po_all_rule_types :: bool

record ('s, 'g) adblock =
  ab_new_set :: 's
  ab_add_filter_list :: "bytes \<Rightarrow> parse_options \<Rightarrow> 's \<Rightarrow> 's"
  ab_add_filters :: "bytes list \<Rightarrow> parse_options \<Rightarrow> 's \<Rightarrow> 's"
  ab_from_filter_set :: "'s \<Rightarrow> 'g"
  ab_serialize :: "'g \<Rightarrow> bytes"
  ab_deserialize :: "bytes \<Rightarrow> 'g option"
  ab_use_resources :: "bytes \<Rightarrow> 'g \<Rightarrow> 'g option" \<comment> \<open>\<open>None\<close> where the JSON does not parse\<close>
  ab_check :: "'g \<Rightarrow> bytes \<Rightarrow> bytes \<Rightarrow> bytes \<Rightarrow> bool option" \<comment> \<open>URL, source URL and type of a request\<close>

definition list_options :: "list_format \<Rightarrow> parse_options" where
  "list_options fmt =
     \<lparr>po_format = (case fmt of Adblock_List \<Rightarrow> Standard_Format | Hosts_List \<Rightarrow> Hosts_Format), po_all_rule_types = True\<rparr>"

definition from_lists :: "('s, 'g) adblock \<Rightarrow> (list_format \<times> bytes) list \<Rightarrow> bytes list \<Rightarrow> 'g" where
  "from_lists A srcs custom_rules =
     (let set = fold (\<lambda>(fmt, text). ab_add_filter_list A text (list_options fmt)) srcs (ab_new_set A);
          set = (if custom_rules = [] then set else ab_add_filters A custom_rules (list_options Adblock_List) set)
      in ab_from_filter_set A set)"

definition from_serialized_with_resources :: "('s, 'g) adblock \<Rightarrow> bytes \<Rightarrow> bytes option \<Rightarrow> 'g option" where
  "from_serialized_with_resources A data resources =
     (case ab_deserialize A data of
        None \<Rightarrow> None
      | Some g \<Rightarrow>
          (case resources of
             None \<Rightarrow> Some g
           | Some json \<Rightarrow> (case ab_use_resources A json g of Some g' \<Rightarrow> Some g' | None \<Rightarrow> Some g)))"

definition is_blocked_url :: "('s, 'g) adblock \<Rightarrow> 'g \<Rightarrow> bytes \<Rightarrow> bytes \<Rightarrow> bytes \<Rightarrow> bool" where
  "is_blocked_url A g url source_url kind = (case ab_check A g url source_url kind of Some m \<Rightarrow> m | None \<Rightarrow> False)"

definition read_to_string :: "(bytes \<Rightarrow> bytes option) \<Rightarrow> bytes \<Rightarrow> bytes option" where
  "read_to_string files path = (case files path of Some b \<Rightarrow> if utf8_valid b then Some b else None | None \<Rightarrow> None)"

definition compile_engine ::
  "('s, 'g) adblock \<Rightarrow> (bytes \<Rightarrow> bytes option) \<Rightarrow> bytes option list \<Rightarrow> int list \<Rightarrow> bytes option list \<Rightarrow> bytes option" where
  \<comment> \<open>what is written to the cache file: nothing when the arrays do not match; a path or a rule that
     cannot be read from the JVM (\<open>None\<close>) and a list that cannot be read from its file are skipped\<close>
  "compile_engine A files list_paths formats custom_rules =
     (if length list_paths \<noteq> length formats then None
      else
        let sources = List.map_filter
              (\<lambda>(path, code). map_option (Pair (if code = 1 then Hosts_List else Adblock_List)) (Option.bind path (read_to_string files)))
              (zip list_paths formats)
        in Some (ab_serialize A (from_lists A sources (List.map_filter id custom_rules))))"

definition load_cache ::
  "('s, 'g) adblock \<Rightarrow> (bytes \<Rightarrow> bytes option) \<Rightarrow> bytes \<Rightarrow> bytes option \<Rightarrow> 'g option option" where
  \<comment> \<open>the engine of a cache file: \<open>None\<close> when it cannot be read, \<open>Some None\<close> when it does not decode\<close>
  "load_cache A files path resources_path =
     map_option (\<lambda>data. from_serialized_with_resources A data (Option.bind resources_path (read_to_string files))) (files path)"

lemma compiled_engine_loads:
  assumes "compile_engine A files list_paths formats custom_rules = Some cache"
    and "\<And>g. ab_deserialize A (ab_serialize A g) = Some g"
  shows "load_cache A (files(out \<mapsto> cache)) out None =
    Some (Some (from_lists A
      (List.map_filter (\<lambda>(path, code). map_option (Pair (if code = 1 then Hosts_List else Adblock_List)) (Option.bind path (read_to_string files)))
         (zip list_paths formats))
      (List.map_filter id custom_rules)))"
  using assms by (auto simp: compile_engine_def load_cache_def from_serialized_with_resources_def Let_def split: if_splits)

end
